(* ===== verification/Prelude.thy ===== *)
theory Prelude
  imports Main "HOL-Library.Word" "HOL-Library.Multiset" "HOL-Library.List_Lexorder"
    "HOL-Library.Char_ord"
begin

text \<open>
  Shared vocabulary of the development: the machine integer types of the C++ sources, the
  passage between characters and octets, big- and little-endian views of 16- and 32-bit words,
  and the generic list and option facts that the component theories use.
\<close>

section \<open>Types of the C++ sources\<close>

type_synonym u8 = "8 word"
type_synonym u16 = "16 word"
type_synonym u32 = "32 word"
type_synonym u64 = "64 word"

type_synonym bytes = "u8 list"

text \<open>
  A time point of \<^verbatim>\<open>std::chrono::steady_clock\<close> is its count of nanoseconds.  Operations that read
  the clock take the instant they read as an argument.
\<close>

type_synonym time_point = int

definition milliseconds :: "int \<Rightarrow> int" where
  "milliseconds n = n * 1000000"

definition minutes :: "int \<Rightarrow> int" where
  "minutes n = n * 60000000000"

definition hours :: "int \<Rightarrow> int" where
  "hours n = n * 3600000000000"

named_theorems token_simps \<open>rewrite rules for token and line oriented text\<close>
named_theorems codec_simps \<open>round-trip laws of the byte codecs\<close>

section \<open>Characters and octets\<close>

definition byte_of_char :: "char \<Rightarrow> u8" where
  "byte_of_char c = word_of_nat (of_char c)"

definition char_of_byte :: "u8 \<Rightarrow> char" where
  "char_of_byte b = char_of (unat b)"

definition bytes_of_string :: "string \<Rightarrow> bytes" where
  "bytes_of_string s = map byte_of_char s"

definition string_of_bytes :: "bytes \<Rightarrow> string" where
  "string_of_bytes bs = map char_of_byte bs"

lemma of_char_less_256: "(of_char c :: nat) < 256"
  using nat_of_char_less_256 by simp

lemma unat_byte_of_char: "unat (byte_of_char c) = of_char c"
  using of_char_less_256 [of c] by (simp add: byte_of_char_def unat_of_nat)

lemma char_of_byte_of_char [simp]: "char_of_byte (byte_of_char c) = c"
  by (simp add: char_of_byte_def unat_byte_of_char)

lemma byte_of_char_of_byte [simp]: "byte_of_char (char_of_byte b) = b"
proof -
  have "unat b < 256"
    using unsigned_less [of b] by simp
  then show ?thesis
    by (simp add: char_of_byte_def byte_of_char_def)
qed

lemma string_of_bytes_of_string [simp]: "string_of_bytes (bytes_of_string s) = s"
  by (simp add: string_of_bytes_def bytes_of_string_def comp_def)

lemma bytes_of_string_of_bytes [simp]: "bytes_of_string (string_of_bytes bs) = bs"
  by (simp add: string_of_bytes_def bytes_of_string_def comp_def)

lemma length_bytes_of_string [simp]: "length (bytes_of_string s) = length s"
  by (simp add: bytes_of_string_def)

lemma length_string_of_bytes [simp]: "length (string_of_bytes bs) = length bs"
  by (simp add: string_of_bytes_def)

lemma bytes_of_string_inject [simp]: "bytes_of_string s = bytes_of_string t \<longleftrightarrow> s = t"
  by (metis string_of_bytes_of_string)

lemma bytes_of_string_Nil_iff [simp]: "bytes_of_string s = [] \<longleftrightarrow> s = []"
  by (simp add: bytes_of_string_def)

section \<open>Lists, options and sums\<close>

lemma takeWhile_append_stop:
  "\<lbrakk>\<forall>x\<in>set xs. P x; ys = [] \<or> \<not> P (hd ys)\<rbrakk> \<Longrightarrow> takeWhile P (xs @ ys) = xs"
  by (cases ys) (auto simp: takeWhile_append)

lemma dropWhile_append_stop:
  "\<lbrakk>\<forall>x\<in>set xs. P x; ys = [] \<or> \<not> P (hd ys)\<rbrakk> \<Longrightarrow> dropWhile P (xs @ ys) = ys"
  by (cases ys) (auto simp: dropWhile_append)

lemma fold_max_ge: "m \<le> fold max xs (m :: 'a :: linorder)"
proof (induction xs arbitrary: m)
  case (Cons x xs)
  show ?case using Cons [of "max x m"] by simp
qed simp

lemma fold_max_in: "x \<in> set xs \<Longrightarrow> x \<le> fold max xs (m :: 'a :: linorder)"
  by (induction xs arbitrary: m) (auto intro: order_trans [OF _ fold_max_ge])

lemma fold_max_cases: "fold max xs (m :: 'a :: linorder) \<in> insert m (set xs)"
proof (induction xs arbitrary: m)
  case (Cons x xs)
  show ?case using Cons [of "max x m"] by (auto simp: max_def split: if_splits)
qed simp

lemma map_of_filter_fst:
  "map_of (filter (\<lambda>p. P (fst p)) ps) k = (if P k then map_of ps k else None)"
  by (induction ps) auto

text \<open>Leaving out elements that something kept exceeds does not change the maxima.\<close>

lemma maxima_drop:
  fixes f :: "'a \<Rightarrow> 'b::linorder"
  assumes "C' \<subseteq> C" and dom: "\<And>c. \<lbrakk>c \<in> C; c \<notin> C'\<rbrakk> \<Longrightarrow> \<exists>c'\<in>C'. f c < f c'"
  shows "(m \<in> C' \<and> (\<forall>c\<in>C'. f c \<le> f m)) \<longleftrightarrow> (m \<in> C \<and> (\<forall>c\<in>C. f c \<le> f m))"
proof
  assume m: "m \<in> C' \<and> (\<forall>c\<in>C'. f c \<le> f m)"
  have "f c \<le> f m" if "c \<in> C" for c
    using m dom [OF that] by (cases "c \<in> C'") force+
  with m assms(1) show "m \<in> C \<and> (\<forall>c\<in>C. f c \<le> f m)" by blast
next
  assume m: "m \<in> C \<and> (\<forall>c\<in>C. f c \<le> f m)"
  have "m \<in> C'"
  proof (rule ccontr)
    assume "m \<notin> C'"
    then obtain c' where "c' \<in> C'" "f m < f c'" using m dom by blast
    then show False using m assms(1) by (meson leD subsetD)
  qed
  with m assms(1) show "m \<in> C' \<and> (\<forall>c\<in>C'. f c \<le> f m)" by blast
qed

end
