(* ===== verification/Cpp_Text.thy ===== *)
theory Cpp_Text
  imports Prelude
begin

text \<open>
  The parts of the C++ standard library that the sources use on text: formatted extraction of
  tokens and lines from an \<^verbatim>\<open>istringstream\<close>, \<^verbatim>\<open>std::string\<close> searching and slicing,
  \<^verbatim>\<open>std::to_string\<close>, \<^verbatim>\<open>std::from_chars\<close> and \<^verbatim>\<open>std::stoi\<close>.  The laws proved here (tokens survive a
  join with blanks, decimal numerals are read back) are the base of every text round trip of
  the development.
\<close>

section \<open>Token and line extraction\<close>

definition is_space :: "char \<Rightarrow> bool" where
  "is_space c \<longleftrightarrow> c \<in> {CHR 0x20, CHR 0x09, CHR 0x0A, CHR 0x0B, CHR 0x0C, CHR 0x0D}"

text \<open>\<^verbatim>\<open>stream >> token\<close>: skip blanks, then take the longest run without blanks; fail at the end.\<close>

definition stream_extract :: "string \<Rightarrow> (string \<times> string) option" where
  "stream_extract s =
     (let t = dropWhile is_space s
      in if t = [] then None
         else Some (takeWhile (\<lambda>c. \<not> is_space c) t, dropWhile (\<lambda>c. \<not> is_space c) t))"

lemma stream_extract_shorter:
  assumes "stream_extract s = Some (tok, rest)"
  shows "length rest < length s"
proof -
  let ?t = "dropWhile is_space s"
  have ne: "?t \<noteq> []" and rest: "rest = dropWhile (\<lambda>c. \<not> is_space c) ?t"
    using assms by (auto simp: stream_extract_def Let_def split: if_splits)
  have "\<not> is_space (hd ?t)"
    using ne hd_dropWhile by blast
  with ne have "length rest < length ?t"
    by (cases ?t) (auto simp: rest intro: le_imp_less_Suc length_dropWhile_le)
  also have "\<dots> \<le> length s" by (rule length_dropWhile_le)
  finally show ?thesis .
qed

text \<open>\<^verbatim>\<open>while (stream >> token) tokens.push_back(token);\<close>\<close>

function stream_tokens :: "string \<Rightarrow> string list" where
  "stream_tokens s =
     (case stream_extract s of None \<Rightarrow> [] | Some (tok, rest) \<Rightarrow> tok # stream_tokens rest)"
  by pat_completeness auto
termination
  by (relation "measure length") (auto dest: stream_extract_shorter)

declare stream_tokens.simps [simp del]

text \<open>\<^verbatim>\<open>while (std::getline(lines, line))\<close>: a final line without a newline still counts.\<close>

definition newline :: char where
  "newline = CHR 0x0A"

function stream_lines :: "string \<Rightarrow> string list" where
  "stream_lines s =
     (if s = [] then []
      else takeWhile (\<lambda>c. c \<noteq> newline) s # stream_lines (tl (dropWhile (\<lambda>c. c \<noteq> newline) s)))"
  by pat_completeness auto
termination
proof (relation "measure length", goal_cases)
  case (2 s)
  have "length (tl (dropWhile (\<lambda>c. c \<noteq> newline) s)) \<le> length s - 1"
    using length_dropWhile_le [of "\<lambda>c. c \<noteq> newline" s] by simp
  with 2 show ?case by (cases s) auto
qed simp

declare stream_lines.simps [simp del]

section \<open>Searching and slicing\<close>

text \<open>\<^verbatim>\<open>s.find(c)\<close>, with \<^verbatim>\<open>npos\<close> as \<^const>\<open>None\<close>.\<close>

fun find_char :: "char \<Rightarrow> string \<Rightarrow> nat option" where
  "find_char c [] = None"
| "find_char c (x # xs) = (if x = c then Some 0 else map_option Suc (find_char c xs))"

text \<open>\<^verbatim>\<open>s.substr(pos, n)\<close>.\<close>

definition substr :: "nat \<Rightarrow> nat \<Rightarrow> string \<Rightarrow> string" where
  "substr pos n s = take n (drop pos s)"

text \<open>\<^verbatim>\<open>s.rfind(p, 0) == 0\<close>: the string begins with \<^verbatim>\<open>p\<close>.\<close>

definition rfind_at_0 :: "string \<Rightarrow> string \<Rightarrow> bool" where
  "rfind_at_0 s p \<longleftrightarrow> take (length p) s = p"

text \<open>The text after the first \<^verbatim>\<open>=\<close>, empty when there is none; three source files have this helper.\<close>

definition after_equals :: "string \<Rightarrow> string" where
  "after_equals token =
     (case find_char (CHR ''='') token of None \<Rightarrow> [] | Some e \<Rightarrow> drop (e + 1) token)"

section \<open>Numerals\<close>

definition digit_char :: "nat \<Rightarrow> char" where
  "digit_char d = (if d < 10 then char_of (48 + d) else char_of (87 + d))"

text \<open>Unsigned output in a base of at least two: \<^verbatim>\<open>std::to_string\<close> and \<^verbatim>\<open>std::hex\<close>.\<close>

function to_base :: "nat \<Rightarrow> nat \<Rightarrow> string" where
  "to_base b n =
     (if b < 2 \<or> n < b then [digit_char n] else to_base b (n div b) @ [digit_char (n mod b)])"
  by pat_completeness auto
termination
  by (relation "measure snd") auto

declare to_base.simps [simp del]

definition to_string :: "nat \<Rightarrow> string" where
  "to_string n = to_base 10 n"

definition is_digit :: "char \<Rightarrow> bool" where
  "is_digit c \<longleftrightarrow> 48 \<le> (of_char c :: nat) \<and> (of_char c :: nat) \<le> 57"

definition digits_value :: "string \<Rightarrow> nat" where
  "digits_value ds = foldl (\<lambda>acc c. acc * 10 + (of_char c - 48)) 0 ds"

datatype errc = Errc_ok | Errc_invalid_argument | Errc_result_out_of_range

text \<open>
  \<^verbatim>\<open>std::from_chars(begin, end, out)\<close> for an unsigned type: the new value of \<^verbatim>\<open>out\<close> (unchanged on
  an error), the error code, and the characters from \<^verbatim>\<open>ptr\<close> to \<^verbatim>\<open>end\<close>.
\<close>

definition from_chars :: "string \<Rightarrow> 'a::len word \<Rightarrow> 'a word \<times> errc \<times> string" where
  "from_chars s out =
     (let ds = takeWhile is_digit s; rest = dropWhile is_digit s
      in if ds = [] then (out, Errc_invalid_argument, s)
         else if 2 ^ LENGTH('a) \<le> digits_value ds then (out, Errc_result_out_of_range, rest)
         else (word_of_nat (digits_value ds), Errc_ok, rest))"

text \<open>
  \<^verbatim>\<open>std::stoi\<close> on a 32-bit \<^verbatim>\<open>int\<close>: leading blanks, an optional sign, at least one digit; what
  follows the digits is ignored.  \<^const>\<open>Inl\<close> is the exception thrown.
\<close>

definition stoi :: "string \<Rightarrow> errc + int" where
  "stoi s =
     (let t = dropWhile is_space s;
          neg = (t \<noteq> [] \<and> hd t = CHR ''-'');
          u = (if t \<noteq> [] \<and> (hd t = CHR ''-'' \<or> hd t = CHR ''+'') then tl t else t);
          ds = takeWhile is_digit u;
          v = (if neg then - int (digits_value ds) else int (digits_value ds))
      in if ds = [] then Inl Errc_invalid_argument
         else if v < - (2 ^ 31) \<or> 2 ^ 31 \<le> v then Inl Errc_result_out_of_range
         else Inr v)"

section \<open>Tokens survive a join with blanks\<close>

definition is_token :: "string \<Rightarrow> bool" where
  "is_token t \<longleftrightarrow> t \<noteq> [] \<and> (\<forall>c\<in>set t. \<not> is_space c)"

text \<open>No blank inside: the condition on a value printed after \<^verbatim>\<open>key=\<close>.\<close>

definition no_space :: "string \<Rightarrow> bool" where
  "no_space t \<longleftrightarrow> (\<forall>c\<in>set t. \<not> is_space c)"

lemma no_space_simps [token_simps]:
  "no_space []"
  "no_space (c # s) \<longleftrightarrow> \<not> is_space c \<and> no_space s"
  "no_space (s @ t) \<longleftrightarrow> no_space s \<and> no_space t"
  by (auto simp: no_space_def)

lemma is_token_iff: "is_token t \<longleftrightarrow> t \<noteq> [] \<and> no_space t"
  by (simp add: is_token_def no_space_def)

lemma is_token_append [token_simps]: "is_token s \<Longrightarrow> no_space t \<Longrightarrow> is_token (s @ t)"
  by (auto simp: is_token_iff token_simps)

lemma stream_extract_token:
  assumes "is_token t" and "rest = [] \<or> is_space (hd rest)"
  shows "stream_extract (t @ rest) = Some (t, rest)"
proof -
  have "dropWhile is_space (t @ rest) = t @ rest"
    using assms(1) by (cases t) (auto simp: is_token_def)
  moreover have "takeWhile (\<lambda>c. \<not> is_space c) (t @ rest) = t"
    and "dropWhile (\<lambda>c. \<not> is_space c) (t @ rest) = rest"
    using assms unfolding is_token_def
    by (intro takeWhile_append_stop dropWhile_append_stop; blast)+
  ultimately show ?thesis
    using assms(1) by (auto simp: stream_extract_def is_token_def Let_def)
qed

lemma stream_extract_skip: "is_space c \<Longrightarrow> stream_extract (c # s) = stream_extract s"
  by (simp add: stream_extract_def)

lemma stream_tokens_skip [token_simps]: "is_space c \<Longrightarrow> stream_tokens (c # s) = stream_tokens s"
  by (simp add: stream_tokens.simps [of "c # s"] stream_tokens.simps [of s] stream_extract_skip)

lemma stream_tokens_Nil [token_simps]: "stream_tokens [] = []"
  by (simp add: stream_tokens.simps stream_extract_def)

lemma stream_tokens_single [token_simps]: "is_token t \<Longrightarrow> stream_tokens t = [t]"
  using stream_extract_token [of t "[]"]
  by (simp add: stream_tokens.simps [of t] stream_tokens_Nil)

lemma stream_tokens_Cons [token_simps]:
  assumes "is_token t" and "is_space c"
  shows "stream_tokens (t @ c # rest) = t # stream_tokens rest"
  using stream_extract_token [of t "c # rest"] assms
  by (simp add: stream_tokens.simps [of "t @ c # rest"] stream_tokens_skip)

text \<open>A line whose tokens are each preceded by one blank.\<close>

definition blank_prefixed :: "string list \<Rightarrow> string" where
  "blank_prefixed ts = concat (map (\<lambda>t. CHR '' '' # t) ts)"

lemma blank_prefixed_simps [simp]:
  "blank_prefixed [] = []"
  "blank_prefixed (t # ts) = CHR '' '' # t @ blank_prefixed ts"
  "blank_prefixed (ts @ us) = blank_prefixed ts @ blank_prefixed us"
  by (simp_all add: blank_prefixed_def)

lemma is_space_blank [simp]: "is_space (CHR '' '')"
  by (simp add: is_space_def)

lemma is_space_newline [simp]: "is_space newline"
  by (simp add: is_space_def newline_def)

lemma stream_extract_line:
  "is_token t \<Longrightarrow> stream_extract (t @ blank_prefixed ts) = Some (t, blank_prefixed ts)"
  by (rule stream_extract_token) (cases ts; simp)+

lemma stream_tokens_line:
  "\<lbrakk>is_token t; list_all is_token ts\<rbrakk> \<Longrightarrow> stream_tokens (t @ blank_prefixed ts) = t # ts"
proof (induction ts arbitrary: t)
  case Nil
  then show ?case by (simp add: stream_tokens_single)
next
  case (Cons u us)
  then show ?case by (simp add: stream_tokens_Cons)
qed

lemma stream_tokens_blank_prefixed:
  "list_all is_token ts \<Longrightarrow> stream_tokens (blank_prefixed ts) = ts"
  by (cases ts) (simp_all add: stream_tokens_Nil stream_tokens_skip stream_tokens_line)

text \<open>Every token that comes out of a stream is non-empty and has no blank inside.\<close>

lemma stream_extract_is_token:
  assumes "stream_extract s = Some (t, rest)"
  shows "is_token t"
proof -
  let ?u = "dropWhile is_space s"
  have ne: "?u \<noteq> []" and t: "t = takeWhile (\<lambda>c. \<not> is_space c) ?u"
    using assms by (auto simp: stream_extract_def Let_def split: if_splits)
  have "\<not> is_space (hd ?u)"
    using ne hd_dropWhile by blast
  with ne have "t \<noteq> []"
    by (cases ?u) (auto simp: t)
  then show ?thesis
    by (auto simp: is_token_def t dest: set_takeWhileD)
qed

lemma stream_tokens_are_tokens: "list_all is_token (stream_tokens s)"
proof (induction s rule: stream_tokens.induct)
  case (1 s)
  then show ?case
    by (auto simp: stream_tokens.simps [of s] split: option.splits dest: stream_extract_is_token)
qed

lemma stream_lines_Nil [token_simps]: "stream_lines [] = []"
  by (simp add: stream_lines.simps)

lemma stream_lines_Cons [token_simps]:
  assumes "newline \<notin> set l"
  shows "stream_lines (l @ newline # rest) = l # stream_lines rest"
proof -
  have "\<forall>c\<in>set l. c \<noteq> newline" using assms by blast
  then have "takeWhile (\<lambda>c. c \<noteq> newline) (l @ newline # rest) = l"
    and "dropWhile (\<lambda>c. c \<noteq> newline) (l @ newline # rest) = newline # rest"
    by (simp_all add: takeWhile_append_stop dropWhile_append_stop)
  then show ?thesis
    by (subst stream_lines.simps) simp
qed

lemma no_space_no_newline: "no_space s \<Longrightarrow> newline \<notin> set s"
  by (auto simp: no_space_def)

section \<open>Keys and values\<close>

lemma find_char_None: "c \<notin> set s \<Longrightarrow> find_char c s = None"
  by (induction s) auto

lemma find_char_append [token_simps]: "c \<notin> set k \<Longrightarrow> find_char c (k @ c # v) = Some (length k)"
  by (induction k) auto

lemma find_char_Some_split:
  "find_char c s = Some i \<Longrightarrow> s = take i s @ c # drop (i + 1) s \<and> c \<notin> set (take i s)"
  by (induction s arbitrary: i) (auto split: if_splits)

lemma after_equals_append [token_simps]:
  "CHR ''='' \<notin> set k \<Longrightarrow> after_equals (k @ CHR ''='' # v) = v"
  by (simp add: after_equals_def find_char_append)

lemma rfind_at_0_append [token_simps]: "rfind_at_0 (p @ s) p"
  by (simp add: rfind_at_0_def)

section \<open>Decimal numerals are read back\<close>

text \<open>Evaluation of a printed numeral by the simplifier.\<close>

lemmas to_string_eval = to_string_def to_base.simps digit_char_def char_of_def bit_Suc_0_iff

lemma of_char_digit_char: "d < 16 \<Longrightarrow> (of_char (digit_char d) :: nat) = (if d < 10 then 48 + d else 87 + d)"
  by (simp add: digit_char_def)

lemma is_digit_digit_char: "d < 10 \<Longrightarrow> is_digit (digit_char d)"
  by (simp add: is_digit_def of_char_digit_char)

lemma is_digit_not_space: "is_digit c \<Longrightarrow> \<not> is_space c"
  by (auto simp: is_digit_def is_space_def)

lemma to_base_ne [simp]: "to_base b n \<noteq> []"
  by (subst to_base.simps) simp

lemma to_string_ne [simp]: "to_string n \<noteq> []"
  by (simp add: to_string_def)

lemma to_base_10_digits: "\<forall>c\<in>set (to_base 10 n). is_digit c"
proof (induction n rule: less_induct)
  case (less n)
  show ?case
  proof (cases "n < 10")
    case True
    then show ?thesis by (subst to_base.simps) (simp add: is_digit_digit_char)
  next
    case False
    then have "\<forall>c\<in>set (to_base 10 (n div 10)). is_digit c" by (intro less.IH) simp
    with False show ?thesis by (subst to_base.simps) (auto simp: is_digit_digit_char)
  qed
qed

lemma to_string_digits: "c \<in> set (to_string n) \<Longrightarrow> is_digit c"
  using to_base_10_digits by (simp add: to_string_def)

lemma no_space_to_string [token_simps]: "no_space (to_string n)"
  by (auto simp: no_space_def dest: to_string_digits is_digit_not_space)

lemma digits_value_snoc: "digits_value (ds @ [c]) = digits_value ds * 10 + (of_char c - 48)"
  by (simp add: digits_value_def)

lemma digits_value_to_string: "digits_value (to_string n) = n"
  unfolding to_string_def
proof (induction n rule: less_induct)
  case (less n)
  show ?case
  proof (cases "n < 10")
    case True
    then show ?thesis
      by (subst to_base.simps) (simp add: digits_value_def of_char_digit_char)
  next
    case False
    then have "digits_value (to_base 10 (n div 10)) = n div 10" by (intro less.IH) simp
    with False show ?thesis
      by (subst to_base.simps) (simp add: digits_value_snoc of_char_digit_char)
  qed
qed

lemma takeWhile_to_string: "takeWhile is_digit (to_string n) = to_string n"
  and dropWhile_to_string: "dropWhile is_digit (to_string n) = []"
  by (auto dest: to_string_digits)

text \<open>\<^verbatim>\<open>from_chars\<close> inverts \<^verbatim>\<open>to_string\<close>, consumes everything, and never fails on its output.\<close>

lemma from_chars_to_string [token_simps]:
  "from_chars (to_string (unat (w :: 'a::len word))) out = (w, Errc_ok, [])"
proof -
  have "unat w < 2 ^ LENGTH('a)" by (rule unsigned_less)
  then have "\<not> 2 ^ LENGTH('a) \<le> unat w" by (simp only: not_le)
  then show ?thesis
    by (simp add: from_chars_def takeWhile_to_string dropWhile_to_string digits_value_to_string
        Let_def)
qed

lemma from_chars_ok_iff:
  "fst (snd (from_chars s (out :: 'a::len word))) = Errc_ok \<and> snd (snd (from_chars s out)) = [] \<longleftrightarrow>
   s \<noteq> [] \<and> (\<forall>c\<in>set s. is_digit c) \<and> digits_value s < 2 ^ LENGTH('a)"
proof (cases "\<forall>c\<in>set s. is_digit c")
  case True
  then have t: "takeWhile is_digit s = s" and d: "dropWhile is_digit s = []"
    by (simp_all add: takeWhile_eq_all_conv dropWhile_eq_Nil_conv)
  from True show ?thesis unfolding from_chars_def Let_def t d by auto
next
  case False
  then have "dropWhile is_digit s \<noteq> []"
    by (simp add: dropWhile_eq_Nil_conv)
  with False show ?thesis by (auto simp: from_chars_def Let_def)
qed

end
