(* ===== verification/String_Map.thy ===== *)
theory String_Map
  imports Prelude
begin

text \<open>
  \<^verbatim>\<open>std::map<std::string, V>\<close>: an association list in strictly increasing key order, so that its
  order is the iteration order of the container (\<^verbatim>\<open>std::string\<close> compares octets as unsigned
  values, the order of \<^typ>\<open>char\<close>).  \<^verbatim>\<open>std::unordered_map\<close> objects of the sources are never
  iterated, so they share this representation.  The interface is the locale \<open>keyed_store\<close>;
  components that keep such a container rest on its laws.
\<close>

type_synonym 'v omap = "(string \<times> 'v) list"

definition omap_get :: "string \<Rightarrow> 'v omap \<Rightarrow> 'v option" where
  "omap_get k m = map_of m k"

fun omap_set :: "string \<Rightarrow> 'v \<Rightarrow> 'v omap \<Rightarrow> 'v omap" where
  "omap_set k v [] = [(k, v)]"
| "omap_set k v ((k', v') # m) =
     (if k < k' then (k, v) # (k', v') # m
      else if k = k' then (k, v) # m
      else (k', v') # omap_set k v m)"

definition omap_erase :: "string \<Rightarrow> 'v omap \<Rightarrow> 'v omap" where
  "omap_erase k m = filter (\<lambda>p. fst p \<noteq> k) m"

definition omap_size :: "'v omap \<Rightarrow> nat" where
  "omap_size m = length m"

definition omap_wf :: "'v omap \<Rightarrow> bool" where
  "omap_wf m \<longleftrightarrow> sorted_wrt (<) (map fst m)"

section \<open>The interface of a keyed store\<close>

locale keyed_store =
  fixes wf :: "'m \<Rightarrow> bool"
    and empty :: "'m"
    and get :: "'k \<Rightarrow> 'm \<Rightarrow> 'v option"
    and put :: "'k \<Rightarrow> 'v \<Rightarrow> 'm \<Rightarrow> 'm"
    and del :: "'k \<Rightarrow> 'm \<Rightarrow> 'm"
    and size_of :: "'m \<Rightarrow> nat"
  assumes wf_empty: "wf empty"
    and wf_put: "wf m \<Longrightarrow> wf (put k v m)"
    and wf_del: "wf m \<Longrightarrow> wf (del k m)"
    and get_empty: "get k empty = None"
    and get_put: "wf m \<Longrightarrow> get k' (put k v m) = (if k' = k then Some v else get k' m)"
    and get_del: "wf m \<Longrightarrow> get k' (del k m) = (if k' = k then None else get k' m)"
    and size_card: "wf m \<Longrightarrow> size_of m = card (dom (\<lambda>k. get k m))"
    and finite_keys: "wf m \<Longrightarrow> finite (dom (\<lambda>k. get k m))"
begin

lemma keys_put: "wf m \<Longrightarrow> dom (\<lambda>k'. get k' (put k v m)) = insert k (dom (\<lambda>k'. get k' m))"
  by (auto simp: get_put dom_def)

lemma size_put:
  assumes "wf m"
  shows "size_of (put k v m) = (if get k m = None then Suc (size_of m) else size_of m)"
  using assms finite_keys [OF assms]
  by (simp add: size_card wf_put keys_put card_insert_if domIff)

lemma keys_del: "wf m \<Longrightarrow> dom (\<lambda>k'. get k' (del k m)) = dom (\<lambda>k'. get k' m) - {k}"
  by (auto simp: get_del dom_def)

lemma size_del:
  assumes "wf m"
  shows "size_of (del k m) = (if get k m = None then size_of m else size_of m - 1)"
  using assms finite_keys [OF assms]
  by (simp add: size_card wf_del keys_del card_Diff_singleton_if domIff)

text \<open>Successive puts of distinct keys can be done in any order as far as lookups can tell.\<close>

definition put_all :: "('k \<times> 'v) list \<Rightarrow> 'm \<Rightarrow> 'm" where
  "put_all ps m = fold (\<lambda>(k, v). put k v) ps m"

lemma wf_put_all: "wf m \<Longrightarrow> wf (put_all ps m)"
  unfolding put_all_def
  by (induction ps arbitrary: m) (auto intro: wf_put)

lemma get_put_all:
  "wf m \<Longrightarrow> get k (put_all ps m) = (case map_of (rev ps) k of Some v \<Rightarrow> Some v | None \<Rightarrow> get k m)"
proof (induction ps arbitrary: m)
  case Nil
  then show ?case by (simp add: put_all_def)
next
  case (Cons p ps)
  obtain k' v' where p: "p = (k', v')" by fastforce
  have "put_all (p # ps) m = put_all ps (put k' v' m)"
    by (simp add: put_all_def p)
  then show ?case
    using Cons.IH [OF wf_put [OF Cons.prems]] Cons.prems
    by (auto simp: p get_put map_add_def split: option.splits)
qed

end

section \<open>Ordered association lists are a keyed store\<close>

lemma omap_wf_simps [simp]:
  "omap_wf []"
  "omap_wf ((k, v) # m) \<longleftrightarrow> (\<forall>p\<in>set m. k < fst p) \<and> omap_wf m"
  by (auto simp: omap_wf_def)

lemma set_omap_set: "set (omap_set k v m) \<subseteq> insert (k, v) (set m)"
  by (induction k v m rule: omap_set.induct) auto

lemma omap_wf_set: "omap_wf m \<Longrightarrow> omap_wf (omap_set k v m)"
proof (induction k v m rule: omap_set.induct)
  case (2 k v k' v' m)
  show ?case
  proof (cases "k < k'")
    case False
    with 2 set_omap_set [of k v m] show ?thesis by force
  qed (use 2 in auto)
qed simp

lemma omap_get_set: "omap_get k' (omap_set k v m) = (if k' = k then Some v else omap_get k' m)"
  by (induction k v m rule: omap_set.induct) (auto simp: omap_get_def)

lemma omap_get_erase: "omap_get k' (omap_erase k m) = (if k' = k then None else omap_get k' m)"
  using map_of_filter_fst [of "\<lambda>x. x \<noteq> k" m k'] by (simp add: omap_get_def omap_erase_def)

lemma omap_wf_erase: "omap_wf m \<Longrightarrow> omap_wf (omap_erase k m)"
  by (induction m) (auto simp: omap_erase_def)

lemma omap_wf_distinct: "omap_wf m \<Longrightarrow> distinct (map fst m)"
  by (simp add: omap_wf_def strict_sorted_imp_sorted strict_sorted_iff)

lemma omap_keys: "dom (\<lambda>k. omap_get k m) = fst ` set m"
  by (simp add: omap_get_def dom_map_of_conv_image_fst)

interpretation om: keyed_store omap_wf "[]" omap_get omap_set omap_erase omap_size
proof unfold_locales
  fix m :: "'a omap"
  assume wf: "omap_wf m"
  have "card (fst ` set m) = length m"
    using omap_wf_distinct [OF wf] by (metis distinct_card length_map set_map)
  then show "omap_size m = card (dom (\<lambda>k. omap_get k m))"
    by (simp only: omap_size_def omap_keys)
  show "finite (dom (\<lambda>k. omap_get k m))"
    by (simp only: omap_keys) simp
next
  show "omap_get k [] = (None :: 'a option)" for k
    by (simp add: omap_get_def)
qed (simp_all add: omap_wf_set omap_wf_erase omap_get_set omap_get_erase)

text \<open>Two ordered maps with the same lookups are the same list.\<close>

lemma omap_ext:
  assumes "omap_wf m" and "omap_wf m'" and "\<And>k. omap_get k m = omap_get k m'"
  shows "m = m'"
proof -
  have eq: "map_of m = map_of m'"
    using assms(3) by (auto simp: omap_get_def)
  have d: "distinct (map fst m)" "distinct (map fst m')"
    using assms omap_wf_distinct by blast+
  have sets: "set m = set m'"
    using map_of_inject_set [OF d] eq by blast
  have "map fst m = map fst m'"
    using assms(1,2) sets unfolding omap_wf_def
    by (intro strict_sorted_equal) auto
  moreover have "map snd m = map (the \<circ> map_of m) (map fst m)"
    "map snd m' = map (the \<circ> map_of m) (map fst m')"
    using d(2) by (auto simp: eq sets)
  ultimately show ?thesis
    by (metis zip_map_fst_snd)
qed

lemma omap_set_last: "\<forall>p\<in>set m. fst p < k \<Longrightarrow> omap_set k v m = m @ [(k, v)]"
  by (induction k v m rule: omap_set.induct) auto

text \<open>Inserting the entries of an ordered map one by one rebuilds it.\<close>

lemma fold_omap_set_rebuild:
  "omap_wf (acc @ m) \<Longrightarrow> fold (\<lambda>(k, v). omap_set k v) m acc = acc @ m"
proof (induction m arbitrary: acc)
  case (Cons p m)
  obtain k v where p: "p = (k, v)" by fastforce
  have "\<forall>q\<in>set acc. fst q < k"
    using Cons.prems by (auto simp: omap_wf_def sorted_wrt_append p)
  then have "fold (\<lambda>(k, v). omap_set k v) (p # m) acc
      = fold (\<lambda>(k, v). omap_set k v) m (acc @ [p])"
    by (simp add: p omap_set_last)
  also have "\<dots> = acc @ p # m"
    using Cons.IH [of "acc @ [p]"] Cons.prems by simp
  finally show ?case .
qed simp

end
