(* ===== verification/Cpp_Sort.thy ===== *)
theory Cpp_Sort
  imports Prelude
begin

text \<open>
  \<^verbatim>\<open>std::sort\<close>.  The standard promises an ordered permutation and nothing about elements that
  compare equal, so the clients use only the laws of the locale \<open>unstable_sort\<close>; the executable
  function sorts by insertion.
\<close>

fun sort_insert :: "('a \<Rightarrow> 'a \<Rightarrow> bool) \<Rightarrow> 'a \<Rightarrow> 'a list \<Rightarrow> 'a list" where
  "sort_insert lt x [] = [x]"
| "sort_insert lt x (y # ys) = (if lt y x then y # sort_insert lt x ys else x # y # ys)"

definition std_sort :: "('a \<Rightarrow> 'a \<Rightarrow> bool) \<Rightarrow> 'a list \<Rightarrow> 'a list" where
  "std_sort lt xs = foldr (sort_insert lt) xs []"

text \<open>Strict weak orders, the precondition of \<^verbatim>\<open>std::sort\<close>.\<close>

definition strict_weak :: "('a \<Rightarrow> 'a \<Rightarrow> bool) \<Rightarrow> bool" where
  "strict_weak lt \<longleftrightarrow> (\<forall>a b. lt a b \<longrightarrow> \<not> lt b a) \<and> (\<forall>a b c. \<not> lt b a \<longrightarrow> \<not> lt c b \<longrightarrow> \<not> lt c a)"

lemma strict_weak_less: "strict_weak (\<lambda>a b. f a < (f b :: 'k::linorder))"
  by (auto simp: strict_weak_def)

lemma strict_weak_greater: "strict_weak (\<lambda>a b. f a > (f b :: 'k::linorder))"
  by (auto simp: strict_weak_def)

locale unstable_sort =
  fixes srt :: "('a \<Rightarrow> 'a \<Rightarrow> bool) \<Rightarrow> 'a list \<Rightarrow> 'a list"
  assumes srt_mset: "mset (srt lt xs) = mset xs"
    and srt_sorted: "strict_weak lt \<Longrightarrow> sorted_wrt (\<lambda>a b. \<not> lt b a) (srt lt xs)"
begin

lemma srt_set: "set (srt lt xs) = set xs"
  by (rule mset_eq_setD) (rule srt_mset)

lemma srt_length: "length (srt lt xs) = length xs"
  by (rule mset_eq_length) (rule srt_mset)

text \<open>A truncated sort keeps a best part: nothing left out precedes anything kept.\<close>

lemma srt_take_best:
  assumes "strict_weak lt" and "x \<in> set (take n (srt lt xs))" and "y \<in> set (drop n (srt lt xs))"
  shows "\<not> lt y x"
proof -
  have "sorted_wrt (\<lambda>a b. \<not> lt b a) (take n (srt lt xs) @ drop n (srt lt xs))"
    using srt_sorted [OF assms(1)] by simp
  then show ?thesis
    using assms(2,3) by (auto simp only: sorted_wrt_append)
qed

end

lemma mset_sort_insert: "mset (sort_insert lt x xs) = add_mset x (mset xs)"
  by (induction xs) auto

lemma sorted_sort_insert:
  assumes "strict_weak lt"
  shows "sorted_wrt (\<lambda>a b. \<not> lt b a) xs \<Longrightarrow> sorted_wrt (\<lambda>a b. \<not> lt b a) (sort_insert lt x xs)"
proof (induction xs)
  case (Cons y ys)
  have set: "set (sort_insert lt x ys) = insert x (set ys)"
    using mset_sort_insert [of lt x ys] by (metis set_mset_add_mset_insert set_mset_mset)
  show ?case
  proof (cases "lt y x")
    case True
    then have "\<not> lt x y" using assms unfolding strict_weak_def by blast
    with True Cons set show ?thesis by simp
  next
    case False
    have "\<not> lt b x" if "b \<in> set ys" for b
    proof -
      have "\<not> lt b y" using Cons.prems that by simp
      with False show ?thesis using assms unfolding strict_weak_def by blast
    qed
    with False Cons.prems show ?thesis by simp
  qed
qed simp

interpretation std: unstable_sort std_sort
proof unfold_locales
  fix lt :: "'a \<Rightarrow> 'a \<Rightarrow> bool" and xs
  show "mset (std_sort lt xs) = mset xs"
    unfolding std_sort_def by (induction xs) (simp_all add: mset_sort_insert)
  show "sorted_wrt (\<lambda>a b. \<not> lt b a) (std_sort lt xs)" if "strict_weak lt"
    unfolding std_sort_def by (induction xs) (simp_all add: sorted_sort_insert that)
qed

end
