(* ===== verification/Byte_Codec.thy ===== *)
theory Byte_Codec
  imports Prelude
begin

text \<open>
  Fixed-width integers as octets: the big-endian fields of the frame header, built by shifting
  and masking as the source does, and the little-endian image of a \<^verbatim>\<open>uint32_t\<close> that \<^verbatim>\<open>fwrite\<close>
  stores on the x86-64 targets of the build.  The locale \<open>fixed_width\<close> is what the frame and log
  formats rely on.
\<close>

unbundle bit_operations_syntax

section \<open>Big-endian fields\<close>

definition append_u16 :: "bytes \<Rightarrow> u16 \<Rightarrow> bytes" where
  "append_u16 bs v = bs @ [ucast (drop_bit 8 v AND 0xff)] @ [ucast (v AND 0xff)]"

definition append_u32 :: "bytes \<Rightarrow> u32 \<Rightarrow> bytes" where
  "append_u32 bs v =
     bs @ [ucast (drop_bit 24 v AND 0xff)] @ [ucast (drop_bit 16 v AND 0xff)]
        @ [ucast (drop_bit 8 v AND 0xff)] @ [ucast (v AND 0xff)]"

definition read_u16 :: "bytes \<Rightarrow> nat \<Rightarrow> u16" where
  "read_u16 bs offset = push_bit 8 (ucast (bs ! offset)) OR ucast (bs ! (offset + 1))"

definition read_u32 :: "bytes \<Rightarrow> nat \<Rightarrow> u32" where
  "read_u32 bs offset =
     push_bit 24 (ucast (bs ! offset)) OR push_bit 16 (ucast (bs ! (offset + 1))) OR
     push_bit 8 (ucast (bs ! (offset + 2))) OR ucast (bs ! (offset + 3))"

section \<open>The memory image of a 32-bit word\<close>

definition u32_image :: "u32 \<Rightarrow> bytes" where
  "u32_image v = [ucast v, ucast (drop_bit 8 v), ucast (drop_bit 16 v), ucast (drop_bit 24 v)]"

text \<open>
  Reading octets over a \<^verbatim>\<open>uint32_t\<close> that was initialised to zero; a short read fills the low octets
  only.
\<close>

fun u32_of_image :: "bytes \<Rightarrow> u32" where
  "u32_of_image [] = 0"
| "u32_of_image (b # bs) = ucast b OR push_bit 8 (u32_of_image bs)"

section \<open>The interface\<close>

locale fixed_width =
  fixes width :: nat
    and enc :: "'w \<Rightarrow> bytes"
    and dec :: "bytes \<Rightarrow> 'w"
  assumes enc_length: "length (enc w) = width"
    and dec_enc: "dec (enc w) = w"
    and enc_dec: "length bs = width \<Longrightarrow> enc (dec bs) = bs"
begin

lemma enc_inject: "enc v = enc w \<longleftrightarrow> v = w"
  by (metis dec_enc)

lemma enc_append_inject: "enc v @ xs = enc w @ ys \<longleftrightarrow> v = w \<and> xs = ys"
  by (metis append_eq_append_conv dec_enc enc_length)

lemma enc_ne: "0 < width \<Longrightarrow> enc w \<noteq> []"
  using enc_length [of w] by auto

text \<open>A field in the middle of a buffer.\<close>

lemma take_drop_enc: "length pre = k \<Longrightarrow> take width (drop k (pre @ enc w @ rest)) = enc w"
  by (simp add: enc_length)

lemma field_split:
  assumes "k + width \<le> length bs"
  shows "take k bs @ enc (dec (take width (drop k bs))) @ drop (k + width) bs = bs"
proof -
  have "enc (dec (take width (drop k bs))) = take width (drop k bs)"
    using assms by (intro enc_dec) simp
  moreover have "drop (k + width) bs = drop width (drop k bs)" by (simp add: add.commute)
  ultimately show ?thesis by (metis append_take_drop_id)
qed

end

lemma list_of_length_2: "length xs = 2 \<Longrightarrow> \<exists>a b. xs = [a, b]"
  by (auto simp: length_Suc_conv numeral_eq_Suc)

lemma list_of_length_4: "length xs = 4 \<Longrightarrow> \<exists>a b c d. xs = [a, b, c, d]"
  by (auto simp: length_Suc_conv numeral_eq_Suc)

lemma low_octet: "ucast (w AND 0xff) = (ucast w :: u8)" for w :: "'a::len word"
proof -
  have "(0xff :: 'a word) = mask 8" by (simp add: mask_eq_exp_minus_1)
  then show ?thesis
    unfolding \<open>(0xff :: 'a word) = mask 8\<close>
    by (auto simp: bit_simps dest: bit_imp_le_length intro!: bit_word_eqI)
qed

lemma not_bit_u8: "8 \<le> n \<Longrightarrow> \<not> bit (a :: u8) n"
  by (auto dest: bit_imp_le_length)

lemma u16_split: "push_bit 8 (ucast (ucast (drop_bit 8 v) :: u8)) OR ucast (ucast v :: u8) = (v :: u16)"
  by (rule bit_word_eqI) (auto simp: bit_simps not_less)

lemma u32_split:
  "push_bit 24 (ucast (ucast (drop_bit 24 v) :: u8)) OR push_bit 16 (ucast (ucast (drop_bit 16 v) :: u8))
     OR push_bit 8 (ucast (ucast (drop_bit 8 v) :: u8)) OR ucast (ucast v :: u8) = (v :: u32)"
  (is "?w = v")
proof (rule bit_word_eqI)
  fix n :: nat
  assume "n < LENGTH(32)"
  then consider "n < 8" | "8 \<le> n \<and> n < 16" | "16 \<le> n \<and> n < 24" | "24 \<le> n \<and> n < 32"
    by fastforce
  then show "bit ?w n = bit v n"
    by cases (auto simp: bit_simps)
qed

interpretation be16: fixed_width 2 "append_u16 []" "\<lambda>bs. read_u16 bs 0"
proof unfold_locales
  fix bs :: bytes
  assume "length bs = 2"
  then obtain a b where "bs = [a, b]" using list_of_length_2 by blast
  then show "append_u16 [] (read_u16 bs 0) = bs"
    by (auto simp: read_u16_def append_u16_def low_octet bit_simps not_bit_u8 intro!: bit_word_eqI)
qed (simp_all add: append_u16_def read_u16_def low_octet u16_split)

interpretation be32: fixed_width 4 "append_u32 []" "\<lambda>bs. read_u32 bs 0"
proof unfold_locales
  fix bs :: bytes
  assume "length bs = 4"
  then obtain a b c d where "bs = [a, b, c, d]" using list_of_length_4 by blast
  then show "append_u32 [] (read_u32 bs 0) = bs"
    by (auto simp: read_u32_def append_u32_def low_octet bit_simps not_bit_u8 intro!: bit_word_eqI)
qed (simp_all add: append_u32_def read_u32_def low_octet u32_split)

lemma u32_of_image_4:
  "u32_of_image [a, b, c, d] =
     push_bit 24 (ucast d) OR push_bit 16 (ucast c) OR push_bit 8 (ucast b) OR ucast a"
  by (rule bit_word_eqI) (auto simp: bit_simps)

interpretation le32: fixed_width 4 u32_image u32_of_image
proof unfold_locales
  fix bs :: bytes
  assume "length bs = 4"
  then obtain a b c d where "bs = [a, b, c, d]" using list_of_length_4 by blast
  then show "u32_image (u32_of_image bs) = bs"
    unfolding u32_image_def
    by (auto simp: u32_of_image_4 bit_simps not_bit_u8 simp del: u32_of_image.simps intro!: bit_word_eqI)
next
  show "u32_of_image (u32_image w) = w" for w
    unfolding u32_image_def u32_of_image_4 by (rule u32_split)
qed (simp add: u32_image_def)

text \<open>Fields after a prefix of the header.\<close>

lemma append_u16_prefix: "append_u16 bs v = bs @ append_u16 [] v"
  by (simp add: append_u16_def)

lemma append_u32_prefix: "append_u32 bs v = bs @ append_u32 [] v"
  by (simp add: append_u32_def)

lemma read_u16_drop: "k + 2 \<le> length bs \<Longrightarrow> read_u16 bs k = read_u16 (take 2 (drop k bs)) 0"
  by (simp add: read_u16_def)

lemma read_u32_drop: "k + 4 \<le> length bs \<Longrightarrow> read_u32 bs k = read_u32 (take 4 (drop k bs)) 0"
  by (simp add: read_u32_def add.commute)

end
