(* ===== verification/Beacon_Types.thy ===== *)
theory Beacon_Types
  imports String_Map
begin

text \<open>
  The data of \<^verbatim>\<open>src/src/beacon/types.hpp\<close> and \<^verbatim>\<open>src/src/beacon/config.hpp\<close>.  Fields that occur in more
  than one struct carry a prefix in all but \<^verbatim>\<open>AgentRecord\<close>, because field names of a theory are
  global.  Durations are milliseconds, as in the source; \<^const>\<open>milliseconds\<close> turns them into
  clock ticks.
\<close>

record AgentRecord =
  agent_id :: string
  node_id :: string
  endpoint :: string
  metadata :: "string omap"
  revision :: u64
  expires_at :: time_point
  public_key_hex :: string
  signature_hex :: string

text \<open>The member initialisers: everything empty, and the expiry is the instant of construction.\<close>

definition new_AgentRecord :: "time_point \<Rightarrow> AgentRecord" where
  "new_AgentRecord now =
     \<lparr>agent_id = [], node_id = [], endpoint = [], metadata = [], revision = 0, expires_at = now,
      public_key_hex = [], signature_hex = []\<rparr>"

record RegistryStats =
  active_agents :: nat
  highest_revision :: u64

record NodeConfig =
  cfg_node_id :: string
  listen_host :: string
  cfg_listen_port :: u16
  control_host :: string
  control_port :: u16

record GossipConfig =
  interval :: int
  fanout :: nat
  max_registry_items_per_round :: u64

record LifecycleConfig =
  heartbeat_ttl :: int
  purge_interval :: int

record TrustConfig =
  malformed_threshold :: u32
  rate_limit_per_minute :: u32
  require_signatures :: bool

record BeaconConfig =
  cfg_node :: NodeConfig
  cfg_gossip :: GossipConfig
  cfg_lifecycle :: LifecycleConfig
  cfg_trust :: TrustConfig

definition default_NodeConfig :: NodeConfig where
  "default_NodeConfig =
     \<lparr>cfg_node_id = ''dev-node'', listen_host = ''0.0.0.0'', cfg_listen_port = 43170,
      control_host = ''127.0.0.1'', control_port = 43171\<rparr>"

definition default_GossipConfig :: GossipConfig where
  "default_GossipConfig = \<lparr>interval = 2000, fanout = 3, max_registry_items_per_round = 256\<rparr>"

definition default_LifecycleConfig :: LifecycleConfig where
  "default_LifecycleConfig = \<lparr>heartbeat_ttl = 30000, purge_interval = 10000\<rparr>"

definition default_TrustConfig :: TrustConfig where
  "default_TrustConfig =
     \<lparr>malformed_threshold = 5, rate_limit_per_minute = 120, require_signatures = False\<rparr>"

definition default_config :: BeaconConfig where
  "default_config =
     \<lparr>cfg_node = default_NodeConfig, cfg_gossip = default_GossipConfig,
      cfg_lifecycle = default_LifecycleConfig, cfg_trust = default_TrustConfig\<rparr>"

lemmas default_config_defs =
  default_config_def default_NodeConfig_def default_GossipConfig_def
  default_LifecycleConfig_def default_TrustConfig_def

text \<open>The metadata of a record is a \<^verbatim>\<open>std::map\<close>.\<close>

definition record_wf :: "AgentRecord \<Rightarrow> bool" where
  "record_wf r \<longleftrightarrow> omap_wf (metadata r)"

lemma record_wf_new [simp]: "record_wf (new_AgentRecord now)"
  by (simp add: record_wf_def new_AgentRecord_def)

lemma record_wf_update [simp]:
  "record_wf (r\<lparr>agent_id := a\<rparr>) = record_wf r"
  "record_wf (r\<lparr>node_id := a\<rparr>) = record_wf r"
  "record_wf (r\<lparr>endpoint := a\<rparr>) = record_wf r"
  "record_wf (r\<lparr>revision := n\<rparr>) = record_wf r"
  "record_wf (r\<lparr>expires_at := t\<rparr>) = record_wf r"
  "record_wf (r\<lparr>public_key_hex := a\<rparr>) = record_wf r"
  "record_wf (r\<lparr>signature_hex := a\<rparr>) = record_wf r"
  by (simp_all add: record_wf_def)

text \<open>A record for concrete evaluations: an unsigned agent at a revision, expiring at an instant.\<close>

definition sample_record :: "string \<Rightarrow> u64 \<Rightarrow> time_point \<Rightarrow> AgentRecord" where
  "sample_record aid n t =
     \<lparr>agent_id = aid, node_id = ''node-1'', endpoint = ''127.0.0.1:9000'', metadata = [],
      revision = n, expires_at = t, public_key_hex = [], signature_hex = []\<rparr>"

end
