(* ===== verification/Secure_Buffer.thy ===== *)
theory Secure_Buffer
  imports Prelude
begin

text \<open>
  \<^verbatim>\<open>src/src/beacon_net/secure_buffer.hpp\<close> and the interface of libsodium that the sources use.
  libsodium is not part of the repository: its entry points are the fields of the record
  \<open>sodium\<close>, and a build without \<^verbatim>\<open>BEACONNODE_ENABLE_LIBSODIUM\<close> is the value \<^const>\<open>None\<close> of
  \<^verbatim>\<open>sodium option\<close>.
\<close>

unbundle bit_operations_syntax

record sodium =
  crypto_sign_PUBLICKEYBYTES :: nat
  crypto_sign_SECRETKEYBYTES :: nat
  crypto_sign_BYTES :: nat
  crypto_sign_verify_detached :: "bytes \<Rightarrow> bytes \<Rightarrow> bytes \<Rightarrow> int"
  crypto_sign_detached :: "bytes \<Rightarrow> bytes \<Rightarrow> bytes"
  crypto_sign_keypair :: "nat \<Rightarrow> bytes \<times> bytes"
  sodium_memcmp :: "bytes \<Rightarrow> bytes \<Rightarrow> nat \<Rightarrow> int"
  sodium_init :: int

text \<open>
  The documented behaviour of \<^verbatim>\<open>sodium_memcmp\<close>: zero exactly when the two regions of the given
  length agree.
\<close>

definition memcmp_ok :: "sodium option \<Rightarrow> bool" where
  "memcmp_ok lib \<longleftrightarrow>
     (case lib of None \<Rightarrow> True
      | Some so \<Rightarrow> \<forall>a b. length a = length b \<longrightarrow> (sodium_memcmp so a b (length a) = 0 \<longleftrightarrow> a = b))"

section \<open>Constant-time comparison\<close>

text \<open>
  The contents of a buffer; a buffer whose data pointer is null has size zero, so its contents
  are the empty list.  The loop accumulates \<^verbatim>\<open>diff |= data_[i] ^ other.data_[i]\<close>.
\<close>

fun diff_loop :: "bytes \<Rightarrow> bytes \<Rightarrow> u8 \<Rightarrow> u8" where
  "diff_loop (a # as) (b # bs) diff = diff_loop as bs (diff OR (a XOR b))"
| "diff_loop _ _ diff = diff"

definition constant_time_equals :: "sodium option \<Rightarrow> bytes \<Rightarrow> bytes \<Rightarrow> bool" where
  "constant_time_equals lib a b =
     (if length a \<noteq> length b then False
      else if a = [] \<or> b = [] then a = [] \<and> b = []
      else (case lib of
              Some so \<Rightarrow> sodium_memcmp so a b (length a) = 0
            | None \<Rightarrow> diff_loop a b 0 = 0))"


lemma xor_word_eq_0: "a XOR b = 0 \<longleftrightarrow> a = (b :: 'a::len word)"
  by (metis bit.xor_left_self bit.xor_self xor.right_neutral)

lemma diff_loop_zero:
  "length a = length b \<Longrightarrow> diff_loop a b d = 0 \<longleftrightarrow> d = 0 \<and> a = b"
proof (induction a b d rule: diff_loop.induct)
  case (1 a as b bs diff)
  then show ?case by (auto simp: or_eq_0_iff xor_word_eq_0)
qed auto

lemma constant_time_equals_iff:
  "memcmp_ok lib \<Longrightarrow> constant_time_equals lib a b \<longleftrightarrow> a = b"
  by (auto simp: constant_time_equals_def memcmp_ok_def diff_loop_zero split: option.splits)

end
