(* ===== verification/Crypto.thy ===== *)
theory Crypto
  imports Cpp_Text Beacon_Types Secure_Buffer
begin

text \<open>
  \<^verbatim>\<open>src/src/beacon/crypto.cpp\<close>: hexadecimal text, the canonical payloads that agents sign, and the
  verification of a record's Ed25519 signature.  libsodium is not part of the repository: its
  entry points are the fields of the record \<open>sodium\<close>, and a build without
  \<^verbatim>\<open>BEACONNODE_ENABLE_LIBSODIUM\<close> is the value \<^const>\<open>None\<close> of type \<^verbatim>\<open>sodium option\<close>.
\<close>

unbundle bit_operations_syntax

section \<open>Statuses and key pairs\<close>

datatype SignatureStatus = Valid | Missing | Invalid | Unsupported

record Ed25519Keypair =
  kp_public_key :: bytes
  kp_secret_key :: bytes

section \<open>Hexadecimal text\<close>

definition hex_value :: "char \<Rightarrow> int" where
  "hex_value c =
     (if c \<ge> CHR ''0'' \<and> c \<le> CHR ''9'' then int (of_char c) - int (of_char (CHR ''0''))
      else if c \<ge> CHR ''a'' \<and> c \<le> CHR ''f'' then 10 + int (of_char c) - int (of_char (CHR ''a''))
      else if c \<ge> CHR ''A'' \<and> c \<le> CHR ''F'' then 10 + int (of_char c) - int (of_char (CHR ''A''))
      else -1)"

text \<open>The loop of \<^verbatim>\<open>decode_hex\<close>, with the octets pushed so far.\<close>

fun decode_hex_loop :: "string \<Rightarrow> bytes \<Rightarrow> bytes" where
  "decode_hex_loop (h # l # rest) acc =
     (if hex_value h < 0 \<or> hex_value l < 0 then []
      else decode_hex_loop rest (acc @ [word_of_int (push_bit 4 (hex_value h) OR hex_value l)]))"
| "decode_hex_loop _ acc = acc"

definition decode_hex :: "string \<Rightarrow> bytes" where
  "decode_hex hex = (if length hex mod 2 \<noteq> 0 then [] else decode_hex_loop hex [])"

text \<open>\<^verbatim>\<open>std::setw(2) << std::setfill('0')\<close>: pad on the left.\<close>

definition setw_fill :: "nat \<Rightarrow> char \<Rightarrow> string \<Rightarrow> string" where
  "setw_fill w c s = replicate (w - length s) c @ s"

definition encode_hex :: "bytes \<Rightarrow> string" where
  "encode_hex bs = concat (map (\<lambda>b. setw_fill 2 (CHR ''0'') (to_base 16 (unat b))) bs)"

section \<open>Canonical payloads\<close>

definition nl :: string where
  "nl = [newline]"

definition metadata_field :: "string \<Rightarrow> string \<Rightarrow> string" where
  "metadata_field k v = ''metadata.'' @ k @ ''='' @ v"

definition canonical_agent_payload :: "AgentRecord \<Rightarrow> string" where
  "canonical_agent_payload r =
     ''agent_id='' @ agent_id r @ nl @
     ''node_id='' @ node_id r @ nl @
     ''endpoint='' @ endpoint r @ nl @
     ''revision='' @ to_string (unat (revision r)) @ nl @
     concat (map (\<lambda>(k, v). metadata_field k v @ nl) (metadata r))"

definition canonical_entry_payload :: "string \<Rightarrow> string \<Rightarrow> string \<Rightarrow> u64 \<Rightarrow> string" where
  "canonical_entry_payload aid capability ep timestamp =
     ''agent_id='' @ aid @ nl @
     ''capability='' @ capability @ nl @
     ''endpoint='' @ ep @ nl @
     ''timestamp='' @ to_string (unat timestamp) @ nl"

section \<open>Signatures\<close>

definition ensure_sodium_initialized :: "sodium option \<Rightarrow> bool" where
  "ensure_sodium_initialized lib =
     (case lib of None \<Rightarrow> True | Some so \<Rightarrow> if sodium_init so < 0 then False else True)"

definition verify_agent_signature :: "sodium option \<Rightarrow> AgentRecord \<Rightarrow> SignatureStatus" where
  "verify_agent_signature lib r =
     (if public_key_hex r = [] \<or> signature_hex r = [] then Missing
      else
        let public_key = decode_hex (public_key_hex r);
            signature = decode_hex (signature_hex r)
        in if public_key = [] \<or> signature = [] then Invalid
           else
             (case lib of
                None \<Rightarrow> Unsupported
              | Some so \<Rightarrow>
                  if length public_key \<noteq> crypto_sign_PUBLICKEYBYTES so \<or>
                     length signature \<noteq> crypto_sign_BYTES so then Invalid
                  else if crypto_sign_verify_detached so signature
                            (bytes_of_string (canonical_agent_payload r)) public_key = 0
                  then Valid else Invalid))"

definition signature_status_message :: "SignatureStatus \<Rightarrow> string" where
  "signature_status_message st =
     (case st of
        Valid \<Rightarrow> ''valid''
      | Missing \<Rightarrow> ''missing_signature''
      | Invalid \<Rightarrow> ''invalid_signature''
      | Unsupported \<Rightarrow> ''signature_verification_unsupported'')"

text \<open>The argument \<^verbatim>\<open>seed\<close> stands for the random octets \<^verbatim>\<open>crypto_sign_keypair\<close> draws.\<close>

definition generate_ed25519_keypair :: "sodium option \<Rightarrow> nat \<Rightarrow> Ed25519Keypair" where
  "generate_ed25519_keypair lib seed =
     (case lib of
        None \<Rightarrow> \<lparr>kp_public_key = [], kp_secret_key = []\<rparr>
      | Some so \<Rightarrow>
          (let (pk, sk) = crypto_sign_keypair so seed
           in \<lparr>kp_public_key = pk, kp_secret_key = sk\<rparr>))"

definition sign_ed25519 :: "sodium option \<Rightarrow> bytes \<Rightarrow> bytes \<Rightarrow> bytes" where
  "sign_ed25519 lib payload private_key =
     (case lib of
        None \<Rightarrow> []
      | Some so \<Rightarrow>
          if length private_key \<noteq> crypto_sign_SECRETKEYBYTES so then []
          else crypto_sign_detached so payload private_key)"

definition verify_ed25519 :: "sodium option \<Rightarrow> bytes \<Rightarrow> bytes \<Rightarrow> bytes \<Rightarrow> bool" where
  "verify_ed25519 lib payload signature public_key =
     (case lib of
        None \<Rightarrow> False
      | Some so \<Rightarrow>
          if length public_key \<noteq> crypto_sign_PUBLICKEYBYTES so \<or>
             length signature \<noteq> crypto_sign_BYTES so then False
          else crypto_sign_verify_detached so signature payload public_key = 0)"

section \<open>Hexadecimal round trips\<close>

lemma hex_value_digit_char: "d < 16 \<Longrightarrow> hex_value (digit_char d) = int d"
  by (cases "d < 10") (auto simp: digit_char_def hex_value_def less_eq_char_def)

lemma hex_value_range: "hex_value c = -1 \<or> 0 \<le> hex_value c \<and> hex_value c < 16"
  by (auto simp: hex_value_def less_eq_char_def)

lemma nibbles_or: "0 \<le> l \<Longrightarrow> l < 16 \<Longrightarrow> push_bit 4 h OR l = 16 * h + (l :: int)"
proof -
  assume l: "0 \<le> l" "l < 16"
  have "take_bit 4 l = l" using l by (simp add: take_bit_int_eq_self)
  moreover have "take_bit 4 l OR push_bit 4 h = take_bit 4 l + push_bit 4 h"
    using concat_bit_eq [of 4 l h] by (simp add: concat_bit_def)
  ultimately show ?thesis by (simp add: or.commute push_bit_eq_mult)
qed

lemma digit_char_0: "digit_char 0 = CHR ''0''"
  by code_simp

lemma hex_octet: "n < 256 \<Longrightarrow>
  setw_fill 2 (CHR ''0'') (to_base 16 n) = [digit_char (n div 16), digit_char (n mod 16)]"
proof (cases "n < 16")
  case True
  then show ?thesis
    by (simp add: to_base.simps [of 16 n] setw_fill_def digit_char_0)
next
  case False
  assume "n < 256"
  then have "n div 16 < 16" by simp
  with False show ?thesis
    by (simp add: to_base.simps [of 16 n] to_base.simps [of 16 "n div 16"] setw_fill_def)
qed

lemma unat_u8_less: "unat (b :: u8) < 256"
  using unsigned_less [of b] by simp

lemma decode_hex_loop_encode: "decode_hex_loop (encode_hex bs) acc = acc @ bs"
proof (induction bs arbitrary: acc)
  case Nil
  then show ?case by (simp add: encode_hex_def)
next
  case (Cons b bs)
  have q: "unat b div 16 < 16" using unat_u8_less [of b] by simp
  have "word_of_int (push_bit 4 (int (unat b div 16)) OR int (unat b mod 16)) = b"
    by (subst nibbles_or) (simp_all add: zdiv_int zmod_int)
  then show ?case
    using Cons q
    by (simp add: encode_hex_def hex_octet unat_u8_less hex_value_digit_char)
qed

lemma length_encode_hex [simp]: "length (encode_hex bs) = 2 * length bs"
  by (induction bs) (simp_all add: encode_hex_def hex_octet unat_u8_less)

lemma decode_encode_hex [codec_simps]: "decode_hex (encode_hex bs) = bs"
  by (simp add: decode_hex_def decode_hex_loop_encode)

lemma encode_hex_Nil_iff [simp]: "encode_hex bs = [] \<longleftrightarrow> bs = []"
  by (metis decode_encode_hex decode_hex_def decode_hex_loop.simps(2) length_encode_hex
      length_0_conv mult_0_right)

lemma digit_char_not_space: "d < 16 \<Longrightarrow> \<not> is_space (digit_char d)"
proof -
  assume "d < 16"
  then have "(of_char (digit_char d) :: nat) \<ge> 48" by (simp add: of_char_digit_char)
  moreover have "is_space c \<Longrightarrow> (of_char c :: nat) \<le> 32" for c by (auto simp: is_space_def)
  ultimately show ?thesis by fastforce
qed

lemma no_space_encode_hex [token_simps]: "no_space (encode_hex bs)"
proof (induction bs)
  case (Cons b bs)
  have "unat b div 16 < 16" using unat_u8_less [of b] by simp
  with Cons show ?case
    by (simp add: encode_hex_def token_simps hex_octet unat_u8_less digit_char_not_space)
qed (simp add: encode_hex_def token_simps)

text \<open>What \<^verbatim>\<open>decode_hex\<close> accepts: an even number of hexadecimal digits, of either case.\<close>

definition hex_text :: "string \<Rightarrow> bool" where
  "hex_text s \<longleftrightarrow> even (length s) \<and> (\<forall>c\<in>set s. 0 \<le> hex_value c)"

lemma decode_hex_loop_length:
  "\<lbrakk>even (length s); \<forall>c\<in>set s. 0 \<le> hex_value c\<rbrakk> \<Longrightarrow>
   length (decode_hex_loop s acc) = length acc + length s div 2"
  by (induction s acc rule: decode_hex_loop.induct) auto

lemma decode_hex_loop_bad:
  "\<lbrakk>even (length s); \<not> (\<forall>c\<in>set s. 0 \<le> hex_value c)\<rbrakk> \<Longrightarrow> decode_hex_loop s acc = []"
  by (induction s acc rule: decode_hex_loop.induct) auto

lemma length_decode_hex: "length (decode_hex s) = (if hex_text s then length s div 2 else 0)"
  by (auto simp: decode_hex_def hex_text_def decode_hex_loop_length decode_hex_loop_bad
      even_iff_mod_2_eq_zero)

lemma decode_hex_Nil_iff: "decode_hex s = [] \<longleftrightarrow> s = [] \<or> \<not> hex_text s"
proof -
  have "decode_hex s = [] \<longleftrightarrow> length (decode_hex s) = 0" by simp
  also have "\<dots> \<longleftrightarrow> s = [] \<or> \<not> hex_text s"
    by (auto simp: length_decode_hex hex_text_def elim!: evenE)
  finally show ?thesis .
qed

section \<open>What a signature commits to\<close>

text \<open>Text that keeps to one line of the payload, and metadata whose keys end at the first \<^verbatim>\<open>=\<close>.\<close>

definition one_line :: "string \<Rightarrow> bool" where
  "one_line s \<longleftrightarrow> newline \<notin> set s"

definition payload_safe :: "AgentRecord \<Rightarrow> bool" where
  "payload_safe r \<longleftrightarrow>
     one_line (agent_id r) \<and> one_line (node_id r) \<and> one_line (endpoint r) \<and>
     list_all (\<lambda>(k, v). one_line k \<and> one_line v \<and> CHR ''='' \<notin> set k) (metadata r)"

text \<open>The fields a signature covers.\<close>

definition signed_fields ::
  "AgentRecord \<Rightarrow> string \<times> string \<times> string \<times> u64 \<times> string omap" where
  "signed_fields r = (agent_id r, node_id r, endpoint r, revision r, metadata r)"

definition payload_lines :: "AgentRecord \<Rightarrow> string list" where
  "payload_lines r =
     [''agent_id='' @ agent_id r, ''node_id='' @ node_id r, ''endpoint='' @ endpoint r,
      ''revision='' @ to_string (unat (revision r))] @
     map (\<lambda>(k, v). metadata_field k v) (metadata r)"

lemma canonical_agent_payload_lines:
  "canonical_agent_payload r = concat (map (\<lambda>l. l @ nl) (payload_lines r))"
  by (simp add: canonical_agent_payload_def payload_lines_def comp_def case_prod_unfold)

lemma stream_lines_concat [token_simps]:
  "list_all one_line ls \<Longrightarrow> stream_lines (concat (map (\<lambda>l. l @ nl) ls)) = ls"
  by (induction ls) (simp_all add: stream_lines_Nil nl_def stream_lines_Cons one_line_def)

lemma one_line_simps [simp]:
  "one_line []"
  "one_line (c # s) \<longleftrightarrow> c \<noteq> newline \<and> one_line s"
  "one_line (s @ t) \<longleftrightarrow> one_line s \<and> one_line t"
  by (auto simp: one_line_def)

lemma one_line_to_string [simp]: "one_line (to_string n)"
  using no_space_to_string no_space_no_newline by (simp add: one_line_def)

lemma payload_lines_one_line: "payload_safe r \<Longrightarrow> list_all one_line (payload_lines r)"
  by (auto simp: payload_safe_def payload_lines_def newline_def list_all_iff metadata_field_def)

lemma to_string_inject: "to_string m = to_string n \<longleftrightarrow> m = n"
  by (metis digits_value_to_string)

lemma metadata_field_inject:
  assumes "metadata_field k v = metadata_field k' v'"
    and "CHR ''='' \<notin> set k" and "CHR ''='' \<notin> set k'"
  shows "k = k' \<and> v = v'"
proof -
  have "k @ CHR ''='' # v = k' @ CHR ''='' # v'"
    using assms(1) by (simp add: metadata_field_def)
  moreover from this have "v = v'"
    using assms(2,3) by (metis after_equals_append)
  ultimately show ?thesis by simp
qed

lemma to_string_unat_inject [simp]: "to_string (unat a) = to_string (unat b) \<longleftrightarrow> a = (b :: u64)"
  by (metis from_chars_to_string fst_conv)

lemma metadata_lines_inject:
  assumes "list_all (\<lambda>(k, v). CHR ''='' \<notin> set k) m"
    and "list_all (\<lambda>(k, v). CHR ''='' \<notin> set k) m'"
    and "map (\<lambda>(k, v). metadata_field k v) m
       = map (\<lambda>(k, v). metadata_field k v) m'"
  shows "m = m'"
proof (rule map_inj_on [OF assms(3)])
  show "inj_on (\<lambda>(k, v). metadata_field k v) (set m \<union> set m')"
    using assms(1,2) by (auto simp: inj_on_def list_all_iff dest: metadata_field_inject)
qed

lemma canonical_payload_inject:
  assumes "payload_safe r" and "payload_safe r'"
    and "canonical_agent_payload r = canonical_agent_payload r'"
  shows "signed_fields r = signed_fields r'"
proof -
  have "stream_lines (canonical_agent_payload r) = payload_lines r"
    and "stream_lines (canonical_agent_payload r') = payload_lines r'"
    using assms(1,2)
    by (simp_all only: canonical_agent_payload_lines stream_lines_concat payload_lines_one_line)
  then have "payload_lines r = payload_lines r'" using assms(3) by simp
  then have f: "agent_id r = agent_id r'" "node_id r = node_id r'" "endpoint r = endpoint r'"
      "revision r = revision r'"
    and m: "map (\<lambda>(k, v). metadata_field k v) (metadata r)
          = map (\<lambda>(k, v). metadata_field k v) (metadata r')"
    by (simp_all add: payload_lines_def)
  have "metadata r = metadata r'"
    using assms(1,2) m by (intro metadata_lines_inject) (auto simp: payload_safe_def list_all_iff)
  with f show ?thesis by (simp add: signed_fields_def)
qed

section \<open>Outcomes of signature verification\<close>

lemma verify_agent_signature_Missing:
  "verify_agent_signature lib r = Missing \<longleftrightarrow> public_key_hex r = [] \<or> signature_hex r = []"
  by (auto simp: verify_agent_signature_def Let_def split: option.splits)

lemma verify_agent_signature_no_sodium:
  "verify_agent_signature None r \<noteq> Valid"
  by (simp add: verify_agent_signature_def Let_def)

lemma verify_agent_signature_Valid_iff:
  "verify_agent_signature lib r = Valid \<longleftrightarrow>
     (\<exists>so. lib = Some so \<and> public_key_hex r \<noteq> [] \<and> signature_hex r \<noteq> [] \<and>
        decode_hex (public_key_hex r) \<noteq> [] \<and> decode_hex (signature_hex r) \<noteq> [] \<and>
        length (decode_hex (public_key_hex r)) = crypto_sign_PUBLICKEYBYTES so \<and>
        length (decode_hex (signature_hex r)) = crypto_sign_BYTES so \<and>
        crypto_sign_verify_detached so (decode_hex (signature_hex r))
          (bytes_of_string (canonical_agent_payload r)) (decode_hex (public_key_hex r)) = 0)"
  by (auto simp: verify_agent_signature_def Let_def split: option.splits)

section \<open>A library for concrete evaluations\<close>

text \<open>
  An instance of the interface with the documented sizes: a signature is the signer's public key
  followed by one octet per message length class, and the secret key is the public key twice.
\<close>

definition sample_sodium :: sodium where
  "sample_sodium =
     \<lparr>crypto_sign_PUBLICKEYBYTES = 32, crypto_sign_SECRETKEYBYTES = 64, crypto_sign_BYTES = 64,
      crypto_sign_verify_detached =
        (\<lambda>sig msg pk. if sig = pk @ replicate 32 (word_of_nat (length msg)) then 0 else -1),
      crypto_sign_detached = (\<lambda>msg sk. take 32 sk @ replicate 32 (word_of_nat (length msg))),
      crypto_sign_keypair = (\<lambda>seed. (replicate 32 (word_of_nat seed), replicate 64 (word_of_nat seed))),
      sodium_memcmp = (\<lambda>a b n. if take n a = take n b then 0 else -1),
      sodium_init = 0\<rparr>"

lemma memcmp_ok_sample: "memcmp_ok (Some sample_sodium)"
  by (simp add: memcmp_ok_def sample_sodium_def)

lemma memcmp_ok_None [simp]: "memcmp_ok None"
  by (simp add: memcmp_ok_def)

text \<open>Signing a record with a key pair of that library.\<close>

definition sample_sign :: "nat \<Rightarrow> AgentRecord \<Rightarrow> AgentRecord" where
  "sample_sign seed r =
     r\<lparr>public_key_hex := encode_hex (replicate 32 (word_of_nat seed)),
       signature_hex := encode_hex (replicate 32 (word_of_nat seed) @
          replicate 32 (word_of_nat (length (canonical_agent_payload r))))\<rparr>"

lemma canonical_agent_payload_cong:
  "signed_fields r = signed_fields r' \<Longrightarrow> canonical_agent_payload r = canonical_agent_payload r'"
  by (simp add: signed_fields_def canonical_agent_payload_def)

lemma verify_sample_sign: "verify_agent_signature (Some sample_sodium) (sample_sign seed r) = Valid"
proof -
  have "canonical_agent_payload (sample_sign seed r) = canonical_agent_payload r"
    by (rule canonical_agent_payload_cong) (simp add: signed_fields_def sample_sign_def)
  then show ?thesis
    by (simp add: verify_agent_signature_Valid_iff sample_sign_def decode_encode_hex sample_sodium_def)
qed

section \<open>Properties\<close>

text \<open>
  Property C27: what a signature covers.  Two records without line breaks in their fields and without
  an equals sign in their metadata keys that have the same signed text agree in agent, node,
  endpoint, revision and all metadata.
\<close>

theorem signed_text_determines_record:
  assumes "payload_safe r" and "payload_safe r'"
  shows "canonical_agent_payload r = canonical_agent_payload r' \<longleftrightarrow> signed_fields r = signed_fields r'"
  using canonical_payload_inject [OF assms] canonical_agent_payload_cong by blast

text \<open>
  Two metadata entries and one entry whose value has swallowed the second are signed
  alike: a signature on the former record is valid for the latter.
\<close>

theorem merged_metadata_same_signature:
  "verify_agent_signature lib (r\<lparr>metadata := [(k1, v1), (k2, v2)]\<rparr>) =
   verify_agent_signature lib (r\<lparr>metadata := [(k1, v1 @ nl @ metadata_field k2 v2)]\<rparr>)"
proof -
  have "canonical_agent_payload (r\<lparr>metadata := [(k1, v1), (k2, v2)]\<rparr>) =
      canonical_agent_payload (r\<lparr>metadata := [(k1, v1 @ nl @ metadata_field k2 v2)]\<rparr>)"
    by (simp add: canonical_agent_payload_def metadata_field_def)
  then show ?thesis by (simp add: verify_agent_signature_def Let_def split: option.split)
qed

theorem signed_text_determines_record_witness:
  "canonical_agent_payload (new_AgentRecord 0) \<noteq> canonical_agent_payload ((new_AgentRecord 0)\<lparr>revision := 1\<rparr>)"
  using signed_text_determines_record [of "new_AgentRecord 0" "(new_AgentRecord 0)\<lparr>revision := 1\<rparr>"]
  by (simp add: payload_safe_def new_AgentRecord_def signed_fields_def)

end
