(* ===== verification/Secure_Heap.thy ===== *)
theory Secure_Heap
  imports Crypto "HOL-Library.Monad_Syntax"
begin

text \<open>
  \<^verbatim>\<open>src/src/beacon_net/secure_buffer.hpp\<close> with its pointers: \<^verbatim>\<open>SecureBuffer\<close> objects that own a block of
  the heap, and \<^verbatim>\<open>SecureAllocator\<close>.  The heap keeps the contents of every block that is allocated
  and, of every block that was freed, the contents it had at that moment: what another owner of the
  memory would find there.  Reading, writing or freeing outside a block is undefined behaviour in
  C++; here it is the value \<^const>\<open>None\<close>.  The allocator and \<^verbatim>\<open>mlock\<close> belong to the system: they are
  the fields of \<open>memory\<close>, together with the build option for libsodium.
\<close>

section \<open>Blocks\<close>

type_synonym ptr = nat

record heap =
  heap_blocks :: "ptr \<Rightarrow> bytes option"
  heap_locked :: "ptr set"
  heap_released :: "bytes list"

record memory =
  with_sodium :: bool
  mem_alloc :: "nat \<Rightarrow> heap \<Rightarrow> (ptr \<times> bytes) option"
  mlock_ok :: "ptr \<Rightarrow> bool"

text \<open>What is relied on: a new block has the requested size and an address that is not in use.\<close>

definition allocator_ok :: "memory \<Rightarrow> bool" where
  "allocator_ok m \<longleftrightarrow>
     (\<forall>n h p bs. mem_alloc m n h = Some (p, bs) \<longrightarrow> heap_blocks h p = None \<and> length bs = n)"

definition mem_lock :: "memory \<Rightarrow> ptr \<Rightarrow> heap \<Rightarrow> heap" where
  "mem_lock m p h =
     (if with_sodium m \<and> mlock_ok m p then h\<lparr>heap_locked := insert p (heap_locked h)\<rparr> else h)"

definition mem_unlock :: "memory \<Rightarrow> ptr \<Rightarrow> heap \<Rightarrow> heap" where
  "mem_unlock m p h =
     (if with_sodium m then h\<lparr>heap_locked := heap_locked h - {p}\<rparr> else h)"

text \<open>The loop \<^verbatim>\<open>for (i = 0; i < n; ++i) p[i] = 0\<close>, which is also what \<^verbatim>\<open>sodium_memzero\<close> does.\<close>

definition zero_loop :: "nat \<Rightarrow> bytes \<Rightarrow> bytes" where
  "zero_loop n bs = fold (\<lambda>i bs. bs[i := 0]) [0..<n] bs"

definition mem_zero :: "ptr \<Rightarrow> nat \<Rightarrow> heap \<Rightarrow> heap option" where
  "mem_zero p n h =
     (case heap_blocks h p of
        None \<Rightarrow> None
      | Some bs \<Rightarrow>
          if n \<le> length bs then Some (h\<lparr>heap_blocks := (heap_blocks h)(p \<mapsto> zero_loop n bs)\<rparr>) else None)"

definition mem_copy :: "ptr \<Rightarrow> ptr \<Rightarrow> nat \<Rightarrow> heap \<Rightarrow> heap option" where
  "mem_copy dst src n h =
     (case (heap_blocks h dst, heap_blocks h src) of
        (Some ds, Some ss) \<Rightarrow>
          if n \<le> length ds \<and> n \<le> length ss
          then Some (h\<lparr>heap_blocks := (heap_blocks h)(dst \<mapsto> take n ss @ drop n ds)\<rparr>) else None
      | _ \<Rightarrow> None)"

text \<open>\<^verbatim>\<open>free\<close>, and \<^verbatim>\<open>sodium_free\<close>, which also unlocks.\<close>

definition mem_free :: "memory \<Rightarrow> ptr \<Rightarrow> heap \<Rightarrow> heap option" where
  "mem_free m p h =
     (case heap_blocks h p of
        None \<Rightarrow> None
      | Some bs \<Rightarrow>
          Some ((mem_unlock m p h)\<lparr>heap_blocks := (heap_blocks h)(p := None), heap_released := bs # heap_released h\<rparr>))"

section \<open>SecureBuffer\<close>

record SecureBuffer =
  sb_data :: "ptr option"
  sb_size :: nat

definition empty_SecureBuffer :: SecureBuffer where
  "empty_SecureBuffer = \<lparr>sb_data = None, sb_size = 0\<rparr>"

text \<open>
  \<^verbatim>\<open>alloc\<close>: the flag is False when \<^verbatim>\<open>std::bad_alloc\<close> is thrown, after the data pointer was overwritten.
\<close>

definition alloc :: "memory \<Rightarrow> nat \<Rightarrow> SecureBuffer \<Rightarrow> heap \<Rightarrow> bool \<times> SecureBuffer \<times> heap" where
  "alloc m n buf h =
     (case mem_alloc m n h of
        None \<Rightarrow> (False, buf\<lparr>sb_data := None\<rparr>, h)
      | Some (p, bs) \<Rightarrow>
          (True, \<lparr>sb_data = Some p, sb_size = n\<rparr>,
           mem_lock m p (h\<lparr>heap_blocks := (heap_blocks h)(p \<mapsto> bs)\<rparr>)))"

definition new_SecureBuffer :: "memory \<Rightarrow> nat \<Rightarrow> heap \<Rightarrow> bool \<times> SecureBuffer \<times> heap" where
  "new_SecureBuffer m n h = (if n > 0 then alloc m n empty_SecureBuffer h else (True, empty_SecureBuffer, h))"

definition wipe_and_free :: "memory \<Rightarrow> SecureBuffer \<Rightarrow> heap \<Rightarrow> heap option" where
  "wipe_and_free m buf h =
     (case sb_data buf of
        None \<Rightarrow> Some h
      | Some p \<Rightarrow> do {
          h1 \<leftarrow> mem_zero p (sb_size buf) (mem_unlock m p h);
          mem_free m p h1
        })"

definition clear_SecureBuffer :: "memory \<Rightarrow> SecureBuffer \<Rightarrow> heap \<Rightarrow> (SecureBuffer \<times> heap) option" where
  "clear_SecureBuffer m buf h = do { h1 \<leftarrow> wipe_and_free m buf h; Some (empty_SecureBuffer, h1) }"

text \<open>The move constructor: the new object and what is left of the other.\<close>

definition move_construct :: "SecureBuffer \<Rightarrow> SecureBuffer \<times> SecureBuffer" where
  "move_construct other = (\<lparr>sb_data = sb_data other, sb_size = sb_size other\<rparr>, empty_SecureBuffer)"

text \<open>Move assignment between two distinct objects.\<close>

definition move_assign ::
  "memory \<Rightarrow> SecureBuffer \<Rightarrow> SecureBuffer \<Rightarrow> heap \<Rightarrow> (SecureBuffer \<times> SecureBuffer \<times> heap) option" where
  "move_assign m this other h = do {
     h1 \<leftarrow> wipe_and_free m this h;
     Some (this\<lparr>sb_data := sb_data other, sb_size := sb_size other\<rparr>, empty_SecureBuffer, h1)
   }"

definition resize :: "memory \<Rightarrow> nat \<Rightarrow> SecureBuffer \<Rightarrow> heap \<Rightarrow> (bool \<times> SecureBuffer \<times> heap) option" where
  "resize m n buf h =
     (if n = sb_size buf \<or> n = 0 then
        (if n = 0 then do { (b, h1) \<leftarrow> clear_SecureBuffer m buf h; Some (True, b, h1) }
         else Some (True, buf, h))
      else
        (let old = sb_data buf; old_size = sb_size buf;
             (ok, buf1, h1) = alloc m n buf h
         in if \<not> ok then Some (False, buf1, h1)
            else do {
              h2 \<leftarrow> (case (old, sb_data buf1) of
                       (Some q, Some p) \<Rightarrow> mem_copy p q (if old_size < n then old_size else n) h1
                     | _ \<Rightarrow> Some h1);
              h3 \<leftarrow> (case old of
                       None \<Rightarrow> Some h2
                     | Some q \<Rightarrow> do { h' \<leftarrow> mem_zero q old_size h2; mem_free m q h' });
              Some (True, buf1, h3)
            }))"

text \<open>\<^verbatim>\<open>operator[]\<close>, read and written through.\<close>

definition get_octet :: "SecureBuffer \<Rightarrow> nat \<Rightarrow> heap \<Rightarrow> u8 option" where
  "get_octet buf i h = do {
     p \<leftarrow> sb_data buf; bs \<leftarrow> heap_blocks h p;
     if i < length bs then Some (bs ! i) else None
   }"

definition put_octet :: "SecureBuffer \<Rightarrow> nat \<Rightarrow> u8 \<Rightarrow> heap \<Rightarrow> heap option" where
  "put_octet buf i x h = do {
     p \<leftarrow> sb_data buf; bs \<leftarrow> heap_blocks h p;
     if i < length bs then Some (h\<lparr>heap_blocks := (heap_blocks h)(p \<mapsto> bs[i := x])\<rparr>) else None
   }"

text \<open>\<^verbatim>\<open>empty\<close>, \<^verbatim>\<open>operator bool\<close>, and the octets between \<^verbatim>\<open>begin\<close> and \<^verbatim>\<open>end\<close> (none when there is no block).\<close>

definition buffer_empty :: "SecureBuffer \<Rightarrow> bool" where
  "buffer_empty buf \<longleftrightarrow> sb_size buf = 0"

definition buffer_valid :: "SecureBuffer \<Rightarrow> bool" where
  "buffer_valid buf \<longleftrightarrow> sb_data buf \<noteq> None"

definition buffer_range :: "SecureBuffer \<Rightarrow> heap \<Rightarrow> bytes option" where
  "buffer_range buf h =
     (case sb_data buf of
        None \<Rightarrow> Some []
      | Some p \<Rightarrow> do {
          bs \<leftarrow> heap_blocks h p;
          if sb_size buf \<le> length bs then Some (take (sb_size buf) bs) else None
        })"

text \<open>\<^verbatim>\<open>encode_hex\<close> of a buffer reads \<^verbatim>\<open>size()\<close> octets from \<^verbatim>\<open>data()\<close>, also when that is null.\<close>

definition encode_hex_buffer :: "SecureBuffer \<Rightarrow> heap \<Rightarrow> string option" where
  "encode_hex_buffer buf h =
     (case sb_data buf of
        None \<Rightarrow> if sb_size buf = 0 then Some (encode_hex []) else None
      | Some p \<Rightarrow> do { bs \<leftarrow> buffer_range buf h; Some (encode_hex bs) })"

text \<open>The comparison with its tests on the pointers.\<close>

definition buffer_equals :: "sodium option \<Rightarrow> heap \<Rightarrow> SecureBuffer \<Rightarrow> SecureBuffer \<Rightarrow> bool option" where
  "buffer_equals lib h this other =
     (if sb_size this \<noteq> sb_size other then Some False
      else case (sb_data this, sb_data other) of
        (Some p, Some q) \<Rightarrow> do {
          a \<leftarrow> heap_blocks h p; b \<leftarrow> heap_blocks h q;
          if length a < sb_size this \<or> length b < sb_size this then None
          else Some (case lib of
                 Some so \<Rightarrow> sodium_memcmp so a b (sb_size this) = 0
               | None \<Rightarrow> diff_loop (take (sb_size this) a) (take (sb_size this) b) 0 = 0)
        }
      | (x, y) \<Rightarrow> Some (x = y))"

section \<open>SecureAllocator\<close>

text \<open>Sizes are \<^verbatim>\<open>std::size_t\<close>, so \<^verbatim>\<open>n * sizeof(T)\<close> wraps around.  A null result is not an exception.\<close>

definition allocate :: "memory \<Rightarrow> u64 \<Rightarrow> u64 \<Rightarrow> heap \<Rightarrow> ptr option \<times> heap" where
  "allocate m sizeof n h =
     (case mem_alloc m (unat (n * sizeof)) h of
        None \<Rightarrow> (None, h)
      | Some (p, bs) \<Rightarrow> (Some p, mem_lock m p (h\<lparr>heap_blocks := (heap_blocks h)(p \<mapsto> bs)\<rparr>)))"

definition deallocate :: "memory \<Rightarrow> u64 \<Rightarrow> ptr option \<Rightarrow> u64 \<Rightarrow> heap \<Rightarrow> heap option" where
  "deallocate m sizeof po n h =
     (case po of
        None \<Rightarrow> Some h
      | Some p \<Rightarrow> do {
          h1 \<leftarrow> mem_zero p (unat (n * sizeof)) h;
          mem_free m p (mem_unlock m p h1)
        })"

section \<open>Programs that use buffers\<close>

text \<open>
  Objects have numbers; an operation that names an object that does not exist is no program.  An
  element is accessed below \<^verbatim>\<open>size()\<close>, which is all that a program can ask of \<^verbatim>\<open>operator[]\<close>.
\<close>

datatype buffer_op =
    Construct nat nat | Move_construct nat nat | Move_assign nat nat | Resize nat nat
  | Clear nat | Put nat nat u8 | Destroy nat

type_synonym buffers = "(nat \<Rightarrow> SecureBuffer option) \<times> heap"

fun op_valid :: "buffer_op \<Rightarrow> buffers \<Rightarrow> bool" where
  "op_valid (Construct i n) (objs, h) \<longleftrightarrow> objs i = None"
| "op_valid (Move_construct i j) (objs, h) \<longleftrightarrow> objs i = None \<and> objs j \<noteq> None"
| "op_valid (Move_assign i j) (objs, h) \<longleftrightarrow> objs i \<noteq> None \<and> objs j \<noteq> None"
| "op_valid (Put i k x) (objs, h) \<longleftrightarrow>
     (case objs i of None \<Rightarrow> False | Some b \<Rightarrow> k < sb_size b)"
| "op_valid (Resize i n) (objs, h) \<longleftrightarrow> objs i \<noteq> None"
| "op_valid (Clear i) (objs, h) \<longleftrightarrow> objs i \<noteq> None"
| "op_valid (Destroy i) (objs, h) \<longleftrightarrow> objs i \<noteq> None"

text \<open>A constructor that throws leaves no object; \<^verbatim>\<open>resize\<close> that throws leaves the object as it is then.\<close>

fun run_op :: "memory \<Rightarrow> buffer_op \<Rightarrow> buffers \<Rightarrow> buffers option" where
  "run_op m (Construct i n) (objs, h) =
     (let (ok, b, h1) = new_SecureBuffer m n h in Some (if ok then objs(i \<mapsto> b) else objs, h1))"
| "run_op m (Move_construct i j) (objs, h) = do {
     other \<leftarrow> objs j;
     let (b, other1) = move_construct other;
     Some (objs(i \<mapsto> b, j \<mapsto> other1), h)
   }"
| "run_op m (Move_assign i j) (objs, h) = do {
     this \<leftarrow> objs i; other \<leftarrow> objs j;
     if i = j then Some (objs, h)
     else do {
       (this1, other1, h1) \<leftarrow> move_assign m this other h;
       Some (objs(i \<mapsto> this1, j \<mapsto> other1), h1)
     }
   }"
| "run_op m (Resize i n) (objs, h) = do {
     this \<leftarrow> objs i;
     (ok, this1, h1) \<leftarrow> resize m n this h;
     Some (objs(i \<mapsto> this1), h1)
   }"
| "run_op m (Clear i) (objs, h) = do {
     this \<leftarrow> objs i;
     (this1, h1) \<leftarrow> clear_SecureBuffer m this h;
     Some (objs(i \<mapsto> this1), h1)
   }"
| "run_op m (Put i k x) (objs, h) = do {
     this \<leftarrow> objs i;
     h1 \<leftarrow> put_octet this k x h;
     Some (objs, h1)
   }"
| "run_op m (Destroy i) (objs, h) = do {
     this \<leftarrow> objs i;
     h1 \<leftarrow> wipe_and_free m this h;
     Some (objs(i := None), h1)
   }"

text \<open>A call of \<^verbatim>\<open>resize\<close> that ends with \<^verbatim>\<open>std::bad_alloc\<close>.\<close>

fun resize_throws :: "memory \<Rightarrow> buffer_op \<Rightarrow> buffers \<Rightarrow> bool" where
  "resize_throws m (Resize i n) (objs, h) =
     (case objs i of
        None \<Rightarrow> False
      | Some b \<Rightarrow> (case resize m n b h of Some (False, _, _) \<Rightarrow> True | _ \<Rightarrow> False))"
| "resize_throws m (Construct i n) s = False"
| "resize_throws m (Move_construct i j) s = False"
| "resize_throws m (Move_assign i j) s = False"
| "resize_throws m (Clear i) s = False"
| "resize_throws m (Put i k x) s = False"
| "resize_throws m (Destroy i) s = False"

text \<open>The states that programs reach, and whether a call of \<^verbatim>\<open>resize\<close> has thrown on the way.\<close>

definition no_buffers :: buffers where
  "no_buffers = (Map.empty, \<lparr>heap_blocks = Map.empty, heap_locked = {}, heap_released = []\<rparr>)"

inductive history :: "memory \<Rightarrow> bool \<Rightarrow> buffers \<Rightarrow> bool" for m where
  start: "history m False no_buffers"
| step: "\<lbrakk>history m thrown s; op_valid op s; run_op m op s = Some s'\<rbrakk>
    \<Longrightarrow> history m (thrown \<or> resize_throws m op s) s'"

section \<open>Blocks after the elementary operations\<close>

lemma zero_loop_prefix: "n \<le> length bs \<Longrightarrow> zero_loop n bs = replicate n 0 @ drop n bs"
proof (induction n)
  case (Suc n)
  have "zero_loop (Suc n) bs = (zero_loop n bs)[n := 0]" by (simp add: zero_loop_def)
  also have "\<dots> = replicate n 0 @ (drop n bs)[0 := 0]"
    using Suc by (simp add: list_update_append)
  also have "(drop n bs)[0 := 0] = 0 # drop (Suc n) bs"
    using Suc.prems by (metis Cons_nth_drop_Suc Suc_le_lessD list_update_code(2))
  finally show ?case by (simp add: replicate_app_Cons_same)
qed (simp add: zero_loop_def)

lemma zero_loop_all: "zero_loop (length bs) bs = replicate (length bs) 0"
  by (simp add: zero_loop_prefix)

lemma lock_simps [simp]:
  "heap_blocks (mem_lock m p h) = heap_blocks h" "heap_released (mem_lock m p h) = heap_released h"
  "heap_blocks (mem_unlock m p h) = heap_blocks h" "heap_released (mem_unlock m p h) = heap_released h"
  by (simp_all add: mem_lock_def mem_unlock_def)

text \<open>A buffer whose block is there with the recorded size.\<close>

definition owns :: "heap \<Rightarrow> SecureBuffer \<Rightarrow> bool" where
  "owns h buf \<longleftrightarrow>
     (case sb_data buf of None \<Rightarrow> True
      | Some p \<Rightarrow> map_option length (heap_blocks h p) = Some (sb_size buf))"

definition zeroed :: "bytes \<Rightarrow> bool" where
  "zeroed bs \<longleftrightarrow> list_all (\<lambda>x. x = 0) bs"

lemma zeroed_replicate [simp]: "zeroed (replicate n 0)"
  by (simp add: zeroed_def list_all_iff)

text \<open>The effect of releasing a block: it is gone, and only zeros were handed back.\<close>

definition gives_back :: "ptr option \<Rightarrow> heap \<Rightarrow> heap \<Rightarrow> bool" where
  "gives_back po h h' \<longleftrightarrow>
     (case po of
        None \<Rightarrow> heap_blocks h' = heap_blocks h \<and> heap_released h' = heap_released h
      | Some p \<Rightarrow> heap_blocks h' = (heap_blocks h)(p := None) \<and>
          (\<exists>bs. zeroed bs \<and> heap_released h' = bs # heap_released h))"

lemma zero_then_free:
  assumes "map_option length (heap_blocks h p) = Some n"
  shows "\<exists>h1 h2. mem_zero p n h = Some h1 \<and> mem_free m p h1 = Some h2 \<and>
     mem_free m p (mem_unlock m p h1) = Some h2 \<and> gives_back (Some p) h h2"
  using assms zero_loop_all
  by (auto simp: mem_zero_def mem_free_def gives_back_def mem_unlock_def)

lemma wipe_and_free_owned:
  assumes "owns h buf"
  shows "\<exists>h'. wipe_and_free m buf h = Some h' \<and> gives_back (sb_data buf) h h'"
proof (cases "sb_data buf")
  case (Some p)
  then have "map_option length (heap_blocks (mem_unlock m p h) p) = Some (sb_size buf)"
    using assms by (simp add: owns_def)
  from zero_then_free [OF this, of m] Some show ?thesis
    by (auto simp: wipe_and_free_def gives_back_def)
qed (simp add: wipe_and_free_def gives_back_def)

text \<open>Resizing to a new, positive size when memory is there.\<close>

lemma resize_new_block:
  assumes "allocator_ok m" and "owns h buf" and "n \<noteq> sb_size buf" and "n \<noteq> 0"
    and "mem_alloc m n h = Some (p, bs)"
  shows "\<exists>h' cs. resize m n buf h = Some (True, \<lparr>sb_data = Some p, sb_size = n\<rparr>, h') \<and>
     heap_blocks h p = None \<and> length cs = n \<and>
     gives_back (sb_data buf) (h\<lparr>heap_blocks := (heap_blocks h)(p \<mapsto> cs)\<rparr>) h' \<and>
     (case sb_data buf of None \<Rightarrow> True
      | Some q \<Rightarrow> take (sb_size buf) cs = take n (the (heap_blocks h q)))"
proof -
  have p: "heap_blocks h p = None" "length bs = n"
    using assms(1,5) by (auto simp: allocator_ok_def)
  let ?h1 = "mem_lock m p (h\<lparr>heap_blocks := (heap_blocks h)(p \<mapsto> bs)\<rparr>)"
  show ?thesis
  proof (cases "sb_data buf")
    case None
    then show ?thesis
      using assms(3-5) p by (auto simp: resize_def alloc_def gives_back_def)
  next
    case (Some q)
    then obtain qs where "heap_blocks h q = Some qs" "length qs = sb_size buf"
      using assms(2) by (auto simp: owns_def)
    with p(1) have q: "heap_blocks h q = Some qs" "length qs = sb_size buf" "q \<noteq> p" by auto
    let ?k = "min (sb_size buf) n" and ?cs = "take (min (sb_size buf) n) qs @ drop (min (sb_size buf) n) bs"
    have k: "(if sb_size buf < n then sb_size buf else n) = ?k" by auto
    let ?h2 = "?h1\<lparr>heap_blocks := (heap_blocks h)(p \<mapsto> ?cs)\<rparr>"
    have copy: "mem_copy p q ?k ?h1 = Some ?h2"
      using q p(2) by (simp add: mem_copy_def)
    have "map_option length (heap_blocks ?h2 q) = Some (sb_size buf)" using q by simp
    from zero_then_free [OF this, of m] obtain h3 h4 where
      "mem_zero q (sb_size buf) ?h2 = Some h3" "mem_free m q h3 = Some h4" "gives_back (Some q) ?h2 h4"
      by blast
    then have "resize m n buf h = Some (True, \<lparr>sb_data = Some p, sb_size = n\<rparr>, h4)"
      using assms(3-5) copy by (simp add: resize_def alloc_def Some k)
    moreover have "take (sb_size buf) ?cs = take n qs"
      using q(2) p(2) by (auto simp: min_def)
    ultimately show ?thesis
      using \<open>gives_back (Some q) ?h2 h4\<close> p q by (intro exI [of _ h4] exI [of _ ?cs]) (simp add: Some gives_back_def)
  qed
qed

section \<open>Ownership\<close>

text \<open>The block an object holds, and the invariant of a program's buffers.\<close>

definition block_of :: "(nat \<Rightarrow> SecureBuffer option) \<Rightarrow> nat \<Rightarrow> ptr option" where
  "block_of objs i = Option.bind (objs i) sb_data"

definition buffers_ok :: "buffers \<Rightarrow> bool" where
  "buffers_ok = (\<lambda>(objs, h).
     (\<forall>i b. objs i = Some b \<longrightarrow> owns h b) \<and>
     (\<forall>i j p. block_of objs i = Some p \<and> block_of objs j = Some p \<longrightarrow> i = j) \<and>
     list_all zeroed (heap_released h) \<and> finite (dom (heap_blocks h)))"

definition no_leaks :: "buffers \<Rightarrow> bool" where
  "no_leaks = (\<lambda>(objs, h). \<forall>p. heap_blocks h p \<noteq> None \<longrightarrow> (\<exists>i. block_of objs i = Some p))"

text \<open>
  Three changes of the state suffice for all operations: an object gives its block back and takes
  over another one, an object gets a fresh block, and a block is overwritten in place.
\<close>

lemma block_of_upd [simp]:
  "block_of (objs(i := v)) j = (if j = i then Option.bind v sb_data else block_of objs j)"
  by (simp add: block_of_def)

lemma ok_owns: "buffers_ok (objs, h) \<Longrightarrow> objs i = Some b \<Longrightarrow> owns h b"
  by (simp add: buffers_ok_def)

lemma ok_distinct:
  "buffers_ok (objs, h) \<Longrightarrow> block_of objs i = Some p \<Longrightarrow> block_of objs j = Some p \<Longrightarrow> i = j"
  by (auto simp: buffers_ok_def)

lemma ok_release:
  assumes "buffers_ok (objs, h)" and "objs i = Some b" and "gives_back (sb_data b) h h'"
  shows "buffers_ok (objs(i := None), h')"
    and "no_leaks (objs, h) \<Longrightarrow> no_leaks (objs(i := None), h')"
proof -
  have b: "block_of objs i = sb_data b" using assms(2) by (simp add: block_of_def)
  have other: "sb_data c \<noteq> sb_data b \<or> sb_data b = None" if "objs j = Some c" "j \<noteq> i" for j c
  proof (cases "sb_data b")
    case (Some p)
    have "block_of objs j = sb_data c" using that(1) by (simp add: block_of_def)
    with Some show ?thesis using ok_distinct [OF assms(1), of i p j] b that(2) by auto
  qed simp
  have owns: "owns h' c" if "objs j = Some c" "j \<noteq> i" for j c
    using that other [OF that] assms(1,3)
    by (auto simp: buffers_ok_def owns_def gives_back_def split: option.splits)
  show "buffers_ok (objs(i := None), h')"
    using assms(1,3) owns
    by (auto simp: buffers_ok_def gives_back_def split: option.splits)
  show "no_leaks (objs(i := None), h')" if "no_leaks (objs, h)"
  proof -
    have "\<exists>k. k \<noteq> i \<and> block_of objs k = Some p" if p: "heap_blocks h' p \<noteq> None" for p
    proof -
      have "heap_blocks h p \<noteq> None" "sb_data b \<noteq> Some p"
        using p assms(3) by (auto simp: gives_back_def split: option.splits if_splits)
      moreover from this obtain k where "block_of objs k = Some p"
        using \<open>no_leaks (objs, h)\<close> by (auto simp: no_leaks_def)
      ultimately show ?thesis using b by metis
    qed
    then show ?thesis by (auto simp: no_leaks_def)
  qed
qed

lemma ok_new_object:
  assumes "buffers_ok (objs, h)" and "objs i = None" and "sb_data b = None"
  shows "buffers_ok (objs(i \<mapsto> b), h)" and "no_leaks (objs, h) \<Longrightarrow> no_leaks (objs(i \<mapsto> b), h)"
proof -
  show "buffers_ok (objs(i \<mapsto> b), h)"
    using assms by (auto simp: buffers_ok_def owns_def)
  have "block_of objs i = None" using assms(2) by (simp add: block_of_def)
  then show "no_leaks (objs(i \<mapsto> b), h)" if "no_leaks (objs, h)"
    using that by (auto simp: no_leaks_def) (metis option.distinct(1))
qed

lemma ok_fresh_block:
  assumes "buffers_ok (objs, h)" and "objs i = None" and "heap_blocks h p = None" and "length bs = n"
    and "heap_blocks h' = (heap_blocks h)(p \<mapsto> bs)" and "heap_released h' = heap_released h"
  shows "buffers_ok (objs(i \<mapsto> \<lparr>sb_data = Some p, sb_size = n\<rparr>), h')"
    and "no_leaks (objs, h) \<Longrightarrow> no_leaks (objs(i \<mapsto> \<lparr>sb_data = Some p, sb_size = n\<rparr>), h')"
proof -
  have fresh: "sb_data c \<noteq> Some p" if "objs j = Some c" for j c
    using that assms(1,3) by (fastforce simp: buffers_ok_def owns_def)
  have owns: "owns h' c" if "objs j = Some c" for j c
    using that fresh [OF that] assms(1,5) by (auto simp: buffers_ok_def owns_def split: option.splits)
  have "block_of objs j \<noteq> Some p" for j using fresh by (auto simp: block_of_def bind_eq_Some_conv)
  then show "buffers_ok (objs(i \<mapsto> \<lparr>sb_data = Some p, sb_size = n\<rparr>), h')"
    using assms owns by (auto simp: buffers_ok_def owns_def)
  have "block_of objs i = None" using assms(2) by (simp add: block_of_def)
  then show "no_leaks (objs(i \<mapsto> \<lparr>sb_data = Some p, sb_size = n\<rparr>), h')" if "no_leaks (objs, h)"
    using that assms(5) by (auto simp: no_leaks_def) (metis option.distinct(1))+
qed

lemma ok_hand_over:
  assumes "buffers_ok (objs, h)" and "objs i = None" and "objs j = Some b"
    and "sb_data b' = sb_data b" and "sb_size b' = sb_size b" and "sb_data e = None"
  shows "buffers_ok (objs(i \<mapsto> b', j \<mapsto> e), h)"
    and "no_leaks (objs, h) \<Longrightarrow> no_leaks (objs(i \<mapsto> b', j \<mapsto> e), h)"
proof -
  have ij: "i \<noteq> j" and bi: "block_of objs i = None" and bj: "block_of objs j = sb_data b"
    using assms(2,3) by (auto simp: block_of_def)
  have "owns h b'" using ok_owns [OF assms(1,3)] unfolding owns_def assms(4,5) .
  then show "buffers_ok (objs(i \<mapsto> b', j \<mapsto> e), h)"
    using assms(1,4,6) bj by (auto simp: buffers_ok_def owns_def)
  show "no_leaks (objs(i \<mapsto> b', j \<mapsto> e), h)" if "no_leaks (objs, h)"
    using that assms(4) bi bj ij by (auto simp: no_leaks_def) (metis option.distinct(1))
qed

lemma ok_overwrite:
  assumes "buffers_ok (objs, h)" and "heap_blocks h p = Some bs" and "length cs = length bs"
  shows "buffers_ok (objs, h\<lparr>heap_blocks := (heap_blocks h)(p \<mapsto> cs)\<rparr>)"
    and "no_leaks (objs, h) \<Longrightarrow> no_leaks (objs, h\<lparr>heap_blocks := (heap_blocks h)(p \<mapsto> cs)\<rparr>)"
proof -
  have "owns (h\<lparr>heap_blocks := (heap_blocks h)(p \<mapsto> cs)\<rparr>) b" if "objs i = Some b" for i b
    using ok_owns [OF assms(1) that] assms(2,3) by (auto simp: owns_def split: option.splits)
  then show "buffers_ok (objs, h\<lparr>heap_blocks := (heap_blocks h)(p \<mapsto> cs)\<rparr>)"
    using assms(1) by (auto simp: buffers_ok_def)
  show "no_leaks (objs, h\<lparr>heap_blocks := (heap_blocks h)(p \<mapsto> cs)\<rparr>)" if "no_leaks (objs, h)"
    using that assms(2) by (auto simp: no_leaks_def)
qed

text \<open>A system in which no allocation fails while finitely many blocks are in use.\<close>

definition always_memory :: "memory \<Rightarrow> bool" where
  "always_memory m \<longleftrightarrow> (\<forall>n h. finite (dom (heap_blocks h)) \<longrightarrow> mem_alloc m n h \<noteq> None)"

text \<open>
  Every valid operation but an access without a block is defined and keeps the invariant, and it leaks
  nothing unless \<^verbatim>\<open>resize\<close> throws.
\<close>

definition step_ok :: "bool \<Rightarrow> buffers \<Rightarrow> buffers option \<Rightarrow> bool" where
  "step_ok throws s r \<longleftrightarrow>
     (case r of None \<Rightarrow> False
      | Some s' \<Rightarrow> buffers_ok s' \<and> (\<not> throws \<longrightarrow> no_leaks s \<longrightarrow> no_leaks s'))"

text \<open>Objects that have a block or the size zero.\<close>

definition sized :: "buffers \<Rightarrow> bool" where
  "sized s \<longleftrightarrow> (\<forall>i b. fst s i = Some b \<longrightarrow> sb_data b = None \<longrightarrow> sb_size b = 0)"

definition null_access :: "buffer_op \<Rightarrow> buffers \<Rightarrow> bool" where
  "null_access op s \<longleftrightarrow> (\<exists>i k x b. op = Put i k x \<and> fst s i = Some b \<and> sb_data b = None)"

lemma step_Construct:
  assumes "allocator_ok m" and "buffers_ok (objs, h)" and "objs i = None"
  shows "step_ok False (objs, h) (run_op m (Construct i n) (objs, h))"
proof (cases "n > 0")
  case True
  then show ?thesis
  proof (cases "mem_alloc m n h")
    case None
    then show ?thesis using True assms
      by (auto simp: step_ok_def new_SecureBuffer_def alloc_def)
  next
    case (Some x)
    obtain p bs where x: "x = (p, bs)" by (cases x)
    then have p: "heap_blocks h p = None" "length bs = n"
      using assms(1) Some by (auto simp: allocator_ok_def)
    show ?thesis
      using True Some ok_fresh_block [OF assms(2,3) p, of "mem_lock m p (h\<lparr>heap_blocks := (heap_blocks h)(p \<mapsto> bs)\<rparr>)"]
      by (simp add: step_ok_def new_SecureBuffer_def alloc_def x)
  qed
next
  case False
  then show ?thesis
    using ok_new_object [OF assms(2,3), of empty_SecureBuffer]
    by (simp add: step_ok_def new_SecureBuffer_def empty_SecureBuffer_def)
qed

lemma step_Clear:
  assumes "buffers_ok (objs, h)" and "objs i = Some b"
  shows "step_ok False (objs, h) (run_op m (Clear i) (objs, h))"
    and "step_ok False (objs, h) (run_op m (Destroy i) (objs, h))"
proof -
  obtain h' where w: "wipe_and_free m b h = Some h'" "gives_back (sb_data b) h h'"
    using wipe_and_free_owned [OF ok_owns [OF assms]] by blast
  note rel = ok_release [OF assms w(2)]
  then show "step_ok False (objs, h) (run_op m (Destroy i) (objs, h))"
    by (simp add: step_ok_def assms(2) w(1))
  show "step_ok False (objs, h) (run_op m (Clear i) (objs, h))"
    using rel ok_new_object [of "objs(i := None)" h' i empty_SecureBuffer]
    by (simp add: step_ok_def assms(2) w(1) clear_SecureBuffer_def empty_SecureBuffer_def)
qed

lemma step_Resize:
  assumes "allocator_ok m" and "buffers_ok (objs, h)" and "objs i = Some b"
  shows "step_ok (resize_throws m (Resize i n) (objs, h)) (objs, h) (run_op m (Resize i n) (objs, h))"
proof -
  consider (zero) "n = 0" | (same) "n \<noteq> 0" "n = sb_size b" | (fresh) p bs where
      "n \<noteq> 0" "n \<noteq> sb_size b" "mem_alloc m n h = Some (p, bs)"
    | (fail) "n \<noteq> 0" "n \<noteq> sb_size b" "mem_alloc m n h = None"
    by (metis not_None_eq surj_pair)
  then show ?thesis
  proof cases
    case zero
    have "run_op m (Resize i n) (objs, h) = run_op m (Clear i) (objs, h)"
      by (simp add: zero resize_def assms(3) clear_SecureBuffer_def)
    then show ?thesis using step_Clear(1) [OF assms(2,3), of m] by (auto simp: step_ok_def simp del: run_op.simps split: option.splits)
  next
    case same
    then have "objs(i \<mapsto> b) = objs" using assms(3) by auto
    with same show ?thesis using assms by (simp add: step_ok_def resize_def)
  next
    case fresh
    from resize_new_block [OF assms(1) ok_owns [OF assms(2,3)] fresh(2,1,3)]
    obtain h' cs where r: "resize m n b h = Some (True, \<lparr>sb_data = Some p, sb_size = n\<rparr>, h')"
      "heap_blocks h p = None" "length cs = n"
      "gives_back (sb_data b) (h\<lparr>heap_blocks := (heap_blocks h)(p \<mapsto> cs)\<rparr>) h'"
      by blast
    let ?new = "\<lparr>sb_data = Some p, sb_size = n\<rparr> :: SecureBuffer"
    have ne: "sb_data b \<noteq> Some p"
      using ok_owns [OF assms(2,3)] r(2) by (auto simp: owns_def)
    let ?h0 = "h'\<lparr>heap_blocks := (heap_blocks h')(p := None)\<rparr>"
    have h0: "gives_back (sb_data b) h ?h0" "heap_blocks h' = (heap_blocks ?h0)(p \<mapsto> cs)"
        "heap_released h' = heap_released ?h0"
      using r(2,4) ne by (auto simp: gives_back_def fun_eq_iff split: option.splits)
    note rel = ok_release [OF assms(2,3) h0(1)]
    have "heap_blocks ?h0 p = None" by simp
    from ok_fresh_block [OF rel(1) _ this r(3) h0(2,3), of i] rel
    show ?thesis by (simp add: step_ok_def assms(3) r(1))
  next
    case fail
    have "buffers_ok (objs(i \<mapsto> b\<lparr>sb_data := None\<rparr>), h)"
      using assms(2) by (auto simp: buffers_ok_def owns_def)
    moreover have "resize_throws m (Resize i n) (objs, h)"
      using fail by (simp add: resize_def alloc_def assms(3))
    ultimately show ?thesis
      using fail by (simp add: step_ok_def resize_def alloc_def assms(3))
  qed
qed

lemma step_moves:
  assumes "buffers_ok (objs, h)" and "objs j = Some c"
  shows "objs i = None \<Longrightarrow> step_ok False (objs, h) (run_op m (Move_construct i j) (objs, h))"
    and "objs i = Some b \<Longrightarrow> step_ok False (objs, h) (run_op m (Move_assign i j) (objs, h))"
proof -
  show "step_ok False (objs, h) (run_op m (Move_construct i j) (objs, h))" if "objs i = None"
    using ok_hand_over [OF assms(1) that assms(2), of "fst (move_construct c)" empty_SecureBuffer]
    by (simp add: step_ok_def assms(2) move_construct_def empty_SecureBuffer_def)
  show "step_ok False (objs, h) (run_op m (Move_assign i j) (objs, h))" if i: "objs i = Some b"
  proof (cases "i = j")
    case False
    obtain h' where w: "wipe_and_free m b h = Some h'" "gives_back (sb_data b) h h'"
      using wipe_and_free_owned [OF ok_owns [OF assms(1) i]] by blast
    note rel = ok_release [OF assms(1) i w(2)]
    let ?new = "b\<lparr>sb_data := sb_data c, sb_size := sb_size c\<rparr>"
    have "(objs(i := None)) j = Some c" using False assms(2) by simp
    note hand = ok_hand_over [OF rel(1) fun_upd_same this, of ?new empty_SecureBuffer, unfolded fun_upd_upd]
    have "run_op m (Move_assign i j) (objs, h) = Some (objs(i \<mapsto> ?new, j \<mapsto> empty_SecureBuffer), h')"
      using False by (simp add: assms(2) i w(1) move_assign_def)
    moreover have "buffers_ok (objs(i \<mapsto> ?new, j \<mapsto> empty_SecureBuffer), h')"
      by (rule hand(1)) (simp_all add: empty_SecureBuffer_def)
    moreover have "no_leaks (objs(i \<mapsto> ?new, j \<mapsto> empty_SecureBuffer), h')" if "no_leaks (objs, h)"
      by (rule hand(2) [OF _ _ _ rel(2) [OF that]]) (simp_all add: empty_SecureBuffer_def)
    ultimately show ?thesis by (simp only: step_ok_def option.case) blast
  qed (use assms i in \<open>simp add: step_ok_def\<close>)
qed

lemma step_Put:
  assumes "buffers_ok (objs, h)" and "op_valid (Put i k x) (objs, h)" and "\<not> null_access (Put i k x) (objs, h)"
  shows "step_ok False (objs, h) (run_op m (Put i k x) (objs, h))"
proof -
  obtain b p where b: "objs i = Some b" "sb_data b = Some p" "k < sb_size b"
    using assms(2,3) by (auto simp: null_access_def split: option.splits)
  then obtain bs where bs: "heap_blocks h p = Some bs" "length bs = sb_size b"
    using ok_owns [OF assms(1)] by (fastforce simp: owns_def)
  show ?thesis
    using ok_overwrite [OF assms(1) bs(1), of "bs[k := x]"] b bs by (simp add: step_ok_def put_octet_def)
qed

lemma step_ok_run:
  assumes "allocator_ok m" and "buffers_ok s" and "op_valid op s" and "\<not> null_access op s"
  shows "step_ok (resize_throws m op s) s (run_op m op s)"
proof -
  obtain objs h where s: "s = (objs, h)" by (cases s)
  note ok = assms(2) [unfolded s] and valid = assms(3) [unfolded s] and block = assms(4) [unfolded s]
  show ?thesis unfolding s
  proof (cases op)
    case (Put i k x)
    then show "step_ok (resize_throws m op (objs, h)) (objs, h) (run_op m op (objs, h))"
      using step_Put [OF ok] valid block by simp
  next
    case (Resize i n)
    then show "step_ok (resize_throws m op (objs, h)) (objs, h) (run_op m op (objs, h))"
      using step_Resize [OF assms(1) ok] valid by (auto simp del: run_op.simps resize_throws.simps)
  qed (use valid assms(1) ok step_Construct step_Clear step_moves in fastforce)+
qed

lemma null_access_undefined: "null_access op s \<Longrightarrow> run_op m op s = None"
  by (cases s) (auto simp: null_access_def put_octet_def)

lemma sized_step:
  assumes "sized s" and "run_op m op s = Some s'" and "\<not> resize_throws m op s"
  shows "sized s'"
proof -
  obtain objs h where s: "s = (objs, h)" by (cases s)
  note upd = assms(1) [unfolded s sized_def]
  show ?thesis
  proof (cases op)
    case (Resize i n)
    then obtain b ok b1 h1 where b: "objs i = Some b" "resize m n b h = Some (ok, b1, h1)"
      "s' = (objs(i \<mapsto> b1), h1)" "ok"
      using assms(2,3) by (auto simp: s bind_eq_Some_conv split: option.splits bool.splits)
    then have "sb_data b1 = None \<longrightarrow> sb_size b1 = 0"
      using upd by (auto simp: resize_def alloc_def clear_SecureBuffer_def empty_SecureBuffer_def bind_eq_Some_conv Let_def
          split: if_splits option.splits)
    then show ?thesis using upd by (simp add: b(3) sized_def)
  qed (use assms(2) upd in \<open>auto simp: s sized_def new_SecureBuffer_def alloc_def empty_SecureBuffer_def move_construct_def
      move_assign_def clear_SecureBuffer_def bind_eq_Some_conv Let_def split: if_splits option.splits prod.splits\<close>)
qed

lemma history_ok:
  "history m thrown s \<Longrightarrow> allocator_ok m \<Longrightarrow> buffers_ok s \<and> (\<not> thrown \<longrightarrow> no_leaks s \<and> sized s)"
proof (induction rule: history.induct)
  case start
  show ?case by (simp add: no_buffers_def buffers_ok_def no_leaks_def sized_def block_of_def)
next
  case (step thrown s op s')
  have "\<not> null_access op s" using null_access_undefined [of op s m] step.hyps(3) by auto
  with step step_ok_run [of m s op] sized_step [of s m op s'] show ?case by (auto simp: step_ok_def)
qed

section \<open>Properties\<close>

text \<open>The octets a buffer holds.\<close>

definition buffer_bytes :: "heap \<Rightarrow> SecureBuffer \<Rightarrow> bytes" where
  "buffer_bytes h buf =
     (case sb_data buf of None \<Rightarrow> [] | Some p \<Rightarrow> (case heap_blocks h p of None \<Rightarrow> [] | Some bs \<Rightarrow> bs))"

text \<open>
  Property C26: what a program can do to buffers that it uses within their sizes, whatever allocations
  fail.  The one operation that reads, writes or frees outside a live block is an access to an
  element of a buffer that has no block; every block handed back to the allocator contains zeros
  only.  While no call of \<^verbatim>\<open>resize\<close> has thrown, every operation is defined and the live blocks are
  exactly the blocks of live objects, so that none are left when the objects are gone, even if
  constructors have thrown.  A call of \<^verbatim>\<open>resize\<close> that throws ends both: it leaves an object without a
  block and with its old size, and a block without an owner.
\<close>

theorem secure_buffers_safe:
  assumes "allocator_ok m" and "history m thrown s" and "op_valid op s"
  shows "(run_op m op s = None \<longleftrightarrow> (\<exists>i k x b. op = Put i k x \<and> fst s i = Some b \<and> sb_data b = None)) \<and>
     list_all zeroed (heap_released (snd s)) \<and>
     (\<not> thrown \<longrightarrow> run_op m op s \<noteq> None \<and> dom (heap_blocks (snd s)) = {p. \<exists>i. block_of (fst s) i = Some p})"
proof -
  obtain objs h where s: "s = (objs, h)" by (cases s)
  have ok: "buffers_ok (objs, h)" "\<not> thrown \<longrightarrow> no_leaks (objs, h) \<and> sized (objs, h)"
    using history_ok [OF assms(2,1)] by (simp_all add: s)
  have "heap_blocks h p \<noteq> None" if p: "block_of objs i = Some p" for i p
  proof -
    obtain b where "objs i = Some b" "sb_data b = Some p" using p by (auto simp: block_of_def bind_eq_Some_conv)
    with ok_owns [OF ok(1)] show ?thesis by (fastforce simp: owns_def)
  qed
  then have "dom (heap_blocks (snd s)) = {p. \<exists>i. block_of (fst s) i = Some p}" if "\<not> thrown"
    using ok(2) that by (auto simp: s no_leaks_def)
  moreover have "run_op m op s \<noteq> None" if "\<not> null_access op s"
    using step_ok_run [OF assms(1) _ assms(3) that] ok(1) by (auto simp: step_ok_def s split: option.splits)
  then have "run_op m op s = None \<longleftrightarrow> null_access op s" using null_access_undefined by blast
  moreover have "\<not> null_access op s" if "\<not> thrown"
    using ok(2) that assms(3) by (auto simp: null_access_def sized_def s)
  moreover have "list_all zeroed (heap_released (snd s))" using ok(1) by (simp add: s buffers_ok_def)
  ultimately show ?thesis unfolding null_access_def by blast
qed

text \<open>An allocator that takes the first free address.\<close>

definition first_fit :: memory where
  "first_fit = \<lparr>with_sodium = False,
     mem_alloc = (\<lambda>n h. if finite (dom (heap_blocks h))
        then Some (LEAST p. heap_blocks h p = None, replicate n 205) else None),
     mlock_ok = (\<lambda>_. True)\<rparr>"

lemma first_fit_ok: "allocator_ok first_fit" "always_memory first_fit"
proof -
  have free: "heap_blocks h (LEAST p. heap_blocks h p = None) = None" if fin: "finite (dom (heap_blocks h))" for h
  proof -
    obtain p where "p \<notin> dom (heap_blocks h)" using ex_new_if_finite [OF infinite_UNIV_nat fin] by blast
    then have "heap_blocks h p = None" by auto
    then show ?thesis by (rule LeastI)
  qed
  show "always_memory first_fit" by (simp add: always_memory_def first_fit_def)
  show "allocator_ok first_fit"
    unfolding allocator_ok_def
  proof (intro allI impI)
    fix n h p bs
    assume "mem_alloc first_fit n h = Some (p, bs)"
    then have "finite (dom (heap_blocks h))" "p = (LEAST p. heap_blocks h p = None)" "bs = replicate n 205"
      by (simp_all add: first_fit_def split: if_splits)
    with free [of h] show "heap_blocks h p = None \<and> length bs = n" by simp
  qed
qed

theorem secure_buffers_safe_witness:
  "case run_op first_fit (Construct 0 4) no_buffers of None \<Rightarrow> False
   | Some s \<Rightarrow> dom (heap_blocks (snd s)) = {p. \<exists>i. block_of (fst s) i = Some p} \<and>
       run_op first_fit (Put 0 3 9) s \<noteq> None"
proof -
  have "(LEAST p. heap_blocks (snd no_buffers) p = None) = 0"
    by (simp add: no_buffers_def)
  then obtain s where s: "run_op first_fit (Construct 0 4) no_buffers = Some s"
    and b: "\<exists>b. fst s 0 = Some b \<and> sb_data b \<noteq> None \<and> sb_size b = 4"
    by (auto simp: no_buffers_def new_SecureBuffer_def alloc_def first_fit_def)
  have "history first_fit (False \<or> resize_throws first_fit (Construct 0 4) no_buffers) s"
    by (rule history.step [OF history.start _ s]) (simp add: no_buffers_def)
  then have "history first_fit False s" by simp
  moreover have "op_valid (Put 0 3 9) s" using b by (cases s) auto
  ultimately show ?thesis
    using secure_buffers_safe [OF first_fit_ok(1), of False s "Put 0 3 9"] unfolding s option.case by blast
qed

text \<open>
  What \<^verbatim>\<open>resize\<close> does to a buffer that holds a block, to another positive size.  When memory is
  there, the common prefix is kept.  When it is not, the exception leaves the object without its
  block but with its old size: the block stays allocated with its secret contents and no owner, and
  asking again for the old size succeeds although there is no block, and a write to its first
  element goes through a null pointer.
\<close>

theorem resize_outcome:
  assumes "allocator_ok m" and "owns h buf" and "sb_data buf = Some q" and "0 < sb_size buf"
    and "n \<noteq> 0" and "n \<noteq> sb_size buf"
  shows "case mem_alloc m n h of
      Some _ \<Rightarrow> (case resize m n buf h of
         Some (ok, buf', h') \<Rightarrow> ok \<and> owns h' buf' \<and> sb_size buf' = n \<and> length (buffer_bytes h' buf') = n \<and>
           take (sb_size buf) (buffer_bytes h' buf') = take n (buffer_bytes h buf)
       | None \<Rightarrow> False)
    | None \<Rightarrow> (let buf' = \<lparr>sb_data = None, sb_size = sb_size buf\<rparr>
         in resize m n buf h = Some (False, buf', h) \<and> heap_blocks h q \<noteq> None \<and>
            resize m (sb_size buf) buf' h = Some (True, buf', h) \<and> put_octet buf' 0 x h = None)"
proof (cases "mem_alloc m n h")
  case None
  moreover have "heap_blocks h q \<noteq> None" using assms(2,3) by (auto simp: owns_def)
  ultimately show ?thesis
    using assms(4-6) by (cases buf) (simp add: resize_def alloc_def put_octet_def Let_def)
next
  case (Some x)
  obtain p bs where x: "x = (p, bs)" by (cases x)
  from resize_new_block [OF assms(1,2) assms(6,5) Some [unfolded x]]
  obtain h' cs where r: "resize m n buf h = Some (True, \<lparr>sb_data = Some p, sb_size = n\<rparr>, h')"
    "heap_blocks h p = None" "length cs = n"
    "gives_back (Some q) (h\<lparr>heap_blocks := (heap_blocks h)(p \<mapsto> cs)\<rparr>) h'"
    "take (sb_size buf) cs = take n (the (heap_blocks h q))"
    using assms(3) by auto
  have q: "heap_blocks h q \<noteq> None" using assms(2,3) by (auto simp: owns_def)
  with r(2) have "q \<noteq> p" by auto
  with r(4) have "heap_blocks h' p = Some cs" by (auto simp: gives_back_def)
  then show ?thesis
    using r q assms(3) by (auto simp: Some owns_def buffer_bytes_def)
qed

text \<open>An allocator with one address.\<close>

definition one_block :: memory where
  "one_block = \<lparr>with_sodium = True,
     mem_alloc = (\<lambda>n h. if heap_blocks h 7 = None then Some (7, replicate n 219) else None),
     mlock_ok = (\<lambda>_. True)\<rparr>"

lemma one_block_ok: "allocator_ok one_block"
  by (auto simp: allocator_ok_def one_block_def split: if_splits)

theorem resize_outcome_witness:
  "resize one_block 5 \<lparr>sb_data = Some 7, sb_size = 2\<rparr>
     \<lparr>heap_blocks = [7 \<mapsto> [1, 2]], heap_locked = {7}, heap_released = []\<rparr> =
   Some (False, \<lparr>sb_data = None, sb_size = 2\<rparr>,
     \<lparr>heap_blocks = [7 \<mapsto> [1, 2]], heap_locked = {7}, heap_released = []\<rparr>)"
proof -
  let ?h = "\<lparr>heap_blocks = [7 \<mapsto> [1, 2]], heap_locked = {7}, heap_released = []\<rparr> :: heap"
    and ?b = "\<lparr>sb_data = Some 7, sb_size = 2\<rparr> :: SecureBuffer"
  have "mem_alloc one_block 5 ?h = None" by (simp add: one_block_def)
  then show ?thesis
    using resize_outcome [OF one_block_ok, of ?h ?b 7 5] by (simp add: owns_def Let_def)
qed

text \<open>The comparison of two owned buffers is the comparison of their contents.\<close>

theorem buffer_equals_contents:
  assumes "owns h a" and "owns h b" and "memcmp_ok lib" and "sb_data a = None \<longrightarrow> sb_size a = 0"
    and "sb_data b = None \<longrightarrow> sb_size b = 0" and "sb_data a \<noteq> None \<longrightarrow> 0 < sb_size a"
    and "sb_data b \<noteq> None \<longrightarrow> 0 < sb_size b"
  shows "buffer_equals lib h a b = Some (constant_time_equals lib (buffer_bytes h a) (buffer_bytes h b))"
  using assms
  by (auto simp: buffer_equals_def constant_time_equals_def buffer_bytes_def owns_def split: option.splits)

text \<open>Printing a buffer prints its contents, except that a failed \<^verbatim>\<open>resize\<close> leaves one that cannot be read.\<close>

theorem encode_hex_buffer_contents:
  assumes "owns h buf"
  shows "encode_hex_buffer buf h =
     (if buffer_valid buf \<or> buffer_empty buf then Some (encode_hex (buffer_bytes h buf)) else None) \<and>
     buffer_range buf h = Some (buffer_bytes h buf)"
  using assms
  by (auto simp: encode_hex_buffer_def buffer_range_def buffer_valid_def buffer_empty_def buffer_bytes_def
      owns_def split: option.splits)

text \<open>
  Property C34: the size of what \<^verbatim>\<open>allocate(n)\<close> obtains is \<open>n\<close> times the size of the type modulo the
  64-bit word, so it is too small exactly when the product overflows; handing the block back with
  the same \<open>n\<close> is always defined and wipes all of it.
\<close>

theorem allocator_size_wraps:
  assumes "allocator_ok m" and "allocate m sizeof n h = (Some p, h')"
  shows "map_option length (heap_blocks h' p) = Some ((unat n * unat sizeof) mod 2 ^ 64) \<and>
     (map_option length (heap_blocks h' p) = Some (unat n * unat sizeof) \<longleftrightarrow> unat n * unat sizeof < 2 ^ 64) \<and>
     (case deallocate m sizeof (Some p) n h' of
        None \<Rightarrow> False
      | Some h2 \<Rightarrow> heap_blocks h2 = heap_blocks h \<and>
          heap_released h2 = replicate ((unat n * unat sizeof) mod 2 ^ 64) 0 # heap_released h)"
proof -
  have w: "unat (n * sizeof) = (unat n * unat sizeof) mod 2 ^ 64"
    by (simp add: unat_word_ariths)
  obtain bs where a: "mem_alloc m (unat (n * sizeof)) h = Some (p, bs)"
    and h': "h' = mem_lock m p (h\<lparr>heap_blocks := (heap_blocks h)(p \<mapsto> bs)\<rparr>)"
    using assms(2) by (auto simp: allocate_def split: option.splits)
  then have p: "heap_blocks h p = None" "length bs = (unat n * unat sizeof) mod 2 ^ 64"
    using assms(1) w by (auto simp: allocator_ok_def)
  have "(heap_blocks h)(p := None) = heap_blocks h" using p(1) by auto
  with p zero_loop_all [of bs] show ?thesis
    by (auto simp: h' deallocate_def mem_zero_def mem_free_def w mod_eq_self_iff_div_eq_0 div_eq_0_iff)
qed

theorem allocator_size_wraps_witness:
  "map_option length (heap_blocks (snd (allocate one_block 8 (2 ^ 61 + 1)
     \<lparr>heap_blocks = Map.empty, heap_locked = {}, heap_released = []\<rparr>)) 7) = Some 8"
proof -
  let ?h = "\<lparr>heap_blocks = Map.empty, heap_locked = {}, heap_released = []\<rparr> :: heap"
  obtain h' where a: "allocate one_block 8 (2 ^ 61 + 1) ?h = (Some 7, h')"
    by (simp add: allocate_def one_block_def)
  have "map_option length (heap_blocks h' 7) = Some (unat (2 ^ 61 + 1 :: u64) * unat (8 :: u64) mod 2 ^ 64)"
    using allocator_size_wraps [OF one_block_ok a] by blast
  then show ?thesis unfolding a by simp
qed

end
