(* ===== verification/Identity_Service.thy ===== *)
theory Identity_Service
  imports Crypto
begin

text \<open>
  \<^verbatim>\<open>src/src/beacon/identity_service.cpp\<close>: the store of public keys that agents were first seen with.
  Every method holds the mutex for its whole critical section, so each is one atomic operation
  on the state.  The locale \<open>key_pinning\<close> states what the rest of the engine relies on: a key
  that was pinned is never replaced by verification, only \<^verbatim>\<open>forget_key\<close> removes it.
\<close>

record IdentityService =
  trust_store :: "bytes omap"

definition new_IdentityService :: IdentityService where
  "new_IdentityService = \<lparr>trust_store = []\<rparr>"

definition verify_and_register ::
  "sodium option \<Rightarrow> AgentRecord \<Rightarrow> IdentityService \<Rightarrow> SignatureStatus \<times> IdentityService" where
  "verify_and_register lib r svc =
     (let status = verify_agent_signature lib r
      in if status \<noteq> Valid then (status, svc)
         else
           let public_key = decode_hex (public_key_hex r)
           in if public_key = [] then (Invalid, svc)
              else
                (case omap_get (agent_id r) (trust_store svc) of
                   None \<Rightarrow>
                     (Valid, svc\<lparr>trust_store := omap_set (agent_id r) public_key (trust_store svc)\<rparr>)
                 | Some existing \<Rightarrow>
                     if \<not> constant_time_equals lib existing public_key then (Invalid, svc)
                     else (Valid, svc)))"

definition check_key_consistency ::
  "sodium option \<Rightarrow> string \<Rightarrow> bytes \<Rightarrow> IdentityService \<Rightarrow> bool" where
  "check_key_consistency lib aid public_key svc =
     (case omap_get aid (trust_store svc) of
        None \<Rightarrow> True
      | Some existing \<Rightarrow> constant_time_equals lib existing public_key)"

definition forget_key :: "string \<Rightarrow> IdentityService \<Rightarrow> IdentityService" where
  "forget_key aid svc = svc\<lparr>trust_store := omap_erase aid (trust_store svc)\<rparr>"

definition trusted_agents :: "IdentityService \<Rightarrow> nat" where
  "trusted_agents svc = omap_size (trust_store svc)"

section \<open>Invariant and lookups\<close>

definition identity_wf :: "IdentityService \<Rightarrow> bool" where
  "identity_wf svc \<longleftrightarrow>
     omap_wf (trust_store svc) \<and> list_all (\<lambda>(k, key). key \<noteq> []) (trust_store svc)"

definition pinned :: "IdentityService \<Rightarrow> string \<Rightarrow> bytes option" where
  "pinned svc aid = omap_get aid (trust_store svc)"

lemma identity_wf_new: "identity_wf new_IdentityService"
  by (simp add: identity_wf_def new_IdentityService_def)

lemma identity_wf_verify_and_register:
  "identity_wf svc \<Longrightarrow> identity_wf (snd (verify_and_register lib r svc))"
  using set_omap_set [of "agent_id r" "decode_hex (public_key_hex r)" "trust_store svc"]
  by (auto simp: verify_and_register_def identity_wf_def Let_def om.wf_put list_all_iff
      split: option.splits)

lemma identity_wf_forget_key: "identity_wf svc \<Longrightarrow> identity_wf (forget_key aid svc)"
  using om.wf_del [of "trust_store svc" aid]
  by (auto simp: forget_key_def identity_wf_def list_all_iff omap_erase_def)

lemma pinned_forget_key:
  "identity_wf svc \<Longrightarrow> pinned (forget_key aid svc) aid' = (if aid' = aid then None else pinned svc aid')"
  by (simp add: pinned_def forget_key_def identity_wf_def om.get_del)

lemma verify_and_register_status:
  assumes "memcmp_ok lib"
  shows "fst (verify_and_register lib r svc) =
     (if verify_agent_signature lib r \<noteq> Valid then verify_agent_signature lib r
      else case pinned svc (agent_id r) of
             None \<Rightarrow> Valid
           | Some key \<Rightarrow> if key = decode_hex (public_key_hex r) then Valid else Invalid)"
  using assms
  by (auto simp: verify_and_register_def pinned_def Let_def constant_time_equals_iff
      verify_agent_signature_Valid_iff split: option.splits)

lemma pinned_verify_and_register:
  assumes "identity_wf svc"
  shows "pinned (snd (verify_and_register lib r svc)) aid =
     (if verify_agent_signature lib r = Valid \<and> aid = agent_id r \<and> pinned svc aid = None
      then Some (decode_hex (public_key_hex r)) else pinned svc aid)"
  using assms
  by (auto simp: verify_and_register_def pinned_def Let_def identity_wf_def om.get_put
      verify_agent_signature_Valid_iff split: option.splits)

section \<open>The interface: pinned keys\<close>

locale key_pinning =
  fixes wf :: "'s \<Rightarrow> bool"
    and key_of :: "'s \<Rightarrow> string \<Rightarrow> bytes option"
    and check :: "AgentRecord \<Rightarrow> 's \<Rightarrow> SignatureStatus \<times> 's"
  assumes wf_check: "wf s \<Longrightarrow> wf (snd (check r s))"
    and key_kept: "wf s \<Longrightarrow> key_of s aid = Some key \<Longrightarrow> key_of (snd (check r s)) aid = Some key"
    and valid_pins:
      "wf s \<Longrightarrow> fst (check r s) = Valid \<Longrightarrow>
       key_of (snd (check r s)) (agent_id r) = Some (decode_hex (public_key_hex r))"
begin

text \<open>Verification of a whole sequence of records, in order.\<close>

definition check_all :: "AgentRecord list \<Rightarrow> 's \<Rightarrow> 's" where
  "check_all rs s = fold (\<lambda>r s. snd (check r s)) rs s"

lemma check_all_simps [simp]:
  "check_all [] s = s"
  "check_all (r # rs) s = check_all rs (snd (check r s))"
  by (simp_all add: check_all_def)

lemma wf_check_all: "wf s \<Longrightarrow> wf (check_all rs s)"
  by (induction rs arbitrary: s) (auto intro: wf_check)

lemma key_kept_all:
  "wf s \<Longrightarrow> key_of s aid = Some key \<Longrightarrow> key_of (check_all rs s) aid = Some key"
  by (induction rs arbitrary: s) (auto intro: key_kept wf_check)

text \<open>Two records of one agent that both verify, at any distance, carry the same key.\<close>

lemma valid_same_key:
  assumes "wf s" and "fst (check r s) = Valid"
    and "fst (check r' (check_all rs (snd (check r s)))) = Valid" and "agent_id r' = agent_id r"
  shows "decode_hex (public_key_hex r') = decode_hex (public_key_hex r)"
proof -
  let ?s1 = "snd (check r s)" and ?s2 = "check_all rs (snd (check r s))"
  have wf: "wf ?s1" "wf ?s2" using assms(1) by (auto intro: wf_check wf_check_all)
  have "key_of ?s2 (agent_id r) = Some (decode_hex (public_key_hex r))"
    using assms(1,2) wf by (auto intro: key_kept_all valid_pins)
  then have "key_of (snd (check r' ?s2)) (agent_id r) = Some (decode_hex (public_key_hex r))"
    using wf by (auto intro: key_kept)
  moreover have "key_of (snd (check r' ?s2)) (agent_id r') = Some (decode_hex (public_key_hex r'))"
    using wf assms(3) by (auto intro: valid_pins)
  ultimately show ?thesis using assms(4) by simp
qed

end

text \<open>
  The model's own operations, for every library whose comparison behaves as documented.
\<close>

interpretation ident: key_pinning "\<lambda>svc. memcmp_ok lib \<and> identity_wf svc" pinned
    "verify_and_register lib" for lib
proof unfold_locales
  fix svc r
  assume wf: "memcmp_ok lib \<and> identity_wf svc" and "fst (verify_and_register lib r svc) = Valid"
  then show "pinned (snd (verify_and_register lib r svc)) (agent_id r)
      = Some (decode_hex (public_key_hex r))"
    by (auto simp: verify_and_register_status pinned_verify_and_register split: if_splits option.splits)
qed (auto simp: identity_wf_verify_and_register pinned_verify_and_register)

section \<open>Property\<close>

text \<open>
  Trust on first use.  Of two records of one agent that a node verified as valid, with
  any records verified in between, both carry the same key; another key would need \<^verbatim>\<open>forget_key\<close>.
\<close>

theorem verified_records_share_key:
  assumes "memcmp_ok lib" and "identity_wf svc"
    and "verify_and_register lib r svc = (Valid, svc1)"
    and "fst (verify_and_register lib r' (fold (\<lambda>q s. snd (verify_and_register lib q s)) qs svc1)) = Valid"
    and "agent_id r' = agent_id r"
  shows "decode_hex (public_key_hex r') = decode_hex (public_key_hex r)"
  using ident.valid_same_key [of lib svc r r' qs] assms by (simp add: ident.check_all_def)

theorem verified_records_share_key_witness:
  "fst (verify_and_register (Some sample_sodium) (sample_sign 2 (new_AgentRecord 0))
     (snd (verify_and_register (Some sample_sodium) (sample_sign 1 (new_AgentRecord 0)) new_IdentityService))) \<noteq> Valid"
proof -
  let ?r = "sample_sign 1 (new_AgentRecord 0)" and ?r' = "sample_sign 2 (new_AgentRecord 0)"
  have wf: "identity_wf new_IdentityService" by (simp add: identity_wf_def new_IdentityService_def)
  have "fst (verify_and_register (Some sample_sodium) ?r new_IdentityService) = Valid"
    by (simp add: verify_and_register_status [OF memcmp_ok_sample] verify_sample_sign pinned_def
        new_IdentityService_def omap_get_def)
  then obtain svc1 where v: "verify_and_register (Some sample_sodium) ?r new_IdentityService = (Valid, svc1)"
    by (metis prod.collapse)
  have "decode_hex (public_key_hex ?r') \<noteq> decode_hex (public_key_hex ?r)"
    by (simp add: sample_sign_def decode_encode_hex)
  moreover have "agent_id ?r' = agent_id ?r" by (simp add: sample_sign_def)
  ultimately show ?thesis
    using verified_records_share_key [OF memcmp_ok_sample wf v, of ?r' "[]"] unfolding v by auto
qed

end
