(* ===== verification/Secure_Path.thy ===== *)
theory Secure_Path
  imports Cpp_Text
begin

text \<open>
  The guard against path traversal, which \<^verbatim>\<open>src/src/beacon_net/persistence_service.cpp\<close> and
  \<^verbatim>\<open>src/src/beacon/identity_store.cpp\<close> both define, and the part of the operating system's file
  system that the two use.  What canonicalisation yields, whether a file can be opened for writing,
  whether a rename or a change of permissions succeeds or a directory can be made, and the text of an
  error about a file that is not there depend on the machine: they are the fields of \<open>filesystem\<close>.  The
  contents of files are a map from paths to octets.
\<close>

record filesystem =
  fs_absolute :: "string \<Rightarrow> string"
  weakly_canonical :: "string \<Rightarrow> string + string"
  can_open :: "string \<Rightarrow> bool"
  rename_ok :: "string \<Rightarrow> string \<Rightarrow> bool"
  create_directories_ok :: "string \<Rightarrow> bool"
  chmod_ok :: "string \<Rightarrow> bool"
  missing_message :: "string \<Rightarrow> string"

type_synonym disk = "string \<Rightarrow> bytes option"

definition slash :: char where
  "slash = CHR 0x2F"

definition backslash :: char where
  "backslash = CHR 0x5C"

text \<open>\<^verbatim>\<open>operator/\<close> of \<^verbatim>\<open>std::filesystem::path\<close>: an absolute right operand replaces the left one.\<close>

definition path_append :: "string \<Rightarrow> string \<Rightarrow> string" where
  "path_append base p =
     (if p \<noteq> [] \<and> hd p = slash then p
      else if base = [] \<or> last base = slash then base @ p
      else base @ [slash] @ p)"

text \<open>The textual test on the two canonical paths.\<close>

definition path_escapes :: "string \<Rightarrow> string \<Rightarrow> bool" where
  "path_escapes base_str res_str \<longleftrightarrow>
     length res_str < length base_str \<or>
     take (length base_str) res_str \<noteq> base_str \<or>
     (length res_str > length base_str \<and>
      res_str ! length base_str \<noteq> slash \<and> res_str ! length base_str \<noteq> backslash)"

definition resolve_secure_path :: "filesystem \<Rightarrow> string \<Rightarrow> string \<Rightarrow> string + string" where
  "resolve_secure_path fs base user_path =
     (case weakly_canonical fs (fs_absolute fs base) of
        Inl ec \<Rightarrow> Inl (''Cannot resolve base path: '' @ base @ '' ('' @ ec @ '')'')
      | Inr base_abs \<Rightarrow>
          (case weakly_canonical fs (path_append base_abs user_path) of
             Inl ec \<Rightarrow> Inl (''Cannot resolve path: '' @ user_path @ '' ('' @ ec @ '')'')
           | Inr resolved \<Rightarrow>
               if path_escapes base_abs resolved then Inl (''Path traversal detected: '' @ resolved)
               else Inr resolved))"

section \<open>What the test admits\<close>

lemma path_escapes_iff:
  "\<not> path_escapes b r \<longleftrightarrow> r = b \<or> (\<exists>c rest. (c = slash \<or> c = backslash) \<and> r = b @ c # rest)"
proof
  assume ok: "\<not> path_escapes b r"
  then have "take (length b) r = b" by (auto simp: path_escapes_def)
  then obtain t where r: "r = b @ t" by (metis append_take_drop_id)
  with ok show "r = b \<or> (\<exists>c rest. (c = slash \<or> c = backslash) \<and> r = b @ c # rest)"
    by (cases t) (auto simp: path_escapes_def)
qed (auto simp: path_escapes_def)

text \<open>A file system without links or dots: every path is canonical and everything succeeds.\<close>

definition plain_fs :: filesystem where
  "plain_fs = \<lparr>fs_absolute = (\<lambda>p. p), weakly_canonical = Inr, can_open = (\<lambda>_. True),
     rename_ok = (\<lambda>_ _. True), create_directories_ok = (\<lambda>_. True), chmod_ok = (\<lambda>_. True),
     missing_message = (\<lambda>_. ''No such file or directory'')\<rparr>"

section \<open>Properties\<close>

text \<open>
  A path the guard lets through is the canonical base directory itself or begins with
  it followed by a separator, whatever links and dots the user's path contained.
\<close>

theorem resolved_path_contained:
  assumes "resolve_secure_path fs base user_path = Inr r"
  shows "\<exists>b. weakly_canonical fs (fs_absolute fs base) = Inr b \<and>
     weakly_canonical fs (path_append b user_path) = Inr r \<and>
     (r = b \<or> (\<exists>c rest. c \<in> {slash, backslash} \<and> r = b @ c # rest))"
proof -
  obtain b where b: "weakly_canonical fs (fs_absolute fs base) = Inr b"
    "weakly_canonical fs (path_append b user_path) = Inr r" "\<not> path_escapes b r"
    using assms by (auto simp: resolve_secure_path_def split: sum.splits if_splits)
  then show ?thesis using path_escapes_iff [of b r] by auto
qed

theorem resolved_path_contained_witness:
  "\<exists>b. weakly_canonical plain_fs (fs_absolute plain_fs ''/data'') = Inr b \<and>
     weakly_canonical plain_fs (path_append b ''w'') = Inr ''/data/w'' \<and>
     (''/data/w'' = b \<or> (\<exists>c rest. c \<in> {slash, backslash} \<and> ''/data/w'' = b @ c # rest))"
  by (rule resolved_path_contained)
    (simp add: resolve_secure_path_def plain_fs_def path_append_def path_escapes_def slash_def)

text \<open>
  The separator test has two gaps.  With the root directory as base every file below
  it is refused, because the base already ends in the separator; and a sibling of the base whose
  name continues with a backslash, an ordinary character of a POSIX file name, is let through.
\<close>

theorem guard_gaps:
  "(c \<noteq> slash \<and> c \<noteq> backslash \<longrightarrow> path_escapes [slash] (slash # c # rest)) \<and>
   \<not> path_escapes b (b @ backslash # rest)"
  by (auto simp: path_escapes_def)

theorem guard_gaps_witness:
  "path_escapes [slash] (slash # ''registry.wal'') \<and> \<not> path_escapes ''/data'' (''/data'' @ backslash # ''x'')"
  using guard_gaps [of "CHR ''r''" "''egistry.wal''" "''/data''"] guard_gaps [of "CHR ''r''" "''x''" "''/data''"]
  by (simp add: slash_def backslash_def)

end
