(* ===== verification/Identity_Store.thy ===== *)
theory Identity_Store
  imports Crypto Secure_Path
begin

text \<open>
  \<^verbatim>\<open>src/src/beacon/identity_store.cpp\<close>: the node's own key pair on disk.  The files are contents and
  permission bits per path; the POSIX branch of \<^verbatim>\<open>restrict_file_permissions\<close> is here, the
  Windows one in \<^verbatim>\<open>Key_Files\<close>.  The file system's answers (canonical paths, whether a file can be opened for
  writing) come from \<^typ>\<open>filesystem\<close>; \<open>umask_mode\<close> is what the process gives new files.
\<close>

record NodeIdentity =
  identity_node_id :: string
  identity_public_key_hex :: string
  identity_private_key_path :: string

record IdentityStore =
  store_path :: string

definition new_IdentityStore :: "string \<Rightarrow> IdentityStore" where
  [simp]: "new_IdentityStore path = \<lparr>store_path = path\<rparr>"

record files =
  contents :: disk
  mode :: "string \<Rightarrow> nat"
  umask_mode :: nat

definition EXPECTED_KEY_SIZE :: nat where
  "EXPECTED_KEY_SIZE = 64"

fun read_value_lines :: "string list \<Rightarrow> string \<Rightarrow> string" where
  "read_value_lines [] key = []"
| "read_value_lines (line # ls) key =
     (case find_char (CHR ''='') line of
        None \<Rightarrow> read_value_lines ls key
      | Some equals \<Rightarrow>
          if substr 0 equals line = key then drop (equals + 1) line else read_value_lines ls key)"

definition read_value :: "string \<Rightarrow> string \<Rightarrow> string" where
  "read_value content key = read_value_lines (stream_lines content) key"

text \<open>
  The second copy of the path guard, written as in this file.  The exceptions carry the same texts
  as those of the copy in the persistence service.
\<close>

definition store_resolve_secure_path :: "filesystem \<Rightarrow> string \<Rightarrow> string \<Rightarrow> string + string" where
  "store_resolve_secure_path fs base user_path =
     (case weakly_canonical fs (fs_absolute fs base) of
        Inl ec \<Rightarrow> Inl (''Cannot resolve base path: '' @ base @ '' ('' @ ec @ '')'')
      | Inr base_str \<Rightarrow>
          (case weakly_canonical fs (path_append base_str user_path) of
             Inl ec \<Rightarrow> Inl (''Cannot resolve path: '' @ user_path @ '' ('' @ ec @ '')'')
           | Inr res_str \<Rightarrow>
               if length res_str < length base_str \<or>
                  substr 0 (length base_str) res_str \<noteq> base_str \<or>
                  (length res_str > length base_str \<and>
                   res_str ! length base_str \<noteq> slash \<and> res_str ! length base_str \<noteq> backslash)
               then Inl (''Path traversal detected: '' @ res_str)
               else Inr res_str))"

lemma store_resolve_secure_path_eq [simp]: "store_resolve_secure_path = resolve_secure_path"
  by (auto simp: fun_eq_iff store_resolve_secure_path_def resolve_secure_path_def path_escapes_def
      substr_def split: sum.split)

text \<open>\<^verbatim>\<open>parent_path()\<close> and \<^verbatim>\<open>filename()\<close> of a POSIX path.\<close>

definition path_filename :: "string \<Rightarrow> string" where
  "path_filename p = rev (takeWhile (\<lambda>c. c \<noteq> slash) (rev p))"

definition path_parent :: "string \<Rightarrow> string" where
  "path_parent p =
     (let d = rev (dropWhile (\<lambda>c. c \<noteq> slash) (rev p))
      in if d = [] then [] else if d = [slash] then [slash] else butlast d)"

text \<open>An output stream with \<^verbatim>\<open>trunc\<close>: when the file cannot be opened, nothing is written and no error is seen.\<close>

definition write_file :: "filesystem \<Rightarrow> string \<Rightarrow> bytes \<Rightarrow> files \<Rightarrow> files" where
  "write_file fs path bs f =
     (if can_open fs path then
        f\<lparr>contents := (contents f)(path \<mapsto> bs),
          mode := (if contents f path = None then (mode f)(path := umask_mode f) else mode f)\<rparr>
      else f)"

text \<open>
  \<^verbatim>\<open>chmod(path, 0600)\<close>.  It fails on a file that is not there, and on one that is there where the file
  system refuses it; then the permissions stay as they are, and only a warning goes to the standard
  error stream, which is not part of the files.
\<close>

definition restrict_file_permissions :: "filesystem \<Rightarrow> string \<Rightarrow> files \<Rightarrow> files" where
  "restrict_file_permissions fs path f =
     (if contents f path = None \<or> \<not> chmod_ok fs path then f else f\<lparr>mode := (mode f)(path := 384)\<rparr>)"

definition identity_text :: "NodeIdentity \<Rightarrow> string" where
  "identity_text identity =
     ''node_id='' @ identity_node_id identity @ nl @
     ''public_key_hex='' @ identity_public_key_hex identity @ nl @
     ''private_key_path='' @ identity_private_key_path identity @ nl"

text \<open>The branch for an existing configuration; \<^const>\<open>Inl\<close> is the exception.\<close>

definition load_identity :: "filesystem \<Rightarrow> string \<Rightarrow> string \<Rightarrow> disk \<Rightarrow> string + NodeIdentity" where
  "load_identity fs config_path content d =
     (let key_path = config_path @ ''.key''
      in case d key_path of
           None \<Rightarrow> Inl (''Cannot access key file: '' @ key_path @ '' ('' @ missing_message fs key_path @ '')'')
         | Some key \<Rightarrow>
             if length key \<noteq> EXPECTED_KEY_SIZE then
               Inl (''Key file '' @ key_path @ '' has invalid size ('' @ to_string (length key) @
                    '' bytes), expected '' @ to_string EXPECTED_KEY_SIZE @ '' bytes'')
             else Inr \<lparr>identity_node_id = read_value content ''node_id'',
                       identity_public_key_hex = read_value content ''public_key_hex'',
                       identity_private_key_path = key_path\<rparr>)"

definition load_or_create ::
  "sodium option \<Rightarrow> nat \<Rightarrow> filesystem \<Rightarrow> IdentityStore \<Rightarrow> string \<Rightarrow> files
   \<Rightarrow> (string + NodeIdentity) \<times> files" where
  "load_or_create lib seed fs store node f =
     (let base = (if path_parent (store_path store) = [] then ''.'' else path_parent (store_path store))
      in case store_resolve_secure_path fs base (path_filename (store_path store)) of
           Inl e \<Rightarrow> (Inl e, f)
         | Inr config_path \<Rightarrow>
             (case contents f config_path of
                Some bs \<Rightarrow> (load_identity fs config_path (string_of_bytes bs) (contents f), f)
              | None \<Rightarrow>
                  (if \<not> create_directories_ok fs (path_parent config_path) then
                     (Inl (''cannot create '' @ path_parent config_path), f)
                   else let keypair = generate_ed25519_keypair lib seed;
                       key_path = config_path @ ''.key'';
                       f = write_file fs key_path (kp_secret_key keypair) f;
                       f = restrict_file_permissions fs key_path f;
                       identity = \<lparr>identity_node_id = node,
                                   identity_public_key_hex = encode_hex (kp_public_key keypair),
                                   identity_private_key_path = key_path\<rparr>;
                       f = write_file fs config_path (bytes_of_string (identity_text identity)) f
                   in (Inr identity, f))))"

section \<open>Reading the text back\<close>

lemma value_line:
  "\<lbrakk>newline \<notin> set k; newline \<notin> set v\<rbrakk> \<Longrightarrow>
   stream_lines ((k @ CHR ''='' # v) @ newline # rest) = (k @ CHR ''='' # v) # stream_lines rest"
  by (rule stream_lines_Cons) (auto simp: newline_def)

lemma read_value_found:
  "\<lbrakk>newline \<notin> set k; newline \<notin> set v; CHR ''='' \<notin> set k\<rbrakk> \<Longrightarrow>
   read_value ((k @ CHR ''='' # v) @ newline # rest) k = v"
  unfolding read_value_def by (subst value_line) (simp_all add: substr_def find_char_append)

lemma read_value_skip:
  "\<lbrakk>newline \<notin> set k'; newline \<notin> set v; CHR ''='' \<notin> set k'; k' \<noteq> k\<rbrakk> \<Longrightarrow>
   read_value ((k' @ CHR ''='' # v) @ newline # rest) k = read_value rest k"
  unfolding read_value_def by (subst value_line) (simp_all add: substr_def find_char_append)

lemma read_identity_text:
  assumes "newline \<notin> set (identity_node_id i)" and "newline \<notin> set (identity_public_key_hex i)"
  shows "read_value (identity_text i) ''node_id'' = identity_node_id i"
    and "read_value (identity_text i) ''public_key_hex'' = identity_public_key_hex i"
proof -
  let ?rest = "''public_key_hex='' @ identity_public_key_hex i @ nl @
     ''private_key_path='' @ identity_private_key_path i @ nl"
  have t: "identity_text i = (''node_id'' @ CHR ''='' # identity_node_id i) @ newline # ?rest"
    by (simp add: identity_text_def nl_def)
  show "read_value (identity_text i) ''node_id'' = identity_node_id i"
    unfolding t using assms(1) by (intro read_value_found) (simp_all add: newline_def)
  have "read_value (identity_text i) ''public_key_hex'' = read_value ?rest ''public_key_hex''"
    unfolding t using assms(1) by (intro read_value_skip) (simp_all add: newline_def)
  also have "?rest = (''public_key_hex'' @ CHR ''='' # identity_public_key_hex i) @ newline #
      ''private_key_path='' @ identity_private_key_path i @ nl"
    by (simp add: nl_def)
  also have "read_value \<dots> ''public_key_hex'' = identity_public_key_hex i"
    using assms(2) by (intro read_value_found) (simp_all add: newline_def)
  finally show "read_value (identity_text i) ''public_key_hex'' = identity_public_key_hex i" .
qed

text \<open>The files that a first start leaves.\<close>

lemma first_start:
  assumes "resolve_secure_path fs (if path_parent (store_path st) = [] then ''.'' else path_parent (store_path st))
      (path_filename (store_path st)) = Inr c"
    and "contents f c = None" and "can_open fs c" and "can_open fs (c @ ''.key'')"
    and "create_directories_ok fs (path_parent c)"
    and "load_or_create lib seed fs st node f = (r, f')"
  shows "r = Inr \<lparr>identity_node_id = node,
       identity_public_key_hex = encode_hex (kp_public_key (generate_ed25519_keypair lib seed)),
       identity_private_key_path = c @ ''.key''\<rparr>"
    and "contents f' = (contents f)(c @ ''.key'' \<mapsto> kp_secret_key (generate_ed25519_keypair lib seed),
       c \<mapsto> bytes_of_string (identity_text (projr r)))"
    and "chmod_ok fs (c @ ''.key'') \<Longrightarrow> mode f' (c @ ''.key'') = 384"
  using assms
  by (auto simp: load_or_create_def write_file_def restrict_file_permissions_def Let_def split: sum.splits)

text \<open>The directory and the file name that a store resolves.\<close>

definition store_config :: "filesystem \<Rightarrow> IdentityStore \<Rightarrow> string + string" where
  "store_config fs st =
     resolve_secure_path fs (if path_parent (store_path st) = [] then ''.'' else path_parent (store_path st))
       (path_filename (store_path st))"

text \<open>A start on the two files of an identity.\<close>

lemma later_start:
  assumes "store_config fs st = Inr c" and "contents f c = Some (bytes_of_string (identity_text i))"
    and "contents f (c @ ''.key'') = Some secret" and "length secret = EXPECTED_KEY_SIZE"
    and "newline \<notin> set (identity_node_id i)" and "identity_public_key_hex i = encode_hex key"
    and "identity_private_key_path i = c @ ''.key''"
  shows "load_or_create lib seed fs st node f = (Inr i, f)"
proof -
  have "newline \<notin> set (identity_public_key_hex i)"
    using no_space_no_newline [OF no_space_encode_hex] assms(6) by metis
  then have "read_value (identity_text i) ''node_id'' = identity_node_id i"
    "read_value (identity_text i) ''public_key_hex'' = identity_public_key_hex i"
    using read_identity_text [of i] assms(5) by simp_all
  then show ?thesis
    using assms(1-4,7) by (simp add: load_or_create_def load_identity_def store_config_def Let_def)
qed

section \<open>Properties\<close>

text \<open>
  A node keeps its identity over restarts.  After a first start that could write its
  two files with a secret key of the full length, every later start, whatever node id it is given
  and whatever key pair it would have generated, answers the identity of the first and changes
  nothing; the secret key is readable by its owner only if the permissions could be set, and the
  start succeeds whether or not they could.
\<close>

theorem identity_survives_restart:
  assumes "store_config fs st = Inr c" and "contents f c = None" and "can_open fs c" and "can_open fs (c @ ''.key'')"
    and "create_directories_ok fs (path_parent c)" and "newline \<notin> set node"
    and "length (kp_secret_key (generate_ed25519_keypair lib seed)) = EXPECTED_KEY_SIZE"
    and "load_or_create lib seed fs st node f = (r, f')"
  shows "load_or_create lib seed' fs st node' f' = (r, f') \<and>
     (chmod_ok fs (c @ ''.key'') \<longrightarrow> mode f' (c @ ''.key'') = 384) \<and>
     map_option identity_node_id (case r of Inl _ \<Rightarrow> None | Inr i \<Rightarrow> Some i) = Some node"
proof -
  let ?i = "\<lparr>identity_node_id = node,
       identity_public_key_hex = encode_hex (kp_public_key (generate_ed25519_keypair lib seed)),
       identity_private_key_path = c @ ''.key''\<rparr>"
  note first = first_start [OF assms(1) [unfolded store_config_def] assms(2-5,8)]
  have "load_or_create lib seed' fs st node' f' = (Inr ?i, f')"
    by (rule later_start [OF assms(1) _ _ assms(7)]) (use first assms(6) in simp_all)
  then show ?thesis using first by simp
qed

theorem identity_survives_restart_witness:
  "let fs = plain_fs; st = \<lparr>store_path = ''.beaconnode/identity.txt''\<rparr>;
       f = \<lparr>contents = Map.empty, mode = (\<lambda>_. 0), umask_mode = 420\<rparr>;
       (r, f') = load_or_create (Some sample_sodium) 1 fs st ''n1'' f
   in load_or_create (Some sample_sodium) 2 fs st ''n2'' f' = (r, f')"
proof -
  let ?st = "\<lparr>store_path = ''.beaconnode/identity.txt''\<rparr>"
    and ?f = "\<lparr>contents = Map.empty, mode = (\<lambda>_. 0), umask_mode = 420\<rparr>"
  have c: "store_config plain_fs ?st = Inr ''.beaconnode/identity.txt''"
    by (simp add: store_config_def path_parent_def path_filename_def resolve_secure_path_def plain_fs_def
        path_append_def path_escapes_def slash_def Let_def)
  obtain r f' where l: "load_or_create (Some sample_sodium) 1 plain_fs ?st ''n1'' ?f = (r, f')"
    by (cases "load_or_create (Some sample_sodium) 1 plain_fs ?st ''n1'' ?f")
  have "load_or_create (Some sample_sodium) 2 plain_fs ?st ''n2'' f' = (r, f')"
    using identity_survives_restart [OF c _ _ _ _ _ _ l]
    by (simp add: plain_fs_def newline_def generate_ed25519_keypair_def sample_sodium_def EXPECTED_KEY_SIZE_def)
  then show ?thesis unfolding Let_def l by simp
qed

text \<open>
  A build without libsodium cannot start twice.  The first start succeeds and leaves
  an empty key file, whose size every later start refuses.
\<close>

theorem no_libsodium_second_start_fails:
  assumes "store_config fs st = Inr c" and "contents f c = None" and "can_open fs c" and "can_open fs (c @ ''.key'')"
    and "create_directories_ok fs (path_parent c)"
    and "load_or_create None seed fs st node f = (r, f')"
  shows "(case r of Inl _ \<Rightarrow> False | Inr _ \<Rightarrow> True) \<and>
     (case load_or_create None seed' fs st node' f' of
        (Inl _, f'') \<Rightarrow> f'' = f' | (Inr _, _) \<Rightarrow> False)"
proof -
  note first = first_start [OF assms(1) [unfolded store_config_def] assms(2-6)]
  then have "contents f' (c @ ''.key'') = Some []" "contents f' c = Some (bytes_of_string (identity_text (projr r)))"
    by (simp_all add: generate_ed25519_keypair_def)
  then show ?thesis
    using first(1) assms(1)
    by (simp add: load_or_create_def load_identity_def store_config_def EXPECTED_KEY_SIZE_def Let_def)
qed

theorem no_libsodium_second_start_fails_witness:
  "let fs = plain_fs; st = \<lparr>store_path = ''.beaconnode/identity.txt''\<rparr>;
       f = \<lparr>contents = Map.empty, mode = (\<lambda>_. 0), umask_mode = 420\<rparr>;
       (r, f') = load_or_create None 0 fs st ''n1'' f
   in case load_or_create None 0 fs st ''n1'' f' of (Inl _, _) \<Rightarrow> True | (Inr _, _) \<Rightarrow> False"
proof -
  let ?st = "\<lparr>store_path = ''.beaconnode/identity.txt''\<rparr>"
    and ?f = "\<lparr>contents = Map.empty, mode = (\<lambda>_. 0), umask_mode = 420\<rparr>"
  have c: "store_config plain_fs ?st = Inr ''.beaconnode/identity.txt''"
    by (simp add: store_config_def path_parent_def path_filename_def resolve_secure_path_def plain_fs_def
        path_append_def path_escapes_def slash_def Let_def)
  obtain r f' where l: "load_or_create None 0 plain_fs ?st ''n1'' ?f = (r, f')"
    by (cases "load_or_create None 0 plain_fs ?st ''n1'' ?f")
  show ?thesis
    using no_libsodium_second_start_fails [OF c _ _ _ _ l, of 0 "''n1''"] unfolding Let_def l
    by (auto simp: plain_fs_def split: prod.splits sum.splits)
qed

end
