(* ===== verification/Agent_Registry.thy ===== *)
theory Agent_Registry
  imports Identity_Service Cpp_Sort
begin

text \<open>
  \<^verbatim>\<open>src/src/beacon/agent_registry.cpp\<close>: the vector of agent records with its revision and key rules.
  Each method is atomic (it holds the mutex), except that \<^verbatim>\<open>upsert\<close> calls the upsert callback
  after the lock is released; the callback is a state transformer on an environment of type
  \<open>'e\<close>, which the operations thread explicitly.
\<close>

record 'e AgentRegistry =
  records :: "AgentRecord list"
  on_upsert :: "(AgentRecord \<Rightarrow> 'e \<Rightarrow> 'e) option"

definition new_AgentRegistry :: "'e AgentRegistry" where
  "new_AgentRegistry = \<lparr>records = [], on_upsert = None\<rparr>"

definition set_upsert_callback ::
  "(AgentRecord \<Rightarrow> 'e \<Rightarrow> 'e) option \<Rightarrow> 'e AgentRegistry \<Rightarrow> 'e AgentRegistry" where
  "set_upsert_callback cb reg = reg\<lparr>on_upsert := cb\<rparr>"

text \<open>\<^verbatim>\<open>std::find_if\<close> on the agent id: the index of the first match, \<^const>\<open>None\<close> for \<^verbatim>\<open>end()\<close>.\<close>

fun find_agent :: "string \<Rightarrow> AgentRecord list \<Rightarrow> nat option" where
  "find_agent aid [] = None"
| "find_agent aid (r # rs) =
     (if agent_id r = aid then Some 0 else map_option Suc (find_agent aid rs))"

definition notify_upsert :: "AgentRecord \<Rightarrow> 'e AgentRegistry \<Rightarrow> 'e \<Rightarrow> 'e" where
  "notify_upsert r reg env = (case on_upsert reg of None \<Rightarrow> env | Some cb \<Rightarrow> cb r env)"

text \<open>The locked part of \<^verbatim>\<open>upsert\<close>: the accepted flag and the new vector.\<close>

definition upsert_records :: "AgentRecord \<Rightarrow> AgentRecord list \<Rightarrow> bool \<times> AgentRecord list" where
  "upsert_records r rs =
     (case find_agent (agent_id r) rs of
        None \<Rightarrow> (True, rs @ [r])
      | Some i \<Rightarrow>
          (let existing = rs ! i
           in if revision r < revision existing then (False, rs)
              else if public_key_hex existing \<noteq> [] \<and> public_key_hex r \<noteq> [] \<and>
                      public_key_hex existing \<noteq> public_key_hex r then (False, rs)
              else (True, rs[i := r])))"

definition upsert ::
  "AgentRecord \<Rightarrow> 'e AgentRegistry \<Rightarrow> 'e \<Rightarrow> bool \<times> 'e AgentRegistry \<times> 'e" where
  "upsert r reg env =
     (let (ok, rs) = upsert_records r (records reg);
          reg' = reg\<lparr>records := rs\<rparr>
      in if ok then (True, reg', notify_upsert r reg' env) else (False, reg', env))"

definition refresh_heartbeat ::
  "string \<Rightarrow> time_point \<Rightarrow> u64 \<Rightarrow> 'e AgentRegistry \<Rightarrow> bool \<times> 'e AgentRegistry" where
  "refresh_heartbeat aid expires rvn reg =
     (case find_agent aid (records reg) of
        None \<Rightarrow> (False, reg)
      | Some i \<Rightarrow>
          (let existing = records reg ! i
           in if rvn < revision existing then (False, reg)
              else (True, reg\<lparr>records := (records reg)[i := existing\<lparr>expires_at := expires, revision := rvn\<rparr>]\<rparr>)))"

text \<open>
  \<^verbatim>\<open>merge\<close>: with an identity service every record is verified first, and only the statuses
  \<^const>\<open>Valid\<close> and \<^const>\<open>Missing\<close> let it through; the result counts the accepted records.
\<close>

fun merge ::
  "sodium option \<Rightarrow> AgentRecord list \<Rightarrow> IdentityService option \<Rightarrow> 'e AgentRegistry \<Rightarrow> 'e \<Rightarrow> nat
   \<Rightarrow> nat \<times> IdentityService option \<times> 'e AgentRegistry \<times> 'e" where
  "merge lib [] identity reg env accepted = (accepted, identity, reg, env)"
| "merge lib (r # rs) identity reg env accepted =
     (let (status, identity') =
            (case identity of
               None \<Rightarrow> (Valid, None)
             | Some svc \<Rightarrow> (let (st, svc') = verify_and_register lib r svc in (st, Some svc')))
      in if identity \<noteq> None \<and> status \<noteq> Valid \<and> status \<noteq> Missing
         then merge lib rs identity' reg env accepted
         else let (ok, reg', env') = upsert r reg env
              in merge lib rs identity' reg' env' (if ok then accepted + 1 else accepted))"

definition entries_after_revision ::
  "u64 \<Rightarrow> u64 \<Rightarrow> 'e AgentRegistry \<Rightarrow> AgentRecord list" where
  "entries_after_revision rvn limit reg =
     (let selected = filter (\<lambda>r. revision r > rvn) (records reg);
          selected = std_sort (\<lambda>left right. revision left < revision right) selected
      in if limit > 0 \<and> length selected > unat limit then take (unat limit) selected else selected)"

definition find_record :: "string \<Rightarrow> 'e AgentRegistry \<Rightarrow> AgentRecord option" where
  "find_record aid reg =
     (case find_agent aid (records reg) of None \<Rightarrow> None | Some i \<Rightarrow> Some (records reg ! i))"

definition list_records :: "'e AgentRegistry \<Rightarrow> AgentRecord list" where
  "list_records reg = records reg"

definition purge_expired :: "time_point \<Rightarrow> 'e AgentRegistry \<Rightarrow> nat \<times> 'e AgentRegistry" where
  "purge_expired now reg =
     (let before = length (records reg);
          reg' = reg\<lparr>records := filter (\<lambda>r. \<not> expires_at r \<le> now) (records reg)\<rparr>
      in (before - length (records reg'), reg'))"

text \<open>
  \<^verbatim>\<open>load_from_persistence\<close>: in the branch for a newer revision the assignment of the whole record
  follows the assignment of the expiry, so the expiry of the incoming record is kept.
\<close>

fun load_records :: "time_point \<Rightarrow> AgentRecord list \<Rightarrow> AgentRecord list \<Rightarrow> AgentRecord list" where
  "load_records far_future [] rs = rs"
| "load_records far_future (r # new) rs =
     load_records far_future new
       (case find_agent (agent_id r) rs of
          None \<Rightarrow> rs @ [r\<lparr>expires_at := far_future\<rparr>]
        | Some i \<Rightarrow>
            if revision r > revision (rs ! i)
            then (rs[i := (rs ! i)\<lparr>expires_at := far_future\<rparr>])[i := r]
            else rs)"

definition load_from_persistence ::
  "time_point \<Rightarrow> AgentRecord list \<Rightarrow> 'e AgentRegistry \<Rightarrow> 'e AgentRegistry" where
  "load_from_persistence now new reg =
     (let far_future = now + hours (24 * 365)
      in reg\<lparr>records := load_records far_future new (records reg)\<rparr>)"

definition stats :: "'e AgentRegistry \<Rightarrow> RegistryStats" where
  "stats reg =
     \<lparr>active_agents = length (records reg),
      highest_revision = fold (\<lambda>r h. max h (revision r)) (records reg) 0\<rparr>"

section \<open>The vector as a map\<close>

definition lookup :: "AgentRecord list \<Rightarrow> string \<Rightarrow> AgentRecord option" where
  "lookup rs aid = map_option ((!) rs) (find_agent aid rs)"

lemma lookup_simps [simp]:
  "lookup [] aid = None"
  "lookup (r # rs) aid = (if agent_id r = aid then Some r else lookup rs aid)"
  by (simp_all add: lookup_def option.map_comp comp_def)

lemma find_record_lookup: "find_record aid reg = lookup (records reg) aid"
  by (simp add: find_record_def lookup_def option.case_eq_if map_option_case)

lemma find_agent_None_iff: "find_agent aid rs = None \<longleftrightarrow> aid \<notin> agent_id ` set rs"
  by (induction rs) auto

lemma find_agent_Some:
  "find_agent aid rs = Some i \<Longrightarrow> i < length rs \<and> agent_id (rs ! i) = aid"
  by (induction rs arbitrary: i) (auto split: if_splits)

lemma lookup_None_iff: "lookup rs aid = None \<longleftrightarrow> aid \<notin> agent_id ` set rs"
  by (simp add: lookup_def find_agent_None_iff)

lemma lookup_SomeD: "lookup rs aid = Some r \<Longrightarrow> r \<in> set rs \<and> agent_id r = aid"
  by (induction rs) (auto split: if_splits)

lemma lookup_append: "lookup (rs @ [r]) aid =
  (case lookup rs aid of Some e \<Rightarrow> Some e | None \<Rightarrow> if agent_id r = aid then Some r else None)"
  by (induction rs) auto

text \<open>Replacing the first record of an agent by one with the same id changes that lookup only.\<close>

lemma lookup_update:
  "\<lbrakk>find_agent aid rs = Some i; agent_id r = aid\<rbrakk> \<Longrightarrow>
   lookup (rs[i := r]) aid' = (if aid' = aid then Some r else lookup rs aid')"
  by (induction rs arbitrary: i) (auto split: if_splits)

lemma agent_ids_update:
  "\<lbrakk>find_agent aid rs = Some i; agent_id r = aid\<rbrakk> \<Longrightarrow> map agent_id (rs[i := r]) = map agent_id rs"
  by (induction rs arbitrary: i) (auto split: if_splits)

definition registry_wf :: "AgentRecord list \<Rightarrow> bool" where
  "registry_wf rs \<longleftrightarrow> distinct (map agent_id rs) \<and> list_all record_wf rs"

lemma registry_wf_Nil [simp]: "registry_wf []"
  by (simp add: registry_wf_def)

lemma registry_wf_append:
  "\<lbrakk>registry_wf rs; find_agent (agent_id r) rs = None; record_wf r\<rbrakk> \<Longrightarrow> registry_wf (rs @ [r])"
  by (auto simp: registry_wf_def find_agent_None_iff)

lemma registry_wf_update:
  "\<lbrakk>registry_wf rs; find_agent (agent_id r) rs = Some i; record_wf r\<rbrakk> \<Longrightarrow> registry_wf (rs[i := r])"
  unfolding registry_wf_def
  by (auto simp: agent_ids_update list_all_iff dest: set_update_subset_insert [THEN subsetD])

lemma registry_wf_lookup:
  "registry_wf rs \<Longrightarrow> lookup rs aid = Some r \<longleftrightarrow> r \<in> set rs \<and> agent_id r = aid"
  unfolding registry_wf_def by (induction rs) auto

section \<open>The revision rule\<close>

definition key_compatible :: "AgentRecord \<Rightarrow> AgentRecord \<Rightarrow> bool" where
  "key_compatible e r \<longleftrightarrow>
     public_key_hex e = [] \<or> public_key_hex r = [] \<or> public_key_hex e = public_key_hex r"

text \<open>When a record may take the place of what is stored for its agent.\<close>

definition supersedes :: "AgentRecord \<Rightarrow> AgentRecord option \<Rightarrow> bool" where
  "supersedes r old =
     (case old of None \<Rightarrow> True | Some e \<Rightarrow> revision e \<le> revision r \<and> key_compatible e r)"

lemma upsert_records_alt:
  "upsert_records r rs =
     (if supersedes r (lookup rs (agent_id r))
      then (True, case find_agent (agent_id r) rs of None \<Rightarrow> rs @ [r] | Some i \<Rightarrow> rs[i := r])
      else (False, rs))"
  by (auto simp: upsert_records_def supersedes_def lookup_def key_compatible_def Let_def not_less
      split: option.splits)

lemma upsert_records_accepts: "fst (upsert_records r rs) = supersedes r (lookup rs (agent_id r))"
  by (simp add: upsert_records_alt)

lemma lookup_place:
  "lookup (case find_agent (agent_id r) rs of None \<Rightarrow> rs @ [r] | Some i \<Rightarrow> rs[i := r]) aid
     = (if aid = agent_id r then Some r else lookup rs aid)"
proof (cases "find_agent (agent_id r) rs")
  case None
  then have "lookup rs (agent_id r) = None" by (simp add: lookup_def)
  with None show ?thesis by (auto simp: lookup_append split: option.splits)
next
  case (Some i)
  then show ?thesis by (simp add: lookup_update)
qed

lemma lookup_upsert_records:
  "lookup (snd (upsert_records r rs)) aid =
     (if supersedes r (lookup rs (agent_id r)) \<and> aid = agent_id r then Some r else lookup rs aid)"
  by (simp add: upsert_records_alt lookup_place)

lemma registry_wf_upsert_records:
  "registry_wf rs \<Longrightarrow> record_wf r \<Longrightarrow> registry_wf (snd (upsert_records r rs))"
  by (auto simp: upsert_records_alt intro: registry_wf_append registry_wf_update
      split: option.splits)

section \<open>The interface: last writer wins\<close>

text \<open>
  Records in which, per agent, keys never conflict and the revision determines the record.  On
  such records the outcome of a series of upserts depends on the set of records only.
\<close>

definition conflict_free :: "AgentRecord set \<Rightarrow> bool" where
  "conflict_free A \<longleftrightarrow>
     (\<forall>r\<in>A. \<forall>r'\<in>A. agent_id r = agent_id r' \<longrightarrow>
        key_compatible r r' \<and> (revision r = revision r' \<longrightarrow> r = r'))"

lemma conflict_free_subset: "conflict_free A \<Longrightarrow> B \<subseteq> A \<Longrightarrow> conflict_free B"
  unfolding conflict_free_def by blast

lemma conflict_freeD:
  "\<lbrakk>conflict_free A; r \<in> A; r' \<in> A; agent_id r = agent_id r'; revision r = revision r'\<rbrakk> \<Longrightarrow> r = r'"
  by (simp add: conflict_free_def)

locale revision_registry =
  fixes get :: "'s \<Rightarrow> string \<Rightarrow> AgentRecord option"
    and put :: "AgentRecord \<Rightarrow> 's \<Rightarrow> bool \<times> 's"
  assumes put_accepts: "fst (put r s) = supersedes r (get s (agent_id r))"
    and get_put: "get (snd (put r s)) aid =
      (if supersedes r (get s (agent_id r)) \<and> aid = agent_id r then Some r else get s aid)"
    and get_id: "get s aid = Some e \<Longrightarrow> agent_id e = aid"
begin

definition put_all :: "AgentRecord list \<Rightarrow> 's \<Rightarrow> 's" where
  "put_all rs s = fold (\<lambda>r s. snd (put r s)) rs s"

lemma put_all_simps [simp]:
  "put_all [] s = s"
  "put_all (r # rs) s = put_all rs (snd (put r s))"
  by (simp_all add: put_all_def)

lemma put_mono:
  "get s aid = Some e \<Longrightarrow> \<exists>e'. get (snd (put r s)) aid = Some e' \<and> revision e \<le> revision e'"
  by (auto simp: get_put supersedes_def)

lemma put_all_mono:
  "get s aid = Some e \<Longrightarrow> \<exists>e'. get (put_all rs s) aid = Some e' \<and> revision e \<le> revision e'"
proof (induction rs arbitrary: s e)
  case (Cons r rs)
  obtain e1 where e1: "get (snd (put r s)) aid = Some e1" "revision e \<le> revision e1"
    using put_mono [OF Cons.prems] by blast
  from Cons.IH [OF e1(1)] e1(2) show ?case
    by (auto intro: order_trans)
qed simp

text \<open>What may end up stored for an agent: what was there, and what is offered.\<close>

definition candidates :: "AgentRecord list \<Rightarrow> 's \<Rightarrow> string \<Rightarrow> AgentRecord set" where
  "candidates rs s aid = set_option (get s aid) \<union> {r \<in> set rs. agent_id r = aid}"

definition stored :: "'s \<Rightarrow> AgentRecord set" where
  "stored s = {r. \<exists>aid. get s aid = Some r}"

lemma stored_put: "stored (snd (put r s)) \<subseteq> insert r (stored s)"
  by (auto simp: stored_def get_put split: if_splits)

lemma candidates_put:
  "candidates rs (snd (put r s)) aid =
     (if aid = agent_id r \<and> supersedes r (get s aid) then insert r {c \<in> set rs. agent_id c = aid}
      else candidates rs s aid)"
  by (auto simp: candidates_def get_put)

lemma candidates_Cons:
  "candidates (r # rs) s aid = (if aid = agent_id r then {r} else {}) \<union> candidates rs s aid"
  by (auto simp: candidates_def)

lemma put_keeps_maxima:
  assumes cf: "conflict_free (stored s \<union> set (r # rs))"
  shows "(m \<in> candidates rs (snd (put r s)) aid \<and>
            (\<forall>c\<in>candidates rs (snd (put r s)) aid. revision c \<le> revision m)) \<longleftrightarrow>
         (m \<in> candidates (r # rs) s aid \<and>
            (\<forall>c\<in>candidates (r # rs) s aid. revision c \<le> revision m))"
proof (rule maxima_drop)
  show "candidates rs (snd (put r s)) aid \<subseteq> candidates (r # rs) s aid"
    unfolding candidates_put candidates_Cons by (auto simp: candidates_def)
next
  fix c
  assume c: "c \<in> candidates (r # rs) s aid" "c \<notin> candidates rs (snd (put r s)) aid"
  then have aid: "aid = agent_id r"
    by (auto simp: candidates_put candidates_Cons split: if_splits)
  have stored: "key_compatible e r \<and> (revision e = revision r \<longrightarrow> e = r)"
    if "get s aid = Some e" for e
  proof -
    have "e \<in> stored s" "agent_id e = agent_id r"
      using that aid get_id by (auto simp: stored_def)
    then show ?thesis using cf unfolding conflict_free_def by auto
  qed
  show "\<exists>c'\<in>candidates rs (snd (put r s)) aid. revision c < revision c'"
  proof (cases "supersedes r (get s aid)")
    case True
    then have "get s aid = Some c" "c \<noteq> r"
      using c aid unfolding candidates_put candidates_Cons by (auto simp: candidates_def)
    then have "revision c < revision r"
      using True stored [of c] by (auto simp: supersedes_def)
    then show ?thesis using True aid by (auto simp: candidates_put)
  next
    case False
    then obtain e where e: "get s aid = Some e" "\<not> (revision e \<le> revision r \<and> key_compatible e r)"
      by (auto simp: supersedes_def split: option.splits)
    then have "revision r < revision e" using stored by auto
    moreover have "c = r" using c aid False by (auto simp: candidates_put candidates_Cons)
    ultimately show ?thesis using e(1) False unfolding candidates_put by (auto simp: candidates_def)
  qed
qed

theorem put_all_newest:
  assumes "conflict_free (stored s \<union> set rs)"
  shows "get (put_all rs s) aid = Some m \<longleftrightarrow>
     m \<in> candidates rs s aid \<and> (\<forall>c\<in>candidates rs s aid. revision c \<le> revision m)"
  using assms
proof (induction rs arbitrary: s)
  case Nil
  then show ?case by (auto simp: candidates_def)
next
  case (Cons r rs)
  have "conflict_free (stored (snd (put r s)) \<union> set rs)"
    using Cons.prems stored_put [of r s] by (elim conflict_free_subset) auto
  from Cons.IH [OF this] put_keeps_maxima [OF Cons.prems] show ?case by simp
qed

corollary put_all_order_irrelevant:
  assumes "conflict_free (stored s \<union> set rs)" and "set rs' = set rs"
  shows "get (put_all rs' s) aid = get (put_all rs s) aid"
proof -
  have "candidates rs' s aid = candidates rs s aid"
    using assms(2) by (simp add: candidates_def)
  then have "get (put_all rs' s) aid = Some m \<longleftrightarrow> get (put_all rs s) aid = Some m" for m
    using assms by (simp add: put_all_newest)
  then show ?thesis by (metis option.exhaust)
qed

end

interpretation rr: revision_registry lookup upsert_records
  by unfold_locales
    (simp_all add: upsert_records_accepts lookup_upsert_records, simp add: lookup_SomeD)

section \<open>Heartbeats, purging and selection\<close>

lemma upsert_alt:
  "upsert r reg env =
     (fst (upsert_records r (records reg)), reg\<lparr>records := snd (upsert_records r (records reg))\<rparr>,
      if fst (upsert_records r (records reg)) then notify_upsert r reg env else env)"
  by (simp add: upsert_def notify_upsert_def case_prod_unfold Let_def)

lemma refresh_heartbeat_accepts:
  "fst (refresh_heartbeat aid t n reg) \<longleftrightarrow>
     (\<exists>e. lookup (records reg) aid = Some e \<and> revision e \<le> n)"
  by (auto simp: refresh_heartbeat_def lookup_def Let_def not_less split: option.splits)

lemma lookup_refresh_heartbeat:
  "lookup (records (snd (refresh_heartbeat aid t n reg))) aid' =
     (case lookup (records reg) aid of
        Some e \<Rightarrow> if revision e \<le> n \<and> aid' = aid then Some (e\<lparr>expires_at := t, revision := n\<rparr>)
                  else lookup (records reg) aid'
      | None \<Rightarrow> lookup (records reg) aid')"
proof (cases "find_agent aid (records reg)")
  case None
  then show ?thesis by (simp add: refresh_heartbeat_def lookup_def)
next
  case (Some i)
  then have "agent_id (records reg ! i) = aid" by (simp add: find_agent_Some)
  moreover have "lookup (records reg) aid = Some (records reg ! i)" using Some by (simp add: lookup_def)
  ultimately show ?thesis
    using Some by (auto simp: refresh_heartbeat_def lookup_update Let_def not_less)
qed

lemma registry_wf_refresh_heartbeat:
  assumes "registry_wf (records reg)"
  shows "registry_wf (records (snd (refresh_heartbeat aid t n reg)))"
proof (cases "find_agent aid (records reg)")
  case None
  with assms show ?thesis by (simp add: refresh_heartbeat_def)
next
  case (Some i)
  then have i: "agent_id (records reg ! i) = aid" "i < length (records reg)"
    by (simp_all add: find_agent_Some)
  with assms have "record_wf (records reg ! i)" by (simp add: registry_wf_def list_all_length)
  with assms Some i show ?thesis
    by (auto simp: refresh_heartbeat_def Let_def intro: registry_wf_update)
qed

lemma records_purge_expired:
  "records (snd (purge_expired now reg)) = filter (\<lambda>r. now < expires_at r) (records reg)"
  by (simp add: purge_expired_def Let_def not_le)

lemma fst_purge_expired:
  "fst (purge_expired now reg) = length (filter (\<lambda>r. expires_at r \<le> now) (records reg))"
  using sum_length_filter_compl [of "\<lambda>r. expires_at r \<le> now" "records reg"]
  by (simp add: purge_expired_def Let_def)

lemma registry_wf_filter: "registry_wf rs \<Longrightarrow> registry_wf (filter P rs)"
  by (auto simp: registry_wf_def list_all_iff distinct_map_filter)

lemma lookup_filter:
  "registry_wf rs \<Longrightarrow> lookup (filter P rs) aid =
     (case lookup rs aid of Some r \<Rightarrow> if P r then Some r else None | None \<Rightarrow> None)"
proof (induction rs)
  case (Cons r rs)
  then have wf: "registry_wf rs" and new: "agent_id r \<notin> agent_id ` set rs"
    by (simp_all add: registry_wf_def)
  show ?case
  proof (cases "agent_id r = aid")
    case True
    with new have "lookup (filter P rs) aid = None" by (auto simp: lookup_None_iff)
    with True show ?thesis by simp
  next
    case False
    with Cons.IH [OF wf] show ?thesis by simp
  qed
qed simp

text \<open>The selection that \<^verbatim>\<open>entries_after_revision\<close> sorts and truncates.\<close>

definition newer_sorted :: "u64 \<Rightarrow> AgentRecord list \<Rightarrow> AgentRecord list" where
  "newer_sorted n rs =
     std_sort (\<lambda>left right. revision left < revision right) (filter (\<lambda>r. n < revision r) rs)"

lemma entries_after_revision_alt:
  "entries_after_revision n limit reg =
     (if limit = 0 then newer_sorted n (records reg)
      else take (unat limit) (newer_sorted n (records reg)))"
  by (auto simp: entries_after_revision_def newer_sorted_def Let_def word_neq_0_conv)

lemma set_newer_sorted: "set (newer_sorted n rs) = {r \<in> set rs. n < revision r}"
  by (auto simp: newer_sorted_def std.srt_set)

lemma sorted_newer_sorted: "sorted_wrt (\<lambda>a b. revision a \<le> revision b) (newer_sorted n rs)"
  using std.srt_sorted [OF strict_weak_less [of revision]]
  by (simp add: newer_sorted_def not_less)

lemma entries_after_revision_subset:
  "set (entries_after_revision n limit reg) \<subseteq> {r \<in> set (records reg). n < revision r}"
  using set_take_subset [of "unat limit" "newer_sorted n (records reg)"]
  by (auto simp: entries_after_revision_alt set_newer_sorted)

lemma entries_after_revision_complete:
  "limit = 0 \<or> length (records reg) \<le> unat limit \<Longrightarrow>
   set (entries_after_revision n limit reg) = {r \<in> set (records reg). n < revision r}"
proof -
  assume lim: "limit = 0 \<or> length (records reg) \<le> unat limit"
  have "length (newer_sorted n (records reg)) \<le> length (records reg)"
    by (simp add: newer_sorted_def std.srt_length)
  with lim show ?thesis
    by (auto simp: entries_after_revision_alt set_newer_sorted)
qed

lemma highest_revision_stats:
  "highest_revision (stats reg) = fold max (map revision (records reg)) 0"
proof -
  have "fold (\<lambda>r h. max h (revision r)) rs h = fold max (map revision rs) h" for rs h
    by (induction rs arbitrary: h) (simp_all add: max.commute)
  then show ?thesis by (simp add: stats_def)
qed

lemma highest_revision_ge: "r \<in> set (records reg) \<Longrightarrow> revision r \<le> highest_revision (stats reg)"
  by (simp add: highest_revision_stats fold_max_in)

lemma highest_revision_attained:
  "highest_revision (stats reg) = 0 \<or> (\<exists>r\<in>set (records reg). highest_revision (stats reg) = revision r)"
  using fold_max_cases [of "map revision (records reg)" 0] by (auto simp: highest_revision_stats)

section \<open>Merging a batch\<close>

text \<open>The records of a batch that pass the identity check, and the identity state after it.\<close>

fun admitted :: "sodium option \<Rightarrow> AgentRecord list \<Rightarrow> IdentityService option \<Rightarrow> AgentRecord list" where
  "admitted lib rs None = rs"
| "admitted lib [] (Some svc) = []"
| "admitted lib (r # rs) (Some svc) =
     (if fst (verify_and_register lib r svc) \<in> {Valid, Missing}
      then r # admitted lib rs (Some (snd (verify_and_register lib r svc)))
      else admitted lib rs (Some (snd (verify_and_register lib r svc))))"

text \<open>The records of a batch that the revision rule accepts, in order.\<close>

fun accepted_of :: "AgentRecord list \<Rightarrow> AgentRecord list \<Rightarrow> AgentRecord list" where
  "accepted_of [] base = []"
| "accepted_of (r # rs) base =
     (if fst (upsert_records r base) then r # accepted_of rs (snd (upsert_records r base))
      else accepted_of rs (snd (upsert_records r base)))"

lemma notify_upsert_records [simp]: "notify_upsert r (reg\<lparr>records := rs\<rparr>) = notify_upsert r reg"
  by (rule ext) (simp add: notify_upsert_def)

lemma merge_alt:
  "merge lib rs identity reg env n =
     (n + length (accepted_of (admitted lib rs identity) (records reg)),
      map_option (ident.check_all lib rs) identity,
      reg\<lparr>records := rr.put_all (admitted lib rs identity) (records reg)\<rparr>,
      fold (\<lambda>r. notify_upsert r reg) (accepted_of (admitted lib rs identity) (records reg)) env)"
proof (induction rs arbitrary: identity reg env n)
  case Nil
  then show ?case by (cases identity) simp_all
next
  case (Cons r rs)
  show ?case
  proof (cases identity)
    case None
    then show ?thesis by (simp add: Cons.IH upsert_alt Let_def)
  next
    case (Some svc)
    obtain st svc' where v: "verify_and_register lib r svc = (st, svc')" by fastforce
    show ?thesis
      by (cases "st = Valid \<or> st = Missing")
        (auto simp: Some v Cons.IH upsert_alt Let_def)
  qed
qed

lemma set_admitted: "set (admitted lib rs identity) \<subseteq> set rs"
  by (induction lib rs identity rule: admitted.induct) auto

text \<open>
  A record that the identity check lets pass in the state the service has before the batch.  In a
  batch whose admissible records have no conflicting keys, the keys that are pinned on the way do not
  change the answer.
\<close>

definition admissible :: "sodium option \<Rightarrow> IdentityService option \<Rightarrow> AgentRecord \<Rightarrow> bool" where
  "admissible lib identity r =
     (case identity of
        None \<Rightarrow> True
      | Some svc \<Rightarrow>
          verify_agent_signature lib r = Missing \<or>
          verify_agent_signature lib r = Valid \<and> pinned svc (agent_id r) \<in> {None, Some (decode_hex (public_key_hex r))})"

lemma admissible_step:
  assumes "memcmp_ok lib" and "identity_wf svc"
    and "conflict_free {q \<in> set (r # rs). admissible lib (Some svc) q}" and "q \<in> set rs"
  shows "admissible lib (Some (snd (verify_and_register lib r svc))) q = admissible lib (Some svc) q"
proof (cases "verify_agent_signature lib q = Valid \<and> verify_agent_signature lib r = Valid \<and>
    agent_id q = agent_id r \<and> pinned svc (agent_id r) = None")
  case True
  then have "r \<in> {q \<in> set (r # rs). admissible lib (Some svc) q}" "q \<in> {q \<in> set (r # rs). admissible lib (Some svc) q}"
    using assms(4) by (simp_all add: admissible_def)
  with assms(3) True have "key_compatible r q" by (simp add: conflict_free_def)
  moreover have "public_key_hex r \<noteq> []" "public_key_hex q \<noteq> []"
    using True by (auto simp: verify_agent_signature_Valid_iff)
  ultimately have "public_key_hex r = public_key_hex q" by (simp add: key_compatible_def)
  then show ?thesis using True assms(2) by (simp add: admissible_def pinned_verify_and_register)
next
  case False
  then show ?thesis using assms(2) by (auto simp: admissible_def pinned_verify_and_register)
qed

lemma set_admitted_admissible:
  assumes "memcmp_ok lib" and "pred_option identity_wf identity"
    and "conflict_free {r \<in> set rs. admissible lib identity r}"
  shows "set (admitted lib rs identity) = {r \<in> set rs. admissible lib identity r}"
  using assms
proof (induction lib rs identity rule: admitted.induct)
  case (3 lib r rs svc)
  let ?svc = "snd (verify_and_register lib r svc)"
  have wf: "identity_wf svc" "identity_wf ?svc"
    using "3.prems"(2) by (simp_all add: identity_wf_verify_and_register)
  note step = admissible_step [OF "3.prems"(1) wf(1) "3.prems"(3)]
  have "conflict_free {q \<in> set rs. admissible lib (Some ?svc) q}"
    using "3.prems"(3) by (rule conflict_free_subset) (auto simp: step)
  then have "set (admitted lib rs (Some ?svc)) = {q \<in> set rs. admissible lib (Some svc) q}"
    using "3.IH" "3.prems"(1) wf(2) step by (auto split: if_splits)
  moreover have "fst (verify_and_register lib r svc) \<in> {Valid, Missing} \<longleftrightarrow> admissible lib (Some svc) r"
    using "3.prems"(1) by (auto simp: verify_and_register_status admissible_def split: option.splits)
  ultimately show ?case by auto
qed (simp_all add: admissible_def)

lemma put_all_wf:
  "\<lbrakk>registry_wf base; \<forall>r\<in>set rs. record_wf r\<rbrakk> \<Longrightarrow> registry_wf (rr.put_all rs base)"
  by (induction rs arbitrary: base) (simp_all add: registry_wf_upsert_records)

lemma length_accepted_of: "length (accepted_of rs base) \<le> length rs"
  by (induction rs arbitrary: base) (simp_all add: le_SucI)

lemma stored_lookup: "registry_wf rs \<Longrightarrow> rr.stored rs = set rs"
  by (auto simp: rr.stored_def registry_wf_lookup dest: lookup_SomeD)

section \<open>Runs of the registry\<close>

text \<open>One step of any method that changes the vector.\<close>

inductive registry_step :: "AgentRecord list \<Rightarrow> AgentRecord list \<Rightarrow> bool" where
  step_upsert: "record_wf r \<Longrightarrow> registry_step rs (snd (upsert_records r rs))"
| step_heartbeat:
    "registry_step (records reg) (records (snd (refresh_heartbeat aid t n (reg :: unit AgentRegistry))))"
| step_purge:
    "registry_step (records reg) (records (snd (purge_expired now (reg :: unit AgentRegistry))))"
| step_load:
    "list_all record_wf new \<Longrightarrow>
     registry_step (records reg) (records (load_from_persistence now new (reg :: unit AgentRegistry)))"

inductive registry_run :: "AgentRecord list \<Rightarrow> AgentRecord list \<Rightarrow> bool" where
  run_refl: "registry_run rs rs"
| run_step: "registry_run rs rs' \<Longrightarrow> registry_step rs' rs'' \<Longrightarrow> registry_run rs rs''"

lemma load_records_wf:
  "\<lbrakk>registry_wf rs; list_all record_wf new\<rbrakk> \<Longrightarrow> registry_wf (load_records t new rs)"
proof (induction t new rs rule: load_records.induct)
  case (2 t r new rs)
  have "registry_wf (rs @ [r\<lparr>expires_at := t\<rparr>])" if "find_agent (agent_id r) rs = None"
    using 2 that by (intro registry_wf_append) simp_all
  moreover have "registry_wf (rs[i := r])" if "find_agent (agent_id r) rs = Some i" for i
    using 2 that by (intro registry_wf_update) simp_all
  ultimately show ?case
    using 2 by (auto split: option.splits)
qed simp

lemma load_records_mono:
  "lookup rs aid = Some e \<Longrightarrow> \<exists>e'. lookup (load_records t new rs) aid = Some e' \<and> revision e \<le> revision e'"
proof (induction t new rs arbitrary: e rule: load_records.induct)
  case (2 t r new rs)
  let ?rs = "case find_agent (agent_id r) rs of
      None \<Rightarrow> rs @ [r\<lparr>expires_at := t\<rparr>]
    | Some i \<Rightarrow> if revision r > revision (rs ! i)
        then (rs[i := (rs ! i)\<lparr>expires_at := t\<rparr>])[i := r] else rs"
  have "\<exists>e1. lookup ?rs aid = Some e1 \<and> revision e \<le> revision e1"
    using "2.prems"
    by (auto simp: lookup_append lookup_update lookup_def [of rs "agent_id r"] split: option.splits)
  then obtain e1 where "lookup ?rs aid = Some e1" "revision e \<le> revision e1" by blast
  with "2.IH" [of e1] show ?case
    by (auto intro: order_trans)
qed auto

lemma registry_step_wf: "registry_step rs rs' \<Longrightarrow> registry_wf rs \<Longrightarrow> registry_wf rs'"
  by (induction rule: registry_step.induct)
    (simp_all add: registry_wf_upsert_records registry_wf_refresh_heartbeat records_purge_expired
      registry_wf_filter load_from_persistence_def load_records_wf)

lemma registry_step_mono:
  assumes "registry_step rs rs'" and "registry_wf rs"
    and "lookup rs aid = Some e" and "lookup rs' aid = Some e'"
  shows "revision e \<le> revision e'"
  using assms
proof (induction rule: registry_step.induct)
  case (step_upsert r rs)
  then show ?case using rr.put_mono [of rs aid e r] by auto
next
  case (step_heartbeat reg aid' t n)
  then show ?case
    by (auto simp: lookup_refresh_heartbeat split: option.splits if_splits)
next
  case (step_purge reg now)
  then show ?case
    by (auto simp: records_purge_expired lookup_filter split: option.splits if_splits)
next
  case (step_load new reg now)
  then show ?case
    using load_records_mono [of "records reg" aid e "now + hours (24 * 365)" new]
    by (simp add: load_from_persistence_def Let_def)
qed

section \<open>Properties\<close>

text \<open>
  Property C1: \<^verbatim>\<open>upsert\<close> implements the last-writer-wins rule.  It answers true exactly when the
  agent is unknown, or the incoming revision is not older and the two public keys do not
  conflict; then the agent's entry is the incoming record and the callback has run on it, and in
  every case no other agent's entry changes.
\<close>

theorem upsert_implements_rule:
  "case upsert r reg env of (ok, reg', env') \<Rightarrow>
     ok = supersedes r (find_record (agent_id r) reg) \<and>
     (\<forall>aid. find_record aid reg' =
        (if ok \<and> aid = agent_id r then Some r else find_record aid reg)) \<and>
     env' = (if ok then notify_upsert r reg env else env) \<and>
     on_upsert reg' = on_upsert reg"
  by (simp add: upsert_alt find_record_lookup upsert_records_accepts lookup_upsert_records)

text \<open>
  Property C9: whatever sequence of upserts, heartbeats, purges and recoveries a registry goes
  through from empty, it never holds two records of one agent, and the metadata of every record
  stays in key order.
\<close>

theorem registry_run_invariant:
  assumes "registry_run [] rs"
  shows "distinct (map agent_id rs) \<and> list_all record_wf rs"
proof -
  have "registry_run rs0 rs \<Longrightarrow> registry_wf rs0 \<Longrightarrow> registry_wf rs" for rs0
    by (induction rule: registry_run.induct) (auto intro: registry_step_wf)
  with assms show ?thesis by (auto simp: registry_wf_def)
qed

theorem registry_run_invariant_witness:
  "distinct (map agent_id (snd (upsert_records (sample_record ''a'' 1 0) []))) \<and>
   list_all record_wf (snd (upsert_records (sample_record ''a'' 1 0) []))"
proof (rule registry_run_invariant)
  show "registry_run [] (snd (upsert_records (sample_record ''a'' 1 0) []))"
    by (rule run_step [OF run_refl step_upsert]) (simp add: record_wf_def sample_record_def)
qed

text \<open>The states a registry goes through, one method call after another.\<close>

fun registry_trace :: "AgentRecord list \<Rightarrow> AgentRecord list list \<Rightarrow> bool" where
  "registry_trace rs [] = True"
| "registry_trace rs (rs' # trace) = (registry_step rs rs' \<and> registry_trace rs' trace)"

definition revision_of :: "string \<Rightarrow> AgentRecord list \<Rightarrow> u64" where
  "revision_of aid rs = (case lookup rs aid of None \<Rightarrow> 0 | Some e \<Rightarrow> revision e)"

text \<open>
  While an agent stays registered, its revision never goes back, over any sequence
  of method calls.
\<close>

theorem revision_monotone_along_trace:
  assumes "registry_wf rs" and "registry_trace rs trace"
    and "\<forall>s\<in>set (rs # trace). lookup s aid \<noteq> None"
  shows "sorted (map (revision_of aid) (rs # trace))"
  using assms
proof (induction trace arbitrary: rs)
  case (Cons rs' trace)
  have step: "registry_step rs rs'" and wf': "registry_wf rs'"
    using Cons.prems by (auto intro: registry_step_wf)
  have le: "revision_of aid rs \<le> revision_of aid rs'"
    using registry_step_mono [OF step] Cons.prems by (auto simp: revision_of_def)
  have "sorted (map (revision_of aid) (rs' # trace))"
    using Cons wf' by simp
  with le show ?case by (auto intro: order_trans)
qed simp

theorem revision_monotone_along_trace_witness:
  "sorted (map (revision_of ''a'')
     [[sample_record ''a'' 1 0], snd (upsert_records (sample_record ''a'' 4 0) [sample_record ''a'' 1 0])])"
proof (rule revision_monotone_along_trace)
  show "registry_trace [sample_record ''a'' 1 0]
      [snd (upsert_records (sample_record ''a'' 4 0) [sample_record ''a'' 1 0])]"
    by (simp add: step_upsert record_wf_def sample_record_def)
qed (simp_all add: registry_wf_def record_wf_def sample_record_def lookup_upsert_records)

text \<open>
  Property C10: merging a batch, with or without an identity service, yields for each agent the record with
  the highest revision among the stored one and the admissible offered ones: those that are unsigned,
  or whose signature is valid and whose key is the one pinned for the agent when the batch arrives, if
  one is pinned.  This holds when, among these records, no two of one agent carry different keys or
  have the same revision; then the outcome does not depend on the order of the batch.
\<close>

theorem merge_keeps_newest:
  assumes "registry_wf (records reg)" and "memcmp_ok lib" and "pred_option identity_wf identity"
    and "conflict_free (set (records reg) \<union> {r \<in> set rs. admissible lib identity r})"
  shows "case merge lib rs identity reg env 0 of (n, idn, reg', env') \<Rightarrow>
     find_record aid reg' = Some m \<longleftrightarrow>
       m \<in> set (records reg) \<union> {r \<in> set rs. admissible lib identity r} \<and> agent_id m = aid \<and>
       (\<forall>c \<in> set (records reg) \<union> {r \<in> set rs. admissible lib identity r}.
          agent_id c = aid \<longrightarrow> revision c \<le> revision m)"
proof -
  let ?rs = "admitted lib rs identity"
  have adm: "set ?rs = {r \<in> set rs. admissible lib identity r}"
    by (rule set_admitted_admissible [OF assms(2,3)]) (rule conflict_free_subset [OF assms(4)], simp)
  have "conflict_free (rr.stored (records reg) \<union> set ?rs)"
    using assms(1,4) by (simp add: stored_lookup adm)
  note newest = rr.put_all_newest [OF this, of aid m]
  have "rr.candidates ?rs (records reg) aid = {c \<in> set (records reg) \<union> set ?rs. agent_id c = aid}"
    using registry_wf_lookup [OF assms(1)] by (auto simp: rr.candidates_def)
  with newest show ?thesis by (auto simp: merge_alt find_record_lookup adm)
qed

theorem merge_keeps_newest_witness:
  "let rs = [sample_sign 7 (sample_record ''a'' 1 0), sample_record ''b'' 3 0, sample_record ''b'' 2 0]
   in find_record ''b'' (fst (snd (snd (merge (Some sample_sodium) rs (Some new_IdentityService)
        (new_AgentRegistry :: unit AgentRegistry) () 0)))) = Some (sample_record ''b'' 3 0) \<and>
      find_record ''a'' (fst (snd (snd (merge (Some sample_sodium) rs (Some new_IdentityService)
        (new_AgentRegistry :: unit AgentRegistry) () 0)))) = Some (sample_sign 7 (sample_record ''a'' 1 0))"
proof -
  let ?a = "sample_sign 7 (sample_record ''a'' 1 0)" and ?lib = "Some sample_sodium"
  let ?rs = "[?a, sample_record ''b'' 3 0, sample_record ''b'' 2 0]" and ?reg = "new_AgentRegistry :: unit AgentRegistry"
  have wf: "registry_wf (records ?reg)" by (simp add: new_AgentRegistry_def)
  have idn: "pred_option identity_wf (Some new_IdentityService)" by (simp add: identity_wf_new)
  have ids: "agent_id ?a = ''a''" "revision ?a = 1" by (simp_all add: sample_sign_def sample_record_def)
  have unsigned: "verify_agent_signature ?lib (sample_record ''b'' n 0) = Missing" for n
    by (simp add: verify_agent_signature_Missing sample_record_def)
  have adm: "{r \<in> set ?rs. admissible ?lib (Some new_IdentityService) r} = set ?rs"
    by (auto simp: admissible_def unsigned verify_sample_sign pinned_def new_IdentityService_def om.get_empty)
  have cf: "conflict_free (set (records ?reg) \<union> {r \<in> set ?rs. admissible ?lib (Some new_IdentityService) r})"
    unfolding adm by (simp add: conflict_free_def key_compatible_def new_AgentRegistry_def ids)
      (simp add: sample_record_def)
  show ?thesis
    using merge_keeps_newest [OF wf memcmp_ok_sample idn cf, where env = "()" and aid = "''b''" and m = "sample_record ''b'' 3 0"]
      merge_keeps_newest [OF wf memcmp_ok_sample idn cf, where env = "()" and aid = "''a''" and m = ?a]
    unfolding adm by (simp add: case_prod_unfold new_AgentRegistry_def ids) (simp add: sample_record_def)
qed

text \<open>
  In a batch that is merged under an identity service, every admitted record that is
  signed carries the key that is pinned for its agent when the batch is done; in particular two
  signed records of one agent cannot be admitted under different keys.
\<close>

theorem merge_admits_pinned_keys_only:
  assumes "memcmp_ok lib" and "identity_wf svc" and "r \<in> set (admitted lib rs (Some svc))"
    and "public_key_hex r \<noteq> []" and "signature_hex r \<noteq> []"
  shows "case merge lib rs (Some svc) reg env 0 of (n, idn, reg', env') \<Rightarrow>
     \<exists>svc'. idn = Some svc' \<and> pinned svc' (agent_id r) = Some (decode_hex (public_key_hex r))"
proof -
  have signed: "verify_agent_signature lib r \<noteq> Missing"
    using assms(4,5) by (simp add: verify_agent_signature_Missing)
  have "pinned (ident.check_all lib rs svc) (agent_id r) = Some (decode_hex (public_key_hex r))"
    using assms(2,3)
  proof (induction rs arbitrary: svc)
    case (Cons q qs)
    let ?svc = "snd (verify_and_register lib q svc)"
    have wf: "memcmp_ok lib \<and> identity_wf ?svc"
      using Cons.prems(1) assms(1) by (simp add: identity_wf_verify_and_register)
    show ?case
    proof (cases "r \<in> set (admitted lib qs (Some ?svc))")
      case True
      with Cons.IH wf show ?thesis by simp
    next
      case False
      with Cons.prems(2) have "r = q" and st: "fst (verify_and_register lib q svc) \<in> {Valid, Missing}"
        by (auto split: if_splits)
      with signed have "fst (verify_and_register lib r svc) = Valid"
        using assms(1) by (auto simp: verify_and_register_status split: if_splits option.splits)
      then have "pinned ?svc (agent_id r) = Some (decode_hex (public_key_hex r))"
        using ident.valid_pins [of lib svc r] Cons.prems(1) assms(1) \<open>r = q\<close> by simp
      then show ?thesis
        using ident.key_kept_all [OF wf] by simp
    qed
  qed simp
  then show ?thesis by (simp add: merge_alt)
qed

theorem merge_admits_pinned_keys_only_witness:
  "let r = sample_sign 7 (sample_record ''a'' 1 0)
   in case merge (Some sample_sodium) [r] (Some new_IdentityService)
        (new_AgentRegistry :: unit AgentRegistry) () 0 of
        (n, idn, reg', env') \<Rightarrow> \<exists>svc'. idn = Some svc' \<and> pinned svc' ''a'' = Some (replicate 32 7)"
proof -
  let ?r = "sample_sign 7 (sample_record ''a'' 1 0)"
  have status: "fst (verify_and_register (Some sample_sodium) ?r new_IdentityService) = Valid"
    by (simp add: verify_and_register_status memcmp_ok_sample verify_sample_sign pinned_def
        new_IdentityService_def om.get_empty)
  then have "?r \<in> set (admitted (Some sample_sodium) [?r] (Some new_IdentityService))" by simp
  moreover have "public_key_hex ?r \<noteq> []" and "signature_hex ?r \<noteq> []"
    by (simp_all add: sample_sign_def)
  ultimately show ?thesis
    using merge_admits_pinned_keys_only [OF memcmp_ok_sample identity_wf_new, of ?r "[?r]"
        "new_AgentRegistry :: unit AgentRegistry" "()"]
    by (simp add: sample_sign_def sample_record_def decode_encode_hex Let_def)
qed

text \<open>
  A record without a key or without a signature is admitted by a merge under any
  identity service, whatever that service has pinned, and replaces what is stored for the agent
  if its revision is not older.  The merge consults no trust configuration.
\<close>

theorem merge_admits_unsigned:
  assumes "public_key_hex r = []" and "supersedes r (find_record (agent_id r) reg)"
  shows "case merge lib [r] (Some svc) reg env 0 of (n, idn, reg', env') \<Rightarrow>
     n = 1 \<and> idn = Some svc \<and> find_record (agent_id r) reg' = Some r"
proof -
  have "verify_agent_signature lib r = Missing"
    using assms(1) by (simp add: verify_agent_signature_Missing)
  then have "verify_and_register lib r svc = (Missing, svc)"
    by (simp add: verify_and_register_def)
  then show ?thesis
    using assms(2)
    by (simp add: merge_alt find_record_lookup upsert_records_accepts lookup_upsert_records)
qed

text \<open>A signed record of the same agent, for concrete evaluations.\<close>

definition sample_signed :: "string \<Rightarrow> string \<Rightarrow> u64 \<Rightarrow> AgentRecord" where
  "sample_signed aid key n =
     (sample_record aid n 0)\<lparr>public_key_hex := key, signature_hex := ''00''\<rparr>"

theorem merge_admits_unsigned_witness:
  "find_record ''a''
     (fst (snd (snd (merge None [sample_record ''a'' 2 0] (Some \<lparr>trust_store = [(''a'', [1])]\<rparr>)
        \<lparr>records = [sample_signed ''a'' ''01'' 1], on_upsert = None\<rparr> () 0))))
   = Some (sample_record ''a'' 2 0)"
proof -
  let ?reg = "\<lparr>records = [sample_signed ''a'' ''01'' 1], on_upsert = None\<rparr> :: unit AgentRegistry"
  have "public_key_hex (sample_record ''a'' 2 0) = []"
    and "supersedes (sample_record ''a'' 2 0) (find_record (agent_id (sample_record ''a'' 2 0)) ?reg)"
    by (simp_all add: sample_record_def sample_signed_def find_record_lookup supersedes_def
        key_compatible_def)
  from merge_admits_unsigned [OF this, where lib = None and env = "()"
      and svc = "\<lparr>trust_store = [(''a'', [1])]\<rparr>"]
  show ?thesis by (simp add: case_prod_unfold sample_record_def)
qed

text \<open>
  The key of a stored record does not outlive an unsigned update.  A record with a
  different key is rejected at first, but after an unsigned record of the same agent was accepted
  the very same record is accepted.
\<close>

theorem unsigned_update_releases_key:
  assumes "find_record (agent_id e) reg = Some e" and "public_key_hex e \<noteq> []"
    and "agent_id r = agent_id e" and "public_key_hex r = []"
    and "agent_id r' = agent_id e" and "public_key_hex r' \<noteq> []" and "public_key_hex r' \<noteq> public_key_hex e"
    and "revision e \<le> revision r" and "revision r \<le> revision r'"
  shows "fst (upsert r' reg env) = False \<and>
     (case upsert r reg env of (ok, reg', env') \<Rightarrow>
        ok \<and> (case upsert r' reg' env' of (ok', reg'', env'') \<Rightarrow>
                 ok' \<and> find_record (agent_id e) reg'' = Some r'))"
  using assms
  by (auto simp: upsert_alt find_record_lookup upsert_records_accepts lookup_upsert_records
      supersedes_def key_compatible_def)

theorem unsigned_update_releases_key_witness:
  "fst (upsert (sample_signed ''a'' ''02'' 3)
      \<lparr>records = [sample_signed ''a'' ''01'' 1], on_upsert = None\<rparr> ()) = False"
  using unsigned_update_releases_key
    [of "sample_signed ''a'' ''01'' 1" "\<lparr>records = [sample_signed ''a'' ''01'' 1], on_upsert = None\<rparr>"
      "sample_record ''a'' 2 0" "sample_signed ''a'' ''02'' 3" "()"]
  by (simp add: sample_record_def sample_signed_def find_record_lookup)

text \<open>
  \<^verbatim>\<open>entries_after_revision\<close> answers a lowest-revision part of the newer records.  The
  answer is in revision order, its records are stored ones above the given revision, each no more
  often than it is stored; its length is the number of newer records cut to the limit (zero
  meaning no limit), and no record that was left out has a lower revision than one that was kept.
\<close>

theorem entries_after_revision_spec:
  fixes reg :: "'e AgentRegistry"
  defines "newer n \<equiv> filter (\<lambda>r. n < revision r) (records reg)"
  shows "sorted_wrt (\<lambda>a b. revision a \<le> revision b) (entries_after_revision n limit reg) \<and>
     mset (entries_after_revision n limit reg) \<subseteq># mset (newer n) \<and>
     length (entries_after_revision n limit reg) =
       (if limit = 0 then length (newer n) else min (unat limit) (length (newer n))) \<and>
     (\<forall>x y. x \<in> set (entries_after_revision n limit reg) \<longrightarrow>
        y \<in># mset (newer n) - mset (entries_after_revision n limit reg) \<longrightarrow> revision x \<le> revision y)"
proof -
  let ?s = "newer_sorted n (records reg)" and ?lt = "\<lambda>l r. revision l < revision r"
  have ms: "mset ?s = mset (newer n)"
    by (simp add: newer_sorted_def newer_def std.srt_mset)
  have len: "length ?s = length (newer n)" using ms by (rule mset_eq_length)
  have best: "revision x \<le> revision y" if "x \<in> set (take k ?s)" "y \<in> set (drop k ?s)" for x y k
    using that std.srt_take_best [OF strict_weak_less [of revision]]
    by (auto simp: newer_sorted_def not_less)
  have out: "mset ?s - mset (take k ?s) = mset (drop k ?s)" for k
    by (metis add_diff_cancel_left' append_take_drop_id mset_append)
  have sub: "mset (take k ?s) \<subseteq># mset ?s" for k
    by (metis append_take_drop_id mset_append mset_subset_eq_add_left)
  show ?thesis
    using best sorted_newer_sorted [of n "records reg"] sub
    by (auto simp: entries_after_revision_alt out len min_def simp flip: ms intro: sorted_wrt_take)
qed

theorem entries_after_revision_spec_witness:
  "revision (sample_record ''b'' 2 0) \<le> revision (sample_record ''a'' 3 0)"
proof -
  let ?reg = "\<lparr>records = [sample_record ''a'' 3 0, sample_record ''b'' 2 0], on_upsert = None\<rparr>
      :: unit AgentRegistry"
  have out: "entries_after_revision 1 1 ?reg = [sample_record ''b'' 2 0]"
    by (simp add: entries_after_revision_def std_sort_def sample_record_def)
  have "\<forall>x y. x \<in> set (entries_after_revision 1 1 ?reg) \<longrightarrow>
      y \<in># mset (filter (\<lambda>r. 1 < revision r) (records ?reg)) - mset (entries_after_revision 1 1 ?reg) \<longrightarrow>
      revision x \<le> revision y"
    using entries_after_revision_spec [of 1 1 ?reg] by blast
  then show ?thesis
    unfolding out by (simp add: sample_record_def)
qed

text \<open>
  \<^verbatim>\<open>purge_expired\<close> removes exactly the records whose expiry has been reached, keeps the
  others in their order, and answers how many it removed.
\<close>

theorem purge_expired_spec:
  "case purge_expired now reg of (n, reg') \<Rightarrow>
     records reg' = filter (\<lambda>r. now < expires_at r) (records reg) \<and>
     n + length (records reg') = length (records reg) \<and>
     n = length (filter (\<lambda>r. expires_at r \<le> now) (records reg))"
  using fst_purge_expired [of now reg] records_purge_expired [of now reg]
    sum_length_filter_compl [of "\<lambda>r. now < expires_at r" "records reg"]
  by (simp add: case_prod_unfold not_less)

lemma load_records_lookup_cases:
  "lookup (load_records t new rs) aid = Some e \<Longrightarrow>
   lookup rs aid = Some e \<or> (\<exists>r\<in>set new. agent_id r = aid \<and> (e = r \<or> e = r\<lparr>expires_at := t\<rparr>))"
proof (induction t new rs rule: load_records.induct)
  case (2 t r new rs)
  show ?case
    using "2.IH" "2.prems"
    by (auto simp: lookup_append lookup_update split: option.splits if_splits)
qed auto

lemma load_records_covers:
  "r \<in> set new \<Longrightarrow> \<exists>e. lookup (load_records t new rs) (agent_id r) = Some e \<and> revision r \<le> revision e"
proof (induction t new rs rule: load_records.induct)
  case (2 t q new rs)
  let ?rs = "case find_agent (agent_id q) rs of
      None \<Rightarrow> rs @ [q\<lparr>expires_at := t\<rparr>]
    | Some i \<Rightarrow> if revision q > revision (rs ! i)
        then (rs[i := (rs ! i)\<lparr>expires_at := t\<rparr>])[i := q] else rs"
  show ?case
  proof (cases "r \<in> set new")
    case True
    with "2.IH" show ?thesis by simp
  next
    case False
    with "2.prems" have r: "r = q" by simp
    have "\<exists>e. lookup ?rs (agent_id q) = Some e \<and> revision q \<le> revision e"
    proof (cases "find_agent (agent_id q) rs")
      case None
      then have "lookup rs (agent_id q) = None" by (simp add: lookup_def)
      with None show ?thesis by (simp add: lookup_append)
    next
      case (Some i)
      then have "lookup rs (agent_id q) = Some (rs ! i)" by (simp add: lookup_def)
      with Some show ?thesis by (simp add: lookup_update not_less)
    qed
    then obtain e where "lookup ?rs (agent_id q) = Some e" "revision q \<le> revision e" by blast
    with load_records_mono [of ?rs "agent_id q" e t new] show ?thesis
      by (auto simp: r intro: order_trans)
  qed
qed simp

text \<open>
  Recovery into an empty registry knows exactly the agents of the recovered entries,
  and holds for each of them an entry of the highest recovered revision.
\<close>

theorem load_from_persistence_newest:
  "(find_record aid (load_from_persistence now new (new_AgentRegistry :: 'e AgentRegistry)) \<noteq> None \<longleftrightarrow> aid \<in> agent_id ` set new) \<and>
   (\<forall>e. find_record aid (load_from_persistence now new (new_AgentRegistry :: 'e AgentRegistry)) = Some e \<longrightarrow>
      (\<exists>r\<in>set new. agent_id r = aid \<and> e\<lparr>expires_at := 0\<rparr> = r\<lparr>expires_at := 0\<rparr>) \<and>
      (\<forall>r\<in>set new. agent_id r = aid \<longrightarrow> revision r \<le> revision e))"
proof -
  let ?t = "now + hours (24 * 365)"
  let ?l = "lookup (load_records ?t new []) aid"
  have f: "find_record aid (load_from_persistence now new (new_AgentRegistry :: 'e AgentRegistry)) = ?l"
    by (simp add: find_record_lookup load_from_persistence_def new_AgentRegistry_def Let_def)
  have some: "\<exists>r\<in>set new. agent_id r = aid \<and> (e = r \<or> e = r\<lparr>expires_at := ?t\<rparr>)" if "?l = Some e" for e
    using load_records_lookup_cases [OF that] by simp
  have cover: "\<exists>e. ?l = Some e \<and> revision r \<le> revision e" if "r \<in> set new" "agent_id r = aid" for r
    using load_records_covers [OF that(1), of ?t "[]"] that(2) by simp
  show ?thesis
    unfolding f
  proof (intro conjI allI impI)
    show "?l \<noteq> None \<longleftrightarrow> aid \<in> agent_id ` set new"
    proof
      assume "?l \<noteq> None"
      then obtain e where "?l = Some e" by blast
      with some show "aid \<in> agent_id ` set new" by blast
    next
      assume "aid \<in> agent_id ` set new"
      then obtain r where "r \<in> set new" "agent_id r = aid" by blast
      with cover show "?l \<noteq> None" by fastforce
    qed
  next
    fix e
    assume e: "?l = Some e"
    show "\<exists>r\<in>set new. agent_id r = aid \<and> e\<lparr>expires_at := 0\<rparr> = r\<lparr>expires_at := 0\<rparr>"
      using some [OF e] by auto
    show "\<forall>r\<in>set new. agent_id r = aid \<longrightarrow> revision r \<le> revision e"
      using cover e by fastforce
  qed
qed

theorem load_from_persistence_newest_witness:
  "revision (sample_record ''a'' 1 0) \<le> revision (sample_record ''a'' 2 0)"
proof -
  let ?new = "[sample_record ''a'' 1 0, sample_record ''a'' 2 0]"
  have f: "find_record ''a'' (load_from_persistence 0 ?new (new_AgentRegistry :: unit AgentRegistry))
      = Some (sample_record ''a'' 2 0)"
    by (simp add: find_record_lookup load_from_persistence_def new_AgentRegistry_def sample_record_def)
  have "\<forall>r\<in>set ?new. agent_id r = ''a'' \<longrightarrow> revision r \<le> revision (sample_record ''a'' 2 0)"
    using load_from_persistence_newest [of "''a''" 0 ?new] f by blast
  then show ?thesis by (simp add: sample_record_def)
qed

text \<open>
  An agent of which one revision was recovered expires a year after the recovery; an
  agent of which a second, newer revision was recovered has the expiry of the recovered entry
  itself, and the first purge at or after that instant drops it.
\<close>

theorem recovered_update_loses_lease:
  assumes "agent_id r' = agent_id r" and "revision r < revision r'"
  shows "map_option expires_at (find_record (agent_id r) (load_from_persistence now [r] (new_AgentRegistry :: 'e AgentRegistry)))
           = Some (now + hours (24 * 365)) \<and>
         find_record (agent_id r) (load_from_persistence now [r, r'] (new_AgentRegistry :: 'e AgentRegistry)) = Some r' \<and>
         (expires_at r' \<le> t \<longrightarrow>
            find_record (agent_id r)
              (snd (purge_expired t (load_from_persistence now [r, r'] (new_AgentRegistry :: 'e AgentRegistry)))) = None)"
  using assms
  by (simp add: find_record_lookup load_from_persistence_def new_AgentRegistry_def Let_def
      records_purge_expired)

theorem recovered_update_loses_lease_witness:
  "find_record ''a'' (snd (purge_expired 5 (load_from_persistence 5
      [sample_record ''a'' 1 5, sample_record ''a'' 2 5] (new_AgentRegistry :: unit AgentRegistry)))) = None"
  using recovered_update_loses_lease
    [of "sample_record ''a'' 2 5" "sample_record ''a'' 1 5" 5 5, where 'e = unit]
  by (simp add: sample_record_def)

end
