(* ===== verification/Framing.thy ===== *)
theory Framing
  imports Byte_Codec
begin

text \<open>
  \<^verbatim>\<open>src/src/beacon/framing.cpp\<close>: the binary envelope of the control channel.  \<^verbatim>\<open>FrameKind\<close> is an enum
  with the fixed underlying type \<^verbatim>\<open>uint16_t\<close>, so every 16-bit value is one of its values and the cast
  in \<^verbatim>\<open>decode_frame\<close> keeps unknown kinds.
\<close>

type_synonym FrameKind = u16

definition FrameKind_ControlRequest :: FrameKind where
  "FrameKind_ControlRequest = 1"

definition FrameKind_ControlResponse :: FrameKind where
  "FrameKind_ControlResponse = 2"

definition FrameKind_GossipEnvelope :: FrameKind where
  "FrameKind_GossipEnvelope = 3"

record Frame =
  frame_kind :: FrameKind
  payload :: bytes

definition kMagic0 :: u8 where "kMagic0 = byte_of_char (CHR ''B'')"
definition kMagic1 :: u8 where "kMagic1 = byte_of_char (CHR ''N'')"
definition kVersion :: u8 where "kVersion = 1"
definition kHeaderSize :: nat where "kHeaderSize = 9"

definition encode_frame :: "Frame \<Rightarrow> bytes" where
  "encode_frame frame =
     (let bs = [kMagic0] @ [kMagic1] @ [kVersion];
          bs = append_u16 bs (frame_kind frame);
          bs = append_u32 bs (word_of_nat (length (payload frame)))
      in bs @ payload frame)"

definition decode_frame :: "bytes \<Rightarrow> Frame option" where
  "decode_frame bs =
     (if length bs < kHeaderSize \<or> bs ! 0 \<noteq> kMagic0 \<or> bs ! 1 \<noteq> kMagic1 \<or> bs ! 2 \<noteq> kVersion then None
      else
        let payload_length = read_u32 bs 5
        in if length bs \<noteq> kHeaderSize + unat payload_length then None
           else Some \<lparr>frame_kind = read_u16 bs 3, payload = drop kHeaderSize bs\<rparr>)"

definition describe_frame_kind :: "FrameKind \<Rightarrow> string" where
  "describe_frame_kind kind =
     (if kind = FrameKind_ControlRequest then ''control_request''
      else if kind = FrameKind_ControlResponse then ''control_response''
      else if kind = FrameKind_GossipEnvelope then ''gossip_envelope''
      else ''unknown'')"

section \<open>The header\<close>

definition frame_header :: "FrameKind \<Rightarrow> u32 \<Rightarrow> bytes" where
  "frame_header kind n = [kMagic0, kMagic1, kVersion] @ append_u16 [] kind @ append_u32 [] n"

lemma length_frame_header [simp]: "length (frame_header kind n) = kHeaderSize"
  by (simp add: frame_header_def kHeaderSize_def be16.enc_length be32.enc_length)

lemma encode_frame_alt:
  "encode_frame f = frame_header (frame_kind f) (word_of_nat (length (payload f))) @ payload f"
  by (simp add: encode_frame_def frame_header_def Let_def append_u32_prefix [of "append_u16 _ _"]
      append_u16_prefix [of "_ # _"])

lemma header_fields:
  "read_u16 (frame_header kind n @ rest) 3 = kind"
  "read_u32 (frame_header kind n @ rest) 5 = n"
proof -
  have "take 2 (drop 3 ([kMagic0, kMagic1, kVersion] @ append_u16 [] kind @ append_u32 [] n @ rest))
      = append_u16 [] kind"
    by (rule be16.take_drop_enc) simp
  moreover have "take 4 (drop 5 (([kMagic0, kMagic1, kVersion] @ append_u16 [] kind) @ append_u32 [] n @ rest))
      = append_u32 [] n"
    by (rule be32.take_drop_enc) (simp add: be16.enc_length)
  ultimately show "read_u16 (frame_header kind n @ rest) 3 = kind"
    and "read_u32 (frame_header kind n @ rest) 5 = n"
    by (subst read_u16_drop read_u32_drop;
        simp add: frame_header_def be16.enc_length be32.enc_length be16.dec_enc be32.dec_enc)+
qed

lemma header_magic:
  "(frame_header kind n @ rest) ! 0 = kMagic0"
  "(frame_header kind n @ rest) ! Suc 0 = kMagic1"
  "(frame_header kind n @ rest) ! 2 = kVersion"
  by (simp_all add: frame_header_def)

lemma bytes_with_header:
  assumes "kHeaderSize \<le> length bs" and "bs ! 0 = kMagic0" and "bs ! 1 = kMagic1" and "bs ! 2 = kVersion"
  shows "bs = frame_header (read_u16 bs 3) (read_u32 bs 5) @ drop kHeaderSize bs"
proof -
  have len: "9 \<le> length bs" using assms(1) by (simp add: kHeaderSize_def)
  obtain a bs1 where 1: "bs = a # bs1" "8 \<le> length bs1" using len by (cases bs) auto
  obtain b bs2 where 2: "bs1 = b # bs2" "7 \<le> length bs2" using 1(2) by (cases bs1) auto
  obtain c bs3 where 3: "bs2 = c # bs3" using 2(2) by (cases bs2) auto
  have magic: "take 3 bs = [kMagic0, kMagic1, kVersion]"
    using assms(2-4) 1 2 3 by simp
  have kind: "take 3 bs @ append_u16 [] (read_u16 bs 3) @ drop 5 bs = bs"
    using be16.field_split [of 3 bs] len by (simp add: read_u16_drop [of 3 bs])
  have size: "append_u32 [] (read_u32 bs 5) @ drop 9 bs = drop 5 bs"
    using be32.field_split [of 0 "drop 5 bs"] len by (simp add: read_u32_drop [of 5 bs])
  have "frame_header (read_u16 bs 3) (read_u32 bs 5) @ drop 9 bs
      = take 3 bs @ append_u16 [] (read_u16 bs 3) @ append_u32 [] (read_u32 bs 5) @ drop 9 bs"
    by (simp add: frame_header_def magic)
  also have "\<dots> = bs" unfolding size by (rule kind)
  finally show ?thesis unfolding kHeaderSize_def by (rule sym)
qed

lemma frame_read_back:
  "decode_frame (encode_frame f) = (if length (payload f) < 2 ^ 32 then Some f else None)"
proof -
  have "unat (word_of_nat (length (payload f)) :: u32) = length (payload f) mod 2 ^ 32"
    by (simp add: unat_of_nat)
  moreover have "length (payload f) mod 2 ^ 32 = length (payload f) \<longleftrightarrow> length (payload f) < 2 ^ 32"
    by (simp add: mod_eq_self_iff_div_eq_0 div_eq_0_iff)
  ultimately show ?thesis
    by (auto simp: decode_frame_def encode_frame_alt header_magic header_fields Let_def)
qed

section \<open>Properties\<close>

text \<open>
  A frame is read back exactly as it was written whenever its payload is shorter than
  four gibibytes; a longer payload wraps the 32-bit length field and the result is rejected.
\<close>

theorem decode_encode_frame:
  "decode_frame (encode_frame f) = (if length (payload f) < 2 ^ 32 then Some f else None)"
  by (rule frame_read_back)

text \<open>
  Property C18: the decoder accepts only encoder output.  Whatever octets decode to a frame are the
  encoding of that frame, so no two octet strings decode to the same frame.
\<close>

theorem decode_frame_canonical:
  assumes "decode_frame bs = Some f"
  shows "encode_frame f = bs"
proof -
  have g: "kHeaderSize \<le> length bs" "bs ! 0 = kMagic0" "bs ! 1 = kMagic1" "bs ! 2 = kVersion"
    and n: "length bs = kHeaderSize + unat (read_u32 bs 5)"
    and f: "f = \<lparr>frame_kind = read_u16 bs 3, payload = drop kHeaderSize bs\<rparr>"
    using assms by (auto simp: decode_frame_def Let_def split: if_splits)
  have "length (payload f) = unat (read_u32 bs 5)" using n by (simp add: f)
  then show ?thesis
    using bytes_with_header [OF g] by (simp add: encode_frame_alt f)
qed

theorem decode_frame_canonical_witness:
  "encode_frame \<lparr>frame_kind = FrameKind_GossipEnvelope, payload = [111, 107]\<rparr>
     = [66, 78, 1, 0, 3, 0, 0, 0, 2, 111, 107]"
proof (rule decode_frame_canonical)
  show "decode_frame [66, 78, 1, 0, 3, 0, 0, 0, 2, 111, 107]
      = Some \<lparr>frame_kind = FrameKind_GossipEnvelope, payload = [111, 107]\<rparr>"
    by (simp add: decode_frame_def kHeaderSize_def kMagic0_def kMagic1_def kVersion_def
        byte_of_char_def read_u32_def read_u16_def FrameKind_GossipEnvelope_def)
qed

end
