(* ===== verification/Peer_Handshake.thy ===== *)
theory Peer_Handshake
  imports Cpp_Text Beacon_Types
begin

text \<open>
  \<^verbatim>\<open>src/src/beacon/peer_handshake.cpp\<close>: the UDP hello and welcome messages.  Out-parameters are
  modelled as an extra result: a parser answers its boolean and the new value of the variable.
\<close>

record PeerHello =
  hello_node_id :: string
  listen_port :: u16

record PeerWelcome =
  welcome_node_id :: string
  registry_revision :: u64

definition handshake_split_tokens :: "string \<Rightarrow> string list" where
  "handshake_split_tokens p = stream_tokens p"

definition parse_u16 :: "string \<Rightarrow> u16 \<Rightarrow> bool \<times> u16" where
  "parse_u16 s out =
     (let (parsed, ec, rest) = from_chars s (0 :: u32)
      in if ec \<noteq> Errc_ok \<or> rest \<noteq> [] \<or> parsed > 65535 then (False, out)
         else (True, ucast parsed))"

definition parse_u64 :: "string \<Rightarrow> u64 \<Rightarrow> bool \<times> u64" where
  "parse_u64 s out =
     (let (out', ec, rest) = from_chars s out in (ec = Errc_ok \<and> rest = [], out'))"

definition value_after :: "string \<Rightarrow> string" where
  "value_after token = after_equals token"

definition encode_peer_hello :: "PeerHello \<Rightarrow> string" where
  "encode_peer_hello hello =
     ''BEACON_HELLO node_id='' @ hello_node_id hello @
     '' listen_port='' @ to_string (unat (listen_port hello))"

fun decode_hello_fields :: "string list \<Rightarrow> PeerHello \<Rightarrow> PeerHello option" where
  "decode_hello_fields [] hello = Some hello"
| "decode_hello_fields (token # tokens) hello =
     (if rfind_at_0 token ''node_id='' then
        decode_hello_fields tokens (hello\<lparr>hello_node_id := value_after token\<rparr>)
      else if rfind_at_0 token ''listen_port='' then
        (let (ok, port) = parse_u16 (value_after token) (listen_port hello)
         in if \<not> ok then None else decode_hello_fields tokens (hello\<lparr>listen_port := port\<rparr>))
      else decode_hello_fields tokens hello)"

definition decode_peer_hello :: "string \<Rightarrow> PeerHello option" where
  "decode_peer_hello p =
     (let tokens = handshake_split_tokens p
      in if tokens = [] \<or> hd tokens \<noteq> ''BEACON_HELLO'' then None
         else case decode_hello_fields (tl tokens) \<lparr>hello_node_id = [], listen_port = 0\<rparr> of
                None \<Rightarrow> None
              | Some hello \<Rightarrow>
                  if hello_node_id hello = [] \<or> listen_port hello = 0 then None else Some hello)"

definition encode_peer_welcome :: "PeerWelcome \<Rightarrow> string" where
  "encode_peer_welcome welcome =
     ''BEACON_WELCOME node_id='' @ welcome_node_id welcome @
     '' registry_revision='' @ to_string (unat (registry_revision welcome))"

fun decode_welcome_fields :: "string list \<Rightarrow> PeerWelcome \<Rightarrow> PeerWelcome option" where
  "decode_welcome_fields [] welcome = Some welcome"
| "decode_welcome_fields (token # tokens) welcome =
     (if rfind_at_0 token ''node_id='' then
        decode_welcome_fields tokens (welcome\<lparr>welcome_node_id := value_after token\<rparr>)
      else if rfind_at_0 token ''registry_revision='' then
        (let (ok, n) = parse_u64 (value_after token) (registry_revision welcome)
         in if \<not> ok then None else decode_welcome_fields tokens (welcome\<lparr>registry_revision := n\<rparr>))
      else decode_welcome_fields tokens welcome)"

definition decode_peer_welcome :: "string \<Rightarrow> PeerWelcome option" where
  "decode_peer_welcome p =
     (let tokens = handshake_split_tokens p
      in if tokens = [] \<or> hd tokens \<noteq> ''BEACON_WELCOME'' then None
         else case decode_welcome_fields (tl tokens) \<lparr>welcome_node_id = [], registry_revision = 0\<rparr> of
                None \<Rightarrow> None
              | Some welcome \<Rightarrow> if welcome_node_id welcome = [] then None else Some welcome)"

section \<open>Numbers and fields\<close>

lemma unat_ucast_u16_u32: "unat (ucast (p :: u16) :: u32) = unat p"
proof -
  have "unat p < 2 ^ LENGTH(16)" by (rule unsigned_less)
  then have "unat p < 2 ^ 32" by simp
  then have "take_bit 32 (unat p) = unat p" by (rule take_bit_nat_eq_self)
  then show ?thesis by (simp add: unsigned_ucast_eq)
qed

lemma ucast_u16_u32_le: "\<not> (ucast (p :: u16) :: u32) > 65535"
proof -
  have "unat p < 2 ^ LENGTH(16)" by (rule unsigned_less)
  then have "unat p \<le> 65535" by simp
  then show ?thesis by (simp add: word_less_nat_alt unat_ucast_u16_u32 del: unsigned_ucast_eq)
qed

lemma from_chars_to_string_u16:
  "from_chars (to_string (unat (p :: u16))) (out :: u32) = (ucast p, Errc_ok, [])"
  using from_chars_to_string [of "ucast p :: u32" out] by (simp only: unat_ucast_u16_u32)

lemma ucast_u16_u32_u16: "ucast (ucast (p :: u16) :: u32) = p"
  by (rule bit_word_eqI) (auto simp: bit_simps)

lemma parse_u16_to_string [token_simps]: "parse_u16 (to_string (unat p)) out = (True, p)"
  using ucast_u16_u32_le [of p] ucast_u16_u32_u16 [of p]
  by (simp only: parse_u16_def from_chars_to_string_u16 Let_def prod.case) simp

lemma parse_u64_to_string [token_simps]: "parse_u64 (to_string (unat n)) out = (True, n)"
  by (simp add: parse_u64_def from_chars_to_string)

lemma key_value_token [token_simps]:
  assumes "CHR ''='' \<notin> set k" and "no_space k" and "no_space v"
  shows "is_token (k @ CHR ''='' # v)" and "value_after (k @ CHR ''='' # v) = v"
  using assms by (auto simp: is_token_iff token_simps is_space_def value_after_def)

section \<open>Printed messages as tokens\<close>

lemma handshake_tokens:
  assumes "is_token verb" and "no_space v" and "no_space w"
    and "CHR ''='' \<notin> set k" and "no_space k" and "CHR ''='' \<notin> set l" and "no_space l"
  shows "handshake_split_tokens (verb @ blank_prefixed [k @ ''='' @ v, l @ ''='' @ w])
           = [verb, k @ ''='' @ v, l @ ''='' @ w]"
    and "value_after (k @ ''='' @ v) = v" and "value_after (l @ ''='' @ w) = w"
proof -
  have t: "is_token (k @ ''='' @ v)" "is_token (l @ ''='' @ w)"
    using assms by (simp_all add: key_value_token)
  then show "handshake_split_tokens (verb @ blank_prefixed [k @ ''='' @ v, l @ ''='' @ w])
      = [verb, k @ ''='' @ v, l @ ''='' @ w]"
    unfolding handshake_split_tokens_def using assms(1) by (intro stream_tokens_line) simp_all
qed (use assms in \<open>simp_all add: key_value_token\<close>)

lemma hello_read_back:
  assumes "is_token (hello_node_id h)" and "listen_port h \<noteq> 0"
  shows "decode_peer_hello (encode_peer_hello h) = Some h"
proof -
  have verb: "is_token ''BEACON_HELLO''" and node: "no_space (hello_node_id h)"
    using assms(1) by (simp_all add: is_token_def no_space_def is_space_def)
  note tok = handshake_tokens [OF verb node no_space_to_string [of "unat (listen_port h)"], of "''node_id''" "''listen_port''"]
  show ?thesis
    using assms tok
    by (simp add: decode_peer_hello_def encode_peer_hello_def rfind_at_0_def parse_u16_to_string
        is_token_iff token_simps is_space_def)
qed

lemma welcome_read_back:
  assumes "is_token (welcome_node_id w)"
  shows "decode_peer_welcome (encode_peer_welcome w) = Some w"
proof -
  have verb: "is_token ''BEACON_WELCOME''" and node: "no_space (welcome_node_id w)"
    using assms by (simp_all add: is_token_def no_space_def is_space_def)
  note tok = handshake_tokens [OF verb node no_space_to_string [of "unat (registry_revision w)"],
      of "''node_id''" "''registry_revision''"]
  show ?thesis
    using assms tok
    by (simp add: decode_peer_welcome_def encode_peer_welcome_def rfind_at_0_def parse_u64_to_string
        is_token_iff token_simps is_space_def)
qed

text \<open>Values cut out of tokens have no blanks, so what a decoder answers can be printed again.\<close>

lemma no_space_after_equals: "no_space t \<Longrightarrow> no_space (after_equals t)"
  by (auto simp: after_equals_def no_space_def split: option.splits dest: in_set_dropD)

lemma no_space_decode_hello_fields:
  "\<lbrakk>decode_hello_fields ts h = Some h'; list_all is_token ts; no_space (hello_node_id h)\<rbrakk>
   \<Longrightarrow> no_space (hello_node_id h')"
  by (induction ts h rule: decode_hello_fields.induct)
    (auto simp: value_after_def is_token_iff no_space_after_equals split: if_splits prod.splits)

lemma no_space_decode_welcome_fields:
  "\<lbrakk>decode_welcome_fields ts w = Some w'; list_all is_token ts; no_space (welcome_node_id w)\<rbrakk>
   \<Longrightarrow> no_space (welcome_node_id w')"
  by (induction ts w rule: decode_welcome_fields.induct)
    (auto simp: value_after_def is_token_iff no_space_after_equals split: if_splits prod.splits)

lemma tokens_tl: "list_all is_token (tl (handshake_split_tokens p))"
  using stream_tokens_are_tokens [of p]
  by (cases "stream_tokens p") (simp_all add: handshake_split_tokens_def)

section \<open>Properties\<close>

text \<open>
  A hello with a port other than zero and a node id that is one token is read back
  exactly by the peer.
\<close>

theorem decode_encode_peer_hello:
  assumes "is_token (hello_node_id h)" and "listen_port h \<noteq> 0"
  shows "decode_peer_hello (encode_peer_hello h) = Some h"
  using assms by (rule hello_read_back)

theorem decode_encode_peer_hello_witness:
  "decode_peer_hello ''BEACON_HELLO node_id=n1 listen_port=43170''
     = Some \<lparr>hello_node_id = ''n1'', listen_port = 43170\<rparr>"
proof -
  have "to_string 43170 = ''43170''" by (simp add: to_string_eval)
  then show ?thesis
    using decode_encode_peer_hello [of "\<lparr>hello_node_id = ''n1'', listen_port = 43170\<rparr>"]
    by (simp add: encode_peer_hello_def is_token_def is_space_def)
qed

text \<open>
  Property C33: the messages a node can obtain from the decoders, whatever datagram it receives,
  are exactly those with a node id that is one token and, for a hello, a port other than zero;
  every such message is the reading of its own encoding.
\<close>

theorem decoded_handshakes:
  "{h. \<exists>p. decode_peer_hello p = Some h} = {h. is_token (hello_node_id h) \<and> listen_port h \<noteq> 0} \<and>
   {w. \<exists>p. decode_peer_welcome p = Some w} = {w. is_token (welcome_node_id w)}"
proof (intro conjI set_eqI iffI; clarsimp)
  fix h :: PeerHello and p assume "decode_peer_hello p = Some h"
  then have "hello_node_id h \<noteq> []" "listen_port h \<noteq> 0"
    and "decode_hello_fields (tl (handshake_split_tokens p)) \<lparr>hello_node_id = [], listen_port = 0\<rparr> = Some h"
    by (auto simp: decode_peer_hello_def Let_def split: if_splits option.splits)
  with no_space_decode_hello_fields [OF _ tokens_tl]
  show "is_token (hello_node_id h) \<and> listen_port h \<noteq> 0"
    by (simp add: is_token_iff token_simps)
next
  fix h :: PeerHello assume "is_token (hello_node_id h)" "listen_port h \<noteq> 0"
  then show "\<exists>p. decode_peer_hello p = Some h" using hello_read_back by blast
next
  fix w :: PeerWelcome and p assume "decode_peer_welcome p = Some w"
  then have "welcome_node_id w \<noteq> []"
    and "decode_welcome_fields (tl (handshake_split_tokens p)) \<lparr>welcome_node_id = [], registry_revision = 0\<rparr> = Some w"
    by (auto simp: decode_peer_welcome_def Let_def split: if_splits option.splits)
  with no_space_decode_welcome_fields [OF _ tokens_tl]
  show "is_token (welcome_node_id w)"
    by (simp add: is_token_iff token_simps)
next
  fix w :: PeerWelcome assume "is_token (welcome_node_id w)"
  then show "\<exists>p. decode_peer_welcome p = Some w" using welcome_read_back by blast
qed

end
