(* ===== verification/Reputation.thy ===== *)
theory Reputation
  imports Beacon_Types
begin

text \<open>
  \<^verbatim>\<open>src/src/beacon/reputation.cpp\<close>: the count of malformed messages per peer, a \<^verbatim>\<open>uint32_t\<close> that
  \<^verbatim>\<open>operator[]\<close> creates as zero, and the threshold test.
\<close>

record ReputationEngine =
  rep_config :: TrustConfig
  malformed_counts :: "u32 omap"

definition new_ReputationEngine :: "TrustConfig \<Rightarrow> ReputationEngine" where
  "new_ReputationEngine config = \<lparr>rep_config = config, malformed_counts = []\<rparr>"

definition record_malformed :: "string \<Rightarrow> ReputationEngine \<Rightarrow> ReputationEngine" where
  "record_malformed peer_id eng =
     (let count = (case omap_get peer_id (malformed_counts eng) of None \<Rightarrow> 0 | Some n \<Rightarrow> n)
      in eng\<lparr>malformed_counts := omap_set peer_id (count + 1) (malformed_counts eng)\<rparr>)"

definition accepts_peer :: "string \<Rightarrow> ReputationEngine \<Rightarrow> bool" where
  "accepts_peer peer_id eng =
     (case omap_get peer_id (malformed_counts eng) of
        None \<Rightarrow> True
      | Some n \<Rightarrow> n < malformed_threshold (rep_config eng))"

section \<open>Histories of reports\<close>

lemma record_malformed_simps [simp]:
  "rep_config (record_malformed p eng) = rep_config eng"
  "omap_get q (malformed_counts (record_malformed p eng)) =
     (if q = p then Some ((case omap_get p (malformed_counts eng) of None \<Rightarrow> 0 | Some n \<Rightarrow> n) + 1)
      else omap_get q (malformed_counts eng))"
  by (simp_all add: record_malformed_def Let_def omap_get_set)

lemma fold_record_malformed_config [simp]:
  "rep_config (fold record_malformed ps eng) = rep_config eng"
  by (induction ps arbitrary: eng) simp_all

lemma fold_record_malformed_count:
  "omap_get q (malformed_counts (fold record_malformed ps eng)) =
     (case omap_get q (malformed_counts eng) of
        None \<Rightarrow> if q \<in> set ps then Some (word_of_nat (count_list ps q)) else None
      | Some n \<Rightarrow> Some (n + word_of_nat (count_list ps q)))"
proof (induction ps arbitrary: eng)
  case Nil
  then show ?case by (simp split: option.split)
next
  case (Cons p ps)
  then show ?case by (auto simp: Cons.IH add_ac split: option.splits)
qed

section \<open>Properties\<close>

text \<open>
  After any sequence of malformed-message reports a peer is accepted exactly when it
  was never reported or its number of reports, taken modulo \<open>2 ^ 32\<close>, is below the threshold;
  reports about other peers do not matter.
\<close>

theorem accepts_peer_after_reports:
  "accepts_peer q (fold record_malformed ps (new_ReputationEngine config)) \<longleftrightarrow>
     count_list ps q = 0 \<or> count_list ps q mod 2 ^ 32 < unat (malformed_threshold config)"
proof -
  have "q \<notin> set ps \<longleftrightarrow> count_list ps q = 0" by (simp add: count_list_0_iff)
  moreover have "(word_of_nat n :: u32) < t \<longleftrightarrow> n mod 2 ^ 32 < unat t" for n and t :: u32
    by (simp add: word_less_nat_alt unat_of_nat)
  ultimately show ?thesis
    by (auto simp: accepts_peer_def fold_record_malformed_count new_ReputationEngine_def om.get_empty)
qed

end
