(* ===== verification/Gossip_Scheduler.thy ===== *)
theory Gossip_Scheduler
  imports Beacon_Types Cpp_Sort
begin

text \<open>
  \<^verbatim>\<open>src/src/beacon/gossip_scheduler.cpp\<close>: the records pushed in a round, newest first, cut to the
  configured maximum.
\<close>

record GossipScheduler =
  sched_config :: GossipConfig

definition new_GossipScheduler :: "GossipConfig \<Rightarrow> GossipScheduler" where
  "new_GossipScheduler config = \<lparr>sched_config = config\<rparr>"

definition select_push_entries :: "AgentRecord list \<Rightarrow> GossipScheduler \<Rightarrow> AgentRecord list" where
  "select_push_entries registry sched =
     (let selected = std_sort (\<lambda>left right. revision left > revision right) registry;
          limit = unat (max_registry_items_per_round (sched_config sched))
      in if length selected > limit then take limit selected else selected)"

lemma select_push_entries_alt:
  "select_push_entries rs sched =
     take (unat (max_registry_items_per_round (sched_config sched)))
       (std_sort (\<lambda>l r. revision l > revision r) rs)"
  by (simp add: select_push_entries_def Let_def not_less)

section \<open>Properties\<close>

text \<open>
  A round pushes a newest part of the registry: newest first, each record no more
  often than it is stored, as many as the configured maximum allows, and no record that is left
  out is newer than one that is pushed.
\<close>

theorem select_push_entries_spec:
  "sorted_wrt (\<lambda>a b. revision b \<le> revision a) (select_push_entries rs sched) \<and>
   (\<exists>rest. mset rs = mset (select_push_entries rs sched) + mset rest \<and>
      list_all (\<lambda>y. list_all (\<lambda>x. revision y \<le> revision x) (select_push_entries rs sched)) rest) \<and>
   length (select_push_entries rs sched) =
     min (length rs) (unat (max_registry_items_per_round (sched_config sched)))"
proof -
  let ?s = "std_sort (\<lambda>l r. revision l > revision r) rs"
    and ?n = "unat (max_registry_items_per_round (sched_config sched))"
  have "mset rs = mset (take ?n ?s) + mset (drop ?n ?s)"
    by (metis append_take_drop_id mset_append std.srt_mset)
  moreover have "list_all (\<lambda>y. list_all (\<lambda>x. revision y \<le> revision x) (take ?n ?s)) (drop ?n ?s)"
    using std.srt_take_best [OF strict_weak_greater [of revision]]
    by (fastforce simp: list_all_iff not_less)
  moreover have "sorted_wrt (\<lambda>a b. revision b \<le> revision a) (take ?n ?s)"
    using std.srt_sorted [OF strict_weak_greater [of revision], of rs]
    by (simp add: not_less sorted_wrt_take)
  ultimately show ?thesis
    unfolding select_push_entries_alt by (auto simp: std.srt_length)
qed

end
