(* ===== verification/Control_Protocol.thy ===== *)
theory Control_Protocol
  imports Agent_Registry
begin

text \<open>
  \<^verbatim>\<open>src/src/beacon/control_protocol.cpp\<close>: the line protocol of the control channel.  A
  \<^verbatim>\<open>ControlProtocol\<close> object holds its two configurations and a pointer to the identity service; the
  service itself is shared, so \<^verbatim>\<open>handle_line\<close> takes and returns it (\<^const>\<open>None\<close> for a null
  pointer) beside the registry and the environment of its callback.  On every path at most one
  reading of the clock reaches the result; it is the argument \<open>now\<close>.
\<close>

datatype ControlAction =
    ControlAction_Register
  | ControlAction_Heartbeat
  | ControlAction_List
  | ControlAction_Stats
  | ControlAction_Merge
  | ControlAction_SyncPull
  | ControlAction_Unknown

record ControlCommand =
  action :: ControlAction
  registration :: AgentRecord
  cmd_agent_id :: string
  error :: string
  after_revision :: u64
  limit :: u64

definition new_ControlCommand :: "time_point \<Rightarrow> ControlCommand" where
  "new_ControlCommand now =
     \<lparr>action = ControlAction_Unknown, registration = new_AgentRecord now, cmd_agent_id = [],
      error = [], after_revision = 0, limit = 256\<rparr>"

record ControlProtocol =
  proto_lifecycle :: LifecycleConfig
  proto_trust :: TrustConfig

definition new_ControlProtocol :: "LifecycleConfig \<Rightarrow> TrustConfig \<Rightarrow> ControlProtocol" where
  [simp]: "new_ControlProtocol lifecycle trust = \<lparr>proto_lifecycle = lifecycle, proto_trust = trust\<rparr>"

definition control_split_tokens :: "string \<Rightarrow> string list" where
  "control_split_tokens line = stream_tokens line"

definition control_parse_revision :: "string \<Rightarrow> u64 \<Rightarrow> bool \<times> u64" where
  "control_parse_revision s out =
     (let (out', ec, rest) = from_chars s out in (ec = Errc_ok \<and> rest = [], out'))"

definition get_value :: "string \<Rightarrow> string" where
  "get_value token = after_equals token"

definition starts_with :: "string \<Rightarrow> string \<Rightarrow> bool" where
  "starts_with token prefix = rfind_at_0 token prefix"

definition register_identity ::
  "sodium option \<Rightarrow> AgentRecord \<Rightarrow> IdentityService option \<Rightarrow> IdentityService option" where
  "register_identity lib r identity =
     (case identity of
        None \<Rightarrow> None
      | Some svc \<Rightarrow>
          if public_key_hex r = [] then Some svc
          else Some (snd (verify_and_register lib r svc)))"

section \<open>Parsing\<close>

text \<open>One iteration of the loop over the fields; \<^const>\<open>Inl\<close> is an early return of the command.\<close>

definition parse_field :: "string \<Rightarrow> ControlCommand \<Rightarrow> ControlCommand + ControlCommand" where
  "parse_field token c =
     (if starts_with token ''agent_id='' then
        Inr (c\<lparr>cmd_agent_id := get_value token,
               registration := (registration c)\<lparr>agent_id := get_value token\<rparr>\<rparr>)
      else if starts_with token ''node_id='' then
        Inr (c\<lparr>registration := (registration c)\<lparr>node_id := get_value token\<rparr>\<rparr>)
      else if starts_with token ''endpoint='' then
        Inr (c\<lparr>registration := (registration c)\<lparr>endpoint := get_value token\<rparr>\<rparr>)
      else if starts_with token ''revision='' then
        (let (ok, n) = control_parse_revision (get_value token) 0
         in if \<not> ok then Inl (c\<lparr>error := ''invalid revision''\<rparr>)
            else Inr (c\<lparr>registration := (registration c)\<lparr>revision := n\<rparr>\<rparr>))
      else if starts_with token ''after_revision='' then
        (let (ok, n) = control_parse_revision (get_value token) 0
         in if \<not> ok then Inl (c\<lparr>error := ''invalid after_revision''\<rparr>)
            else Inr (c\<lparr>after_revision := n\<rparr>))
      else if starts_with token ''limit='' then
        (let (ok, n) = control_parse_revision (get_value token) 0
         in if \<not> ok then Inl (c\<lparr>error := ''invalid limit''\<rparr>)
            else Inr (c\<lparr>limit := n\<rparr>))
      else if starts_with token ''public_key='' then
        Inr (c\<lparr>registration := (registration c)\<lparr>public_key_hex := get_value token\<rparr>\<rparr>)
      else if starts_with token ''signature='' then
        Inr (c\<lparr>registration := (registration c)\<lparr>signature_hex := get_value token\<rparr>\<rparr>)
      else if starts_with token ''metadata.'' then
        (case find_char (CHR ''='') token of
           None \<Rightarrow> Inr c
         | Some equals \<Rightarrow>
             Inr (c\<lparr>registration := (registration c)\<lparr>metadata :=
                      omap_set (substr 9 (equals - 9) token) (drop (equals + 1) token)
                        (metadata (registration c))\<rparr>\<rparr>))
      else Inr c)"

fun parse_fields :: "string list \<Rightarrow> ControlCommand \<Rightarrow> ControlCommand + ControlCommand" where
  "parse_fields [] c = Inr c"
| "parse_fields (token # tokens) c =
     (case parse_field token c of Inl c' \<Rightarrow> Inl c' | Inr c' \<Rightarrow> parse_fields tokens c')"

text \<open>The first token; \<^const>\<open>None\<close> is an unknown command.\<close>

definition parse_verb :: "time_point \<Rightarrow> ControlProtocol \<Rightarrow> string \<Rightarrow> ControlCommand \<Rightarrow> ControlCommand option" where
  "parse_verb now proto verb c =
     (let lease = now + milliseconds (heartbeat_ttl (proto_lifecycle proto))
      in if verb = ''REGISTER'' then
           Some (c\<lparr>action := ControlAction_Register,
                   registration := (registration c)\<lparr>expires_at := lease\<rparr>\<rparr>)
         else if verb = ''MERGE'' then
           Some (c\<lparr>action := ControlAction_Merge,
                   registration := (registration c)\<lparr>expires_at := lease\<rparr>\<rparr>)
         else if verb = ''HEARTBEAT'' then Some (c\<lparr>action := ControlAction_Heartbeat\<rparr>)
         else if verb = ''LIST'' then Some (c\<lparr>action := ControlAction_List\<rparr>)
         else if verb = ''STATS'' then Some (c\<lparr>action := ControlAction_Stats\<rparr>)
         else if verb = ''SYNC_PULL'' then Some (c\<lparr>action := ControlAction_SyncPull\<rparr>)
         else None)"

text \<open>The checks after the loop.\<close>

definition check_required :: "ControlCommand \<Rightarrow> ControlCommand" where
  "check_required c =
     (if (action c = ControlAction_Register \<or> action c = ControlAction_Merge \<or>
          action c = ControlAction_Heartbeat) \<and> cmd_agent_id c = [] then
        c\<lparr>error := ''agent_id is required''\<rparr>
      else if (action c = ControlAction_Register \<or> action c = ControlAction_Merge) \<and>
              (node_id (registration c) = [] \<or> endpoint (registration c) = []) then
        c\<lparr>error := ''node_id and endpoint are required''\<rparr>
      else c)"

definition parse_command :: "time_point \<Rightarrow> ControlProtocol \<Rightarrow> string \<Rightarrow> ControlCommand" where
  "parse_command now proto line =
     (let tokens = control_split_tokens line; c = new_ControlCommand now
      in if tokens = [] then c\<lparr>error := ''empty command''\<rparr>
         else (case parse_verb now proto (hd tokens) c of
                 None \<Rightarrow> c\<lparr>error := ''unknown command''\<rparr>
               | Some c' \<Rightarrow>
                   (case parse_fields (tl tokens) c' of
                      Inl c'' \<Rightarrow> c''
                    | Inr c'' \<Rightarrow> check_required c'')))"

section \<open>Printing and handling\<close>

definition encode_agent_line :: "AgentRecord \<Rightarrow> string" where
  "encode_agent_line r =
     ''AGENT agent_id='' @ agent_id r @ '' node_id='' @ node_id r @ '' endpoint='' @ endpoint r @
     '' revision='' @ to_string (unat (revision r)) @
     (if public_key_hex r \<noteq> [] then '' public_key='' @ public_key_hex r else []) @
     (if signature_hex r \<noteq> [] then '' signature='' @ signature_hex r else []) @
     concat (map (\<lambda>(k, v). '' metadata.'' @ k @ ''='' @ v) (metadata r)) @ nl"

text \<open>
  The signature policy shared by \<^verbatim>\<open>REGISTER\<close> and \<^verbatim>\<open>MERGE\<close>: the reply that rejects the record, or
  \<^const>\<open>None\<close>.
\<close>

definition signature_rejection :: "TrustConfig \<Rightarrow> SignatureStatus \<Rightarrow> string option" where
  "signature_rejection trust status =
     (if require_signatures trust \<and> status \<noteq> Valid then
        Some (''ERR message='' @ signature_status_message status @ nl)
      else if \<not> require_signatures trust \<and> status = Invalid then
        Some (''ERR message=invalid_signature'' @ nl)
      else None)"

text \<open>The branches for \<^verbatim>\<open>REGISTER\<close> and \<^verbatim>\<open>MERGE\<close>, which differ in the word of the reply only.\<close>

definition handle_registration ::
  "sodium option \<Rightarrow> ControlProtocol \<Rightarrow> string \<Rightarrow> AgentRecord \<Rightarrow>
   IdentityService option \<Rightarrow> 'e AgentRegistry \<Rightarrow> 'e \<Rightarrow>
   string \<times> IdentityService option \<times> 'e AgentRegistry \<times> 'e" where
  "handle_registration lib proto done_word r identity reg env =
     (case signature_rejection (proto_trust proto) (verify_agent_signature lib r) of
        Some reply \<Rightarrow> (reply, identity, reg, env)
      | None \<Rightarrow>
          (let (accepted, reg', env') = upsert r reg env;
               identity' = (if accepted then register_identity lib r identity else identity)
           in (if accepted then ''OK message='' @ done_word @ nl else ''ERR message=stale_revision'' @ nl,
               identity', reg', env')))"

definition encode_agent_lines :: "AgentRecord list \<Rightarrow> string" where
  "encode_agent_lines rs = concat (map encode_agent_line rs)"

definition handle_line ::
  "sodium option \<Rightarrow> time_point \<Rightarrow> ControlProtocol \<Rightarrow> string \<Rightarrow>
   IdentityService option \<Rightarrow> 'e AgentRegistry \<Rightarrow> 'e \<Rightarrow>
   string \<times> IdentityService option \<times> 'e AgentRegistry \<times> 'e" where
  "handle_line lib now proto line identity reg env =
     (let command = parse_command now proto line
      in if error command \<noteq> [] then (''ERR message='' @ error command @ nl, identity, reg, env)
         else case action command of
           ControlAction_Register \<Rightarrow>
             handle_registration lib proto ''registered'' (registration command) identity reg env
         | ControlAction_Merge \<Rightarrow>
             handle_registration lib proto ''merged'' (registration command) identity reg env
         | ControlAction_Heartbeat \<Rightarrow>
             (let expires = now + milliseconds (heartbeat_ttl (proto_lifecycle proto));
                  (accepted, reg') =
                    refresh_heartbeat (cmd_agent_id command) expires (revision (registration command)) reg
              in (if accepted then ''OK message=heartbeat'' @ nl
                  else ''ERR message=unknown_or_stale_agent'' @ nl,
                  identity, reg', env))
         | ControlAction_Stats \<Rightarrow>
             (let st = stats reg
              in (''OK active_agents='' @ to_string (active_agents st) @
                  '' highest_revision='' @ to_string (unat (highest_revision st)) @ nl,
                  identity, reg, env))
         | ControlAction_List \<Rightarrow>
             (''OK message=list'' @ nl @ encode_agent_lines (list_records reg) @ ''END'' @ nl,
              identity, reg, env)
         | ControlAction_SyncPull \<Rightarrow>
             (''OK message=sync_pull'' @ nl @
              encode_agent_lines (entries_after_revision (after_revision command) (limit command) reg) @
              ''END'' @ nl,
              identity, reg, env)
         | ControlAction_Unknown \<Rightarrow> (''ERR message=unhandled_command'' @ nl, identity, reg, env))"

section \<open>Agent lines as tokens\<close>

text \<open>The tokens of an agent line after its verb, and the records for which printing them is safe.\<close>

definition record_tokens :: "AgentRecord \<Rightarrow> string list" where
  "record_tokens r =
     [''agent_id='' @ agent_id r, ''node_id='' @ node_id r, ''endpoint='' @ endpoint r,
      ''revision='' @ to_string (unat (revision r))] @
     (if public_key_hex r \<noteq> [] then [''public_key='' @ public_key_hex r] else []) @
     (if signature_hex r \<noteq> [] then [''signature='' @ signature_hex r] else []) @
     map (\<lambda>(k, v). ''metadata.'' @ k @ ''='' @ v) (metadata r)"

definition line_safe :: "AgentRecord \<Rightarrow> bool" where
  "line_safe r \<longleftrightarrow>
     agent_id r \<noteq> [] \<and> no_space (agent_id r) \<and> no_space (node_id r) \<and> no_space (endpoint r) \<and>
     no_space (public_key_hex r) \<and> no_space (signature_hex r) \<and> omap_wf (metadata r) \<and>
     list_all (\<lambda>(k, v). no_space k \<and> CHR ''='' \<notin> set k \<and> no_space v) (metadata r)"

lemma encode_agent_line_alt:
  "encode_agent_line r = ''AGENT'' @ blank_prefixed (record_tokens r) @ nl"
proof -
  have "concat (map (\<lambda>(k, v). '' metadata.'' @ k @ ''='' @ v) m)
      = blank_prefixed (map (\<lambda>(k, v). ''metadata.'' @ k @ ''='' @ v) m)" for m
    by (induction m) auto
  then show ?thesis
    by (simp add: encode_agent_line_def record_tokens_def)
qed

lemma is_token_literal: "no_space (c # lit) \<Longrightarrow> no_space v \<Longrightarrow> is_token (c # lit @ v)"
  by (simp add: is_token_iff token_simps)

lemma record_tokens_are_tokens: "line_safe r \<Longrightarrow> list_all is_token (record_tokens r)"
  by (auto simp: record_tokens_def line_safe_def list_all_iff is_token_iff token_simps is_space_def)

lemma agent_line_no_newline: "line_safe r \<Longrightarrow> newline \<notin> set (''AGENT'' @ blank_prefixed (record_tokens r))"
  using record_tokens_are_tokens [of r]
  by (auto simp: blank_prefixed_def list_all_iff is_token_iff newline_def dest!: bspec
      dest: no_space_no_newline [unfolded newline_def])

section \<open>The interface of a field reader\<close>

text \<open>
  Two places read the fields of an agent line: the command parser and the sync client.  Both
  treat a field as an update of one member of the record they build; reading the printed fields
  of a record then installs that record, whatever the reader's own state is.
\<close>

primrec read_tokens :: "(string \<Rightarrow> 's \<Rightarrow> 's option) \<Rightarrow> string list \<Rightarrow> 's \<Rightarrow> 's option" where
  "read_tokens f [] s = Some s"
| "read_tokens f (t # ts) s = (case f t s of None \<Rightarrow> None | Some s' \<Rightarrow> read_tokens f ts s')"

lemma read_tokens_append:
  "read_tokens f (ts @ us) s = (case read_tokens f ts s of None \<Rightarrow> None | Some s' \<Rightarrow> read_tokens f us s')"
  by (induction ts arbitrary: s) (simp_all split: option.split)

locale record_reader =
  fixes field :: "string \<Rightarrow> 's \<Rightarrow> 's option"
    and set_id :: "string \<Rightarrow> 's \<Rightarrow> 's"
    and upd :: "(AgentRecord \<Rightarrow> AgentRecord) \<Rightarrow> 's \<Rightarrow> 's"
  assumes upd_upd: "upd f (upd g s) = upd (\<lambda>q. f (g q)) s"
    and upd_id: "upd (\<lambda>q. q) s = s"
    and field_agent: "field (''agent_id='' @ v) s = Some (set_id v s)"
    and field_node: "field (''node_id='' @ v) s = Some (upd (\<lambda>q. q\<lparr>node_id := v\<rparr>) s)"
    and field_endpoint: "field (''endpoint='' @ v) s = Some (upd (\<lambda>q. q\<lparr>endpoint := v\<rparr>) s)"
    and field_revision:
      "field (''revision='' @ to_string (unat n)) s = Some (upd (\<lambda>q. q\<lparr>revision := n\<rparr>) s)"
    and field_key: "field (''public_key='' @ v) s = Some (upd (\<lambda>q. q\<lparr>public_key_hex := v\<rparr>) s)"
    and field_signature: "field (''signature='' @ v) s = Some (upd (\<lambda>q. q\<lparr>signature_hex := v\<rparr>) s)"
    and field_metadata: "CHR ''='' \<notin> set k \<Longrightarrow>
      field (''metadata.'' @ k @ ''='' @ v) s = Some (upd (\<lambda>q. q\<lparr>metadata := omap_set k v (metadata q)\<rparr>) s)"
begin

lemma read_metadata:
  "list_all (\<lambda>(k, v). CHR ''='' \<notin> set k) m \<Longrightarrow>
   read_tokens field (map (\<lambda>(k, v). ''metadata.'' @ k @ ''='' @ v) m) s
     = Some (upd (\<lambda>q. q\<lparr>metadata := fold (\<lambda>(k, v). omap_set k v) m (metadata q)\<rparr>) s)"
proof (induction m arbitrary: s)
  case Nil
  then show ?case by (simp add: upd_id)
next
  case (Cons p m)
  obtain k v where p: "p = (k, v)" by fastforce
  have "field (''metadata.'' @ k @ ''='' @ v) s
      = Some (upd (\<lambda>q. q\<lparr>metadata := omap_set k v (metadata q)\<rparr>) s)"
    using Cons.prems by (intro field_metadata) (simp add: p)
  with Cons show ?case by (simp add: p upd_upd)
qed

lemma read_record_tokens:
  assumes "line_safe r"
  shows "read_tokens field (record_tokens r) s =
     Some (upd (\<lambda>q. q\<lparr>node_id := node_id r, endpoint := endpoint r, revision := revision r,
        public_key_hex := (if public_key_hex r = [] then public_key_hex q else public_key_hex r),
        signature_hex := (if signature_hex r = [] then signature_hex q else signature_hex r),
        metadata := fold (\<lambda>(k, v). omap_set k v) (metadata r) (metadata q)\<rparr>) (set_id (agent_id r) s))"
proof -
  have "list_all (\<lambda>(k, v). CHR ''='' \<notin> set k) (metadata r)"
    using assms by (auto simp: line_safe_def list_all_iff)
  then show ?thesis
    unfolding record_tokens_def read_tokens_append
    by (simp add: read_metadata [simplified] upd_upd field_agent [simplified]
        field_node [simplified] field_endpoint [simplified] field_revision [simplified]
        field_key [simplified] field_signature [simplified])
qed

end

text \<open>The command parser is such a reader.\<close>

definition command_field :: "string \<Rightarrow> ControlCommand \<Rightarrow> ControlCommand option" where
  "command_field t c = (case parse_field t c of Inl _ \<Rightarrow> None | Inr c' \<Rightarrow> Some c')"

lemma read_tokens_command:
  "read_tokens command_field ts c = Some c' \<Longrightarrow> parse_fields ts c = Inr c'"
  by (induction ts arbitrary: c) (auto simp: command_field_def split: sum.splits option.splits)

lemma get_value_append: "CHR ''='' \<notin> set k \<Longrightarrow> get_value (k @ CHR ''='' # v) = v"
  by (simp add: get_value_def token_simps)

lemmas get_value_fields = get_value_append [of "''agent_id''", simplified]
  get_value_append [of "''node_id''", simplified] get_value_append [of "''endpoint''", simplified]
  get_value_append [of "''revision''", simplified] get_value_append [of "''public_key''", simplified]
  get_value_append [of "''signature''", simplified] get_value_append [of "''after_revision''", simplified]
  get_value_append [of "''limit''", simplified]

lemma control_parse_revision_to_string [token_simps]:
  "control_parse_revision (to_string (unat n)) out = (True, n)"
  by (simp add: control_parse_revision_def from_chars_to_string)

lemma metadata_token:
  assumes "CHR ''='' \<notin> set k"
  shows "find_char (CHR ''='') (''metadata.'' @ k @ ''='' @ v) = Some (9 + length k)"
    and "substr 9 (length k) (''metadata.'' @ k @ ''='' @ v) = k"
    and "drop (9 + length k + 1) (''metadata.'' @ k @ ''='' @ v) = v"
  using assms find_char_append [of "CHR ''=''" k v]
  by (simp_all add: substr_def numeral_eq_Suc)

interpretation cmd: record_reader command_field
  "\<lambda>v c. c\<lparr>cmd_agent_id := v, registration := (registration c)\<lparr>agent_id := v\<rparr>\<rparr>"
  "\<lambda>f c. c\<lparr>registration := f (registration c)\<rparr>"
proof unfold_locales
  fix k v c
  assume "CHR ''='' \<notin> set k"
  note meta = metadata_token [OF this, of v]
  show "command_field (''metadata.'' @ k @ ''='' @ v) c = Some (c\<lparr>registration :=
      (registration c)\<lparr>metadata := omap_set k v (metadata (registration c))\<rparr>\<rparr>)"
    using meta by (simp add: command_field_def parse_field_def starts_with_def rfind_at_0_def)
qed (simp_all add: command_field_def parse_field_def starts_with_def rfind_at_0_def get_value_fields
    token_simps)

section \<open>What a line can do to the state\<close>

lemma parse_fields_record:
  assumes "line_safe r" and "metadata (registration c) = []" and "public_key_hex (registration c) = []"
    and "signature_hex (registration c) = []"
  shows "parse_fields (record_tokens r) c =
     Inr (c\<lparr>cmd_agent_id := agent_id r, registration := r\<lparr>expires_at := expires_at (registration c)\<rparr>\<rparr>)"
proof -
  have meta: "fold (\<lambda>(k, v). omap_set k v) (metadata r) [] = metadata r"
    using fold_omap_set_rebuild [of "[]" "metadata r"] assms(1) by (simp add: line_safe_def)
  show ?thesis
    by (rule read_tokens_command, subst cmd.read_record_tokens [OF assms(1)])
      (use assms(2-4) meta in \<open>simp add: AgentRecord.equality ControlCommand.equality\<close>)
qed

text \<open>A registration line made of a verb and the printed fields of a record.\<close>

lemma parse_registration_line:
  assumes "line_safe r" and "node_id r \<noteq> []" and "endpoint r \<noteq> []"
    and "verb = ''REGISTER'' \<and> act = ControlAction_Register \<or> verb = ''MERGE'' \<and> act = ControlAction_Merge"
  shows "parse_command now proto (verb @ blank_prefixed (record_tokens r)) =
     (new_ControlCommand now)\<lparr>action := act, cmd_agent_id := agent_id r,
       registration := r\<lparr>expires_at := now + milliseconds (heartbeat_ttl (proto_lifecycle proto))\<rparr>\<rparr>"
proof -
  have "is_token verb" using assms(4) by (auto simp: is_token_def is_space_def)
  then have tokens: "control_split_tokens (verb @ blank_prefixed (record_tokens r)) = verb # record_tokens r"
    using stream_tokens_line record_tokens_are_tokens [OF assms(1)]
    by (simp add: control_split_tokens_def)
  have "agent_id r \<noteq> []" using assms(1) by (simp add: line_safe_def)
  then show ?thesis
    using assms(2-4)
    by (auto simp: parse_command_def tokens parse_verb_def Let_def new_ControlCommand_def
        new_AgentRecord_def parse_fields_record [OF assms(1)] check_required_def)
qed

text \<open>What the handler may do to the registry, by the outcome of the line.\<close>

lemma handle_registration_cases:
  assumes "handle_registration lib proto w r identity reg env = (reply, identity', reg', env')"
  obtains (rejected) "identity' = identity" "reg' = reg" "env' = env" "take 3 reply = ''ERR''"
  | (accepted) "signature_rejection (proto_trust proto) (verify_agent_signature lib r) = None"
      "upsert r reg env = (True, reg', env')" "identity' = register_identity lib r identity"
      "reply = ''OK message='' @ w @ nl"
proof (cases "signature_rejection (proto_trust proto) (verify_agent_signature lib r)")
  case None
  obtain ok rg en where u: "upsert r reg env = (ok, rg, en)" by (cases "upsert r reg env") auto
  then have "\<not> ok \<Longrightarrow> rg = reg \<and> en = env"
    by (auto simp: upsert_def upsert_records_alt Let_def split: if_splits prod.splits)
  with None u assms rejected accepted show thesis
    by (cases ok) (auto simp: handle_registration_def)
next
  case (Some reply')
  then have "take 3 reply' = ''ERR''"
    by (auto simp: signature_rejection_def split: if_splits)
  with Some assms rejected show thesis by (simp add: handle_registration_def)
qed

text \<open>A batch of lines, each with the instant at which it is handled.\<close>

fun run_lines ::
  "sodium option \<Rightarrow> ControlProtocol \<Rightarrow> (time_point \<times> string) list \<Rightarrow>
   IdentityService option \<Rightarrow> 'e AgentRegistry \<Rightarrow> 'e \<Rightarrow> IdentityService option \<times> 'e AgentRegistry \<times> 'e" where
  "run_lines lib proto [] identity reg env = (identity, reg, env)"
| "run_lines lib proto ((now, line) # ls) identity reg env =
     (case handle_line lib now proto line identity reg env of
        (_, identity', reg', env') \<Rightarrow> run_lines lib proto ls identity' reg' env')"

lemma refresh_heartbeat_rejected: "refresh_heartbeat aid t n reg = (False, reg') \<Longrightarrow> reg' = reg"
  by (auto simp: refresh_heartbeat_def Let_def split: option.splits if_splits)

text \<open>The three ways in which a line ends: rejected or read-only, an accepted record, a heartbeat.\<close>

lemma handle_line_cases:
  assumes "handle_line lib now proto line identity reg env = (reply, identity', reg', env')"
  obtains (same) "identity' = identity" "reg' = reg" "env' = env"
  | (stored) r where "signature_rejection (proto_trust proto) (verify_agent_signature lib r) = None"
      "r = registration (parse_command now proto line)"
      "upsert r reg env = (True, reg', env')" "identity' = register_identity lib r identity"
      "take 3 reply \<noteq> ''ERR''"
  | (heartbeat) aid t n where "refresh_heartbeat aid t n reg = (True, reg')" "identity' = identity"
      "env' = env" "take 3 reply \<noteq> ''ERR''"
proof -
  let ?c = "parse_command now proto line"
  have reg: thesis if "handle_registration lib proto w (registration ?c) identity reg env
      = (reply, identity', reg', env')" for w
    using that
  proof (cases rule: handle_registration_cases)
    case accepted
    then show thesis by (intro stored [of "registration ?c"]) simp_all
  qed (use same in blast)
  show thesis
  proof (cases "error ?c = []")
    case False
    with assms same show thesis by (auto simp: handle_line_def Let_def)
  next
    case True
    show thesis
    proof (cases "action ?c")
      case ControlAction_Heartbeat
      let ?t = "now + milliseconds (heartbeat_ttl (proto_lifecycle proto))"
      obtain ok rg where h: "refresh_heartbeat (cmd_agent_id ?c) ?t (revision (registration ?c)) reg = (ok, rg)"
        by fastforce
      with True ControlAction_Heartbeat assms same heartbeat show thesis
        by (cases ok) (auto simp: handle_line_def Let_def dest: refresh_heartbeat_rejected)
    qed (use True assms same reg in \<open>auto simp: handle_line_def Let_def\<close>)
  qed
qed

text \<open>The command a parsing step leaves behind, returned early or not.\<close>

abbreviation command_of :: "ControlCommand + ControlCommand \<Rightarrow> ControlCommand" where
  "command_of x \<equiv> (case x of Inl c \<Rightarrow> c | Inr c \<Rightarrow> c)"

lemma record_wf_parse_field:
  "record_wf (registration c) \<Longrightarrow> record_wf (registration (command_of (parse_field t c)))"
  by (auto simp: parse_field_def record_wf_def om.wf_put case_prod_unfold Let_def split: option.split)

lemma record_wf_parse_fields:
  "record_wf (registration c) \<Longrightarrow> record_wf (registration (command_of (parse_fields ts c)))"
proof (induction ts arbitrary: c)
  case (Cons t ts)
  then show ?case
    using record_wf_parse_field [OF Cons.prems, of t] by (cases "parse_field t c") simp_all
qed simp

lemma record_wf_parse_verb:
  "parse_verb now proto v c = Some c' \<Longrightarrow> record_wf (registration c) \<Longrightarrow> record_wf (registration c')"
  by (auto simp: parse_verb_def Let_def split: if_splits)

lemma record_wf_parse_command: "record_wf (registration (parse_command now proto line))"
proof -
  have new: "record_wf (registration (new_ControlCommand now))" by (simp add: new_ControlCommand_def)
  have "registration (check_required c) = registration c" for c by (simp add: check_required_def)
  moreover have "record_wf (registration (case parse_fields ts c of Inl c' \<Rightarrow> c' | Inr c' \<Rightarrow> check_required c'))"
    if "record_wf (registration c)" for ts c
    using record_wf_parse_fields [OF that, of ts] calculation by (auto split: sum.split_asm sum.split)
  ultimately show ?thesis
    using new by (auto simp: parse_command_def Let_def split: option.split dest: record_wf_parse_verb)
qed

section \<open>Properties\<close>

lemma verify_agent_signature_lease [simp]:
  "verify_agent_signature lib (r\<lparr>expires_at := t\<rparr>) = verify_agent_signature lib r"
proof -
  have "canonical_agent_payload (r\<lparr>expires_at := t\<rparr>) = canonical_agent_payload r"
    by (rule canonical_agent_payload_cong) (simp add: signed_fields_def)
  then show ?thesis unfolding verify_agent_signature_def Let_def by (cases lib) simp_all
qed

lemma handle_register_line:
  assumes "line_safe r" and "node_id r \<noteq> []" and "endpoint r \<noteq> []"
  shows "handle_line lib now proto (''REGISTER'' @ blank_prefixed (record_tokens r)) identity reg env =
     handle_registration lib proto ''registered''
       (r\<lparr>expires_at := now + milliseconds (heartbeat_ttl (proto_lifecycle proto))\<rparr>) identity reg env"
  using parse_registration_line [OF assms, of "''REGISTER''" ControlAction_Register now proto]
  by (simp add: handle_line_def new_ControlCommand_def)

lemma handle_merge_line:
  assumes "line_safe r" and "node_id r \<noteq> []" and "endpoint r \<noteq> []"
  shows "handle_line lib now proto (''MERGE'' @ blank_prefixed (record_tokens r)) identity reg env =
     handle_registration lib proto ''merged''
       (r\<lparr>expires_at := now + milliseconds (heartbeat_ttl (proto_lifecycle proto))\<rparr>) identity reg env"
  using parse_registration_line [OF assms, of "''MERGE''" ControlAction_Merge now proto]
  by (simp add: handle_line_def new_ControlCommand_def)

text \<open>
  Property C28: a registration line made of the printed fields of a record is refused for its
  signature exactly as the trust policy says (only valid signatures where signatures are required,
  otherwise everything but an invalid one), then exactly when it does not supersede the stored
  record, and otherwise stores exactly that record, leased for the heartbeat period.  This is about
  well-formed lines: lines that do not parse and the effect on the trust store are the subject of other lemmas.
\<close>

theorem register_line_outcome:
  fixes reg :: "'e AgentRegistry"
  assumes "line_safe r" and "node_id r \<noteq> []" and "endpoint r \<noteq> []"
  shows "case handle_line lib now proto (''REGISTER'' @ blank_prefixed (record_tokens r)) identity reg env of
     (reply, _, reg', _) \<Rightarrow>
       reply = (if require_signatures (proto_trust proto) \<and> verify_agent_signature lib r \<noteq> Valid then
                  ''ERR message='' @ signature_status_message (verify_agent_signature lib r) @ nl
                else if verify_agent_signature lib r = Invalid then ''ERR message=invalid_signature'' @ nl
                else if \<not> supersedes r (find_record (agent_id r) reg) then ''ERR message=stale_revision'' @ nl
                else ''OK message=registered'' @ nl) \<and>
       (\<forall>aid. find_record aid reg' =
          (if reply = ''OK message=registered'' @ nl \<and> aid = agent_id r
           then Some (r\<lparr>expires_at := now + milliseconds (heartbeat_ttl (proto_lifecycle proto))\<rparr>)
           else find_record aid reg))"
proof -
  let ?r = "r\<lparr>expires_at := now + milliseconds (heartbeat_ttl (proto_lifecycle proto))\<rparr>"
  have sup: "supersedes ?r old = supersedes r old" for old
    by (simp add: supersedes_def key_compatible_def split: option.split)
  show ?thesis
    unfolding handle_register_line [OF assms]
    by (cases "verify_agent_signature lib r")
      (auto simp: handle_registration_def signature_rejection_def upsert_alt Let_def sup
        signature_status_message_def find_record_lookup upsert_records_accepts lookup_upsert_records
        split: if_splits)
qed

theorem register_line_outcome_witness:
  "line_safe (sample_record ''a'' 1 0) \<and>
   fst (handle_line None 0 \<lparr>proto_lifecycle = default_LifecycleConfig, proto_trust = default_TrustConfig\<rparr>
      (''REGISTER'' @ blank_prefixed (record_tokens (sample_record ''a'' 1 0))) None
      (new_AgentRegistry :: unit AgentRegistry) ()) = ''OK message=registered'' @ nl"
proof -
  let ?p = "\<lparr>proto_lifecycle = default_LifecycleConfig, proto_trust = default_TrustConfig\<rparr>"
  have safe: "line_safe (sample_record ''a'' 1 0)"
    by (simp add: line_safe_def sample_record_def token_simps is_space_def)
  then have "case handle_line None 0 ?p
      (''REGISTER'' @ blank_prefixed (record_tokens (sample_record ''a'' 1 0))) None
      (new_AgentRegistry :: unit AgentRegistry) () of (reply, _) \<Rightarrow> reply = ''OK message=registered'' @ nl"
    using register_line_outcome [OF safe, where lib = None and now = 0 and proto = ?p and identity = None
        and reg = "new_AgentRegistry :: unit AgentRegistry" and env = "()"]
    by (simp add: sample_record_def default_TrustConfig_def verify_agent_signature_def supersedes_def
        new_AgentRegistry_def find_record_lookup case_prod_unfold)
  with safe show ?thesis by (simp add: case_prod_unfold)
qed

text \<open>
  A line that is answered with an error has had no effect, on the registry, on the
  trust store, or through the upsert callback.
\<close>

theorem error_reply_no_effect:
  assumes "handle_line lib now proto line identity reg env = (reply, identity', reg', env')"
    and "take 3 reply = ''ERR''"
  shows "identity' = identity \<and> reg' = reg \<and> env' = env"
  using assms(1) by (cases rule: handle_line_cases) (use assms(2) in simp_all)

theorem error_reply_no_effect_witness:
  "handle_line None 0 \<lparr>proto_lifecycle = default_LifecycleConfig, proto_trust = default_TrustConfig\<rparr>
     ''FROB'' None (new_AgentRegistry :: unit AgentRegistry) ()
   = (''ERR message=unknown command'' @ nl, None, new_AgentRegistry, ())"
proof -
  let ?p = "\<lparr>proto_lifecycle = default_LifecycleConfig, proto_trust = default_TrustConfig\<rparr>"
    and ?reg = "new_AgentRegistry :: unit AgentRegistry"
  have "control_split_tokens ''FROB'' = [''FROB'']"
    by (simp add: control_split_tokens_def stream_tokens_single is_token_def is_space_def)
  then have reply: "fst (handle_line None 0 ?p ''FROB'' None ?reg ()) = ''ERR message=unknown command'' @ nl"
    by (simp add: handle_line_def parse_command_def parse_verb_def Let_def)
  obtain reply i r e where h: "handle_line None 0 ?p ''FROB'' None ?reg () = (reply, i, r, e)"
    by (cases "handle_line None 0 ?p ''FROB'' None ?reg ()")
  with reply have "take 3 reply = ''ERR''" by simp
  from error_reply_no_effect [OF h this] h reply show ?thesis by simp
qed

text \<open>
  A stored record is vouched for when it is a record with a valid signature whose lease and
  revision were moved on by heartbeats at most.
\<close>

definition vouched :: "sodium option \<Rightarrow> AgentRecord \<Rightarrow> bool" where
  "vouched lib e \<longleftrightarrow>
     (\<exists>r. verify_agent_signature lib r = Valid \<and> revision r \<le> revision e \<and>
        e = r\<lparr>revision := revision e, expires_at := expires_at e\<rparr>)"

lemma vouched_Valid: "verify_agent_signature lib r = Valid \<Longrightarrow> vouched lib r"
  unfolding vouched_def by (intro exI [of _ r]) simp

lemma vouched_heartbeat:
  assumes "vouched lib e" and "revision e \<le> n"
  shows "vouched lib (e\<lparr>expires_at := t, revision := n\<rparr>)"
proof -
  obtain r where r: "verify_agent_signature lib r = Valid" "revision r \<le> revision e"
    "e = r\<lparr>revision := revision e, expires_at := expires_at e\<rparr>"
    using assms(1) unfolding vouched_def by blast
  from r(2) assms(2) have "revision r \<le> n" by (rule order_trans)
  moreover have "e\<lparr>expires_at := t, revision := n\<rparr> = r\<lparr>revision := n, expires_at := t\<rparr>"
    by (subst r(3)) simp
  ultimately show ?thesis
    unfolding vouched_def using r(1) by (intro exI [of _ r]) simp
qed

lemma set_upsert_records: "set (snd (upsert_records r rs)) \<subseteq> insert r (set rs)"
  by (auto simp: upsert_records_alt split: option.splits
      dest!: set_update_subset_insert [THEN subsetD])

lemma set_refresh_heartbeat:
  "e \<in> set (records (snd (refresh_heartbeat aid t n reg))) \<Longrightarrow>
   e \<in> set (records reg) \<or>
   (\<exists>e0\<in>set (records reg). revision e0 \<le> n \<and> e = e0\<lparr>expires_at := t, revision := n\<rparr>)"
  by (auto simp: refresh_heartbeat_def Let_def not_less split: option.splits if_splits
      dest!: find_agent_Some set_update_subset_insert [THEN subsetD])

lemma upsert_vouched:
  assumes "upsert r reg env = (True, reg', env')" and "vouched lib r" and "list_all (vouched lib) (records reg)"
  shows "list_all (vouched lib) (records reg')"
  using assms set_upsert_records [of r "records reg"] by (auto simp: upsert_alt list_all_iff)

lemma heartbeat_vouched:
  assumes "list_all (vouched lib) (records reg)"
  shows "list_all (vouched lib) (records (snd (refresh_heartbeat aid t n reg)))"
  using assms set_refresh_heartbeat [of _ aid t n reg]
  by (fastforce simp: list_all_iff intro: vouched_heartbeat)

lemma handle_line_vouched:
  assumes "require_signatures (proto_trust proto)"
    and "handle_line lib now proto line identity reg env = (reply, identity', reg', env')"
    and "list_all (vouched lib) (records reg)"
  shows "list_all (vouched lib) (records reg')"
  using assms(2)
proof (cases rule: handle_line_cases)
  case (stored r)
  then have "vouched lib r"
    using assms(1) by (auto simp: signature_rejection_def intro: vouched_Valid split: if_splits)
  with stored(3) assms(3) show ?thesis by (auto simp: upsert_vouched)
next
  case (heartbeat aid t n)
  then show ?thesis using heartbeat_vouched [OF assms(3), of aid t n] by simp
qed (use assms(3) in simp)

lemma run_lines_vouched:
  assumes "require_signatures (proto_trust proto)"
    and "list_all (vouched lib) (records reg)"
    and "run_lines lib proto ls identity reg env = (identity', reg', env')"
  shows "list_all (vouched lib) (records reg')"
  using assms(2,3)
proof (induction ls arbitrary: identity reg env)
  case (Cons p ls)
  obtain now line where p: "p = (now, line)" by fastforce
  obtain reply i1 reg1 e1 where h: "handle_line lib now proto line identity reg env = (reply, i1, reg1, e1)"
    by (cases "handle_line lib now proto line identity reg env")
  have "list_all (vouched lib) (records reg1)"
    by (rule handle_line_vouched [OF assms(1) h Cons.prems(1)])
  then show ?case using Cons.IH Cons.prems(2) by (simp add: p h)
qed simp

text \<open>
  On a node that requires signatures, whatever lines arrive in whatever order, every
  record in the registry goes back to a record whose signature verified: only the lease and the
  revision can differ, and the revision can only have grown.
\<close>

theorem required_signatures_hold:
  fixes reg :: "'e AgentRegistry"
  assumes "require_signatures (proto_trust proto)"
    and "list_all (vouched lib) (records reg)"
    and "run_lines lib proto ls identity reg env = (identity', reg', env')"
  shows "list_all (vouched lib) (records reg')"
  using assms by (rule run_lines_vouched)

theorem required_signatures_hold_witness:
  "let r = sample_sign 2 (sample_record ''a'' 1 0);
       proto = \<lparr>proto_lifecycle = default_LifecycleConfig,
                proto_trust = default_TrustConfig\<lparr>require_signatures := True\<rparr>\<rparr>;
       rs = records (fst (snd (run_lines (Some sample_sodium) proto
              [(5, ''REGISTER'' @ blank_prefixed (record_tokens r))] None
              (new_AgentRegistry :: unit AgentRegistry) ())))
   in rs \<noteq> [] \<and> list_all (vouched (Some sample_sodium)) rs"
proof -
  let ?r = "sample_sign 2 (sample_record ''a'' 1 0)"
    and ?p = "\<lparr>proto_lifecycle = default_LifecycleConfig,
       proto_trust = default_TrustConfig\<lparr>require_signatures := True\<rparr>\<rparr>"
    and ?reg = "new_AgentRegistry :: unit AgentRegistry"
  let ?ls = "[(5, ''REGISTER'' @ blank_prefixed (record_tokens ?r))]"
  have safe: "line_safe ?r" "node_id ?r \<noteq> []" "endpoint ?r \<noteq> []"
    by (simp_all add: line_safe_def sample_sign_def sample_record_def token_simps is_space_def)
  obtain i reg e where run: "run_lines (Some sample_sodium) ?p ?ls None ?reg () = (i, reg, e)"
    by (cases "run_lines (Some sample_sodium) ?p ?ls None ?reg ()")
  have "list_all (vouched (Some sample_sodium)) (records reg)"
    by (rule required_signatures_hold [OF _ _ run]) (simp_all add: new_AgentRegistry_def)
  moreover have "records reg \<noteq> []"
    using run unfolding run_lines.simps handle_register_line [OF safe]
    by (auto simp: handle_registration_def signature_rejection_def verify_sample_sign upsert_alt
        upsert_records_alt new_AgentRegistry_def supersedes_def)
  ultimately show ?thesis using run by (simp add: Let_def)
qed

text \<open>
  A build without libsodium fails closed: when signatures are required, no sequence of
  lines puts any record into an empty registry.
\<close>

theorem fails_closed_without_libsodium:
  fixes env :: 'e
  assumes "require_signatures (proto_trust proto)"
    and "run_lines None proto ls identity (new_AgentRegistry :: 'e AgentRegistry) env = (identity', reg', env')"
  shows "records reg' = []"
proof -
  have "list_all (vouched None) (records reg')"
    by (rule run_lines_vouched [OF assms(1) _ assms(2)]) (simp add: new_AgentRegistry_def)
  then show ?thesis
    by (cases "records reg'") (auto simp: vouched_def verify_agent_signature_no_sodium)
qed

theorem fails_closed_without_libsodium_witness:
  "records (fst (snd (run_lines None \<lparr>proto_lifecycle = default_LifecycleConfig,
       proto_trust = default_TrustConfig\<lparr>require_signatures := True\<rparr>\<rparr>
     [(0, ''REGISTER agent_id=a node_id=n endpoint=e revision=1 public_key=01 signature=02'')] None
     (new_AgentRegistry :: unit AgentRegistry) ()))) = []"
proof -
  let ?run = "run_lines None \<lparr>proto_lifecycle = default_LifecycleConfig,
       proto_trust = default_TrustConfig\<lparr>require_signatures := True\<rparr>\<rparr>
     [(0, ''REGISTER agent_id=a node_id=n endpoint=e revision=1 public_key=01 signature=02'')] None
     (new_AgentRegistry :: unit AgentRegistry) ()"
  obtain i reg e where run: "?run = (i, reg, e)" by (cases ?run)
  have "records reg = []"
    by (rule fails_closed_without_libsodium [OF _ run]) simp
  then show ?thesis unfolding run by simp
qed

text \<open>What identity bookkeeping keeps: pinned keys stay.\<close>

definition keeps_pins :: "IdentityService option \<Rightarrow> IdentityService option \<Rightarrow> bool" where
  "keeps_pins before after \<longleftrightarrow>
     (before = None \<longleftrightarrow> after = None) \<and>
     (\<forall>svc svc' aid key. before = Some svc \<longrightarrow> after = Some svc' \<longrightarrow> pinned svc aid = Some key \<longrightarrow>
        pinned svc' aid = Some key)"

lemma keeps_pins_refl [simp]: "keeps_pins i i"
  by (auto simp: keeps_pins_def)

lemma keeps_pins_trans: "keeps_pins i j \<Longrightarrow> keeps_pins j k \<Longrightarrow> keeps_pins i k"
  by (cases i; cases j; cases k) (auto simp: keeps_pins_def)

lemma register_identity_keeps:
  "pred_option identity_wf i \<Longrightarrow>
   pred_option identity_wf (register_identity lib r i) \<and> keeps_pins i (register_identity lib r i)"
  by (cases i) (auto simp: register_identity_def keeps_pins_def identity_wf_verify_and_register
      pinned_verify_and_register)

lemma handle_line_invariant:
  assumes "handle_line lib now proto line identity reg env = (reply, identity', reg', env')"
    and "registry_wf (records reg)" and "pred_option identity_wf identity"
  shows "registry_wf (records reg') \<and> pred_option identity_wf identity' \<and> keeps_pins identity identity'"
  using assms(1)
proof (cases rule: handle_line_cases)
  case (stored r)
  then show ?thesis
    using assms(2,3) record_wf_parse_command [of now proto line]
    by (auto simp: upsert_alt register_identity_keeps registry_wf_upsert_records)
next
  case (heartbeat aid t n)
  then show ?thesis
    using assms(2,3) registry_wf_refresh_heartbeat [of reg aid t n] by simp
qed (use assms in simp_all)

text \<open>
  Any sequence of lines keeps one well-formed record per agent and an ordered trust
  store, and never replaces or drops a key that was pinned.
\<close>

theorem run_lines_invariant:
  fixes reg :: "'e AgentRegistry"
  assumes "registry_wf (records reg)" and "pred_option identity_wf identity"
    and "run_lines lib proto ls identity reg env = (identity', reg', env')"
  shows "registry_wf (records reg') \<and> pred_option identity_wf identity' \<and> keeps_pins identity identity'"
  using assms
proof (induction ls arbitrary: identity reg env)
  case (Cons p ls)
  obtain now line where p: "p = (now, line)" by fastforce
  obtain reply i1 reg1 e1 where h: "handle_line lib now proto line identity reg env = (reply, i1, reg1, e1)"
    by (cases "handle_line lib now proto line identity reg env")
  note one = handle_line_invariant [OF h Cons.prems(1,2)]
  have "run_lines lib proto ls i1 reg1 e1 = (identity', reg', env')"
    using Cons.prems(3) by (simp add: p h)
  with Cons.IH [of reg1 i1 e1] one show ?case by (auto intro: keeps_pins_trans)
qed simp

theorem run_lines_invariant_witness:
  "keeps_pins (Some new_IdentityService) (fst (run_lines None
     \<lparr>proto_lifecycle = default_LifecycleConfig, proto_trust = default_TrustConfig\<rparr>
     [(0, ''REGISTER agent_id=a node_id=n endpoint=e revision=1'')] (Some new_IdentityService)
     (new_AgentRegistry :: unit AgentRegistry) ()))"
proof -
  let ?run = "run_lines None
     \<lparr>proto_lifecycle = default_LifecycleConfig, proto_trust = default_TrustConfig\<rparr>
     [(0, ''REGISTER agent_id=a node_id=n endpoint=e revision=1'')] (Some new_IdentityService)
     (new_AgentRegistry :: unit AgentRegistry) ()"
  obtain i reg e where run: "?run = (i, reg, e)" by (cases ?run)
  have "keeps_pins (Some new_IdentityService) i"
    using run_lines_invariant [OF _ _ run] by (simp add: new_AgentRegistry_def identity_wf_new)
  then show ?thesis unfolding run by simp
qed

text \<open>
  The control path does not consult the trust store before it stores a record.  When
  an agent's key is pinned but its record has gone, a registration with a valid signature under
  another key is answered with success and stored, although the identity service rejects that very
  record, as a merge with the same service does.
\<close>

theorem control_line_ignores_pin:
  fixes reg :: "'e AgentRegistry"
  assumes "line_safe r" and "node_id r \<noteq> []" and "endpoint r \<noteq> []" and "memcmp_ok lib"
    and "verify_agent_signature lib r = Valid" and "find_record (agent_id r) reg = None"
    and "pinned svc (agent_id r) = Some key" and "key \<noteq> decode_hex (public_key_hex r)"
  shows "fst (verify_and_register lib r svc) = Invalid \<and>
     merge lib [r] (Some svc) reg env 0 = (0, Some svc, reg, env) \<and>
     (case handle_line lib now proto (''REGISTER'' @ blank_prefixed (record_tokens r)) (Some svc) reg env of
        (reply, _, reg', _) \<Rightarrow> reply = ''OK message=registered'' @ nl \<and>
          map_option public_key_hex (find_record (agent_id r) reg') = Some (public_key_hex r))"
proof -
  have invalid: "verify_and_register lib r svc = (Invalid, svc)"
    using assms(4-8) by (auto simp: verify_and_register_def pinned_def constant_time_equals_iff
        verify_agent_signature_Valid_iff Let_def)
  have l: "lookup (records reg) (agent_id r) = None" using assms(6) by (simp add: find_record_lookup)
  show ?thesis
    unfolding handle_register_line [OF assms(1-3)]
    using assms(5) l
    by (simp add: invalid handle_registration_def signature_rejection_def upsert_alt Let_def
        upsert_records_accepts supersedes_def find_record_lookup lookup_upsert_records)
qed

theorem control_line_ignores_pin_witness:
  "fst (handle_line (Some sample_sodium) 0
      \<lparr>proto_lifecycle = default_LifecycleConfig, proto_trust = default_TrustConfig\<rparr>
      (''REGISTER'' @ blank_prefixed (record_tokens (sample_sign 2 (sample_record ''a'' 1 0))))
      (Some \<lparr>trust_store = [(''a'', [7])]\<rparr>) (new_AgentRegistry :: unit AgentRegistry) ())
   = ''OK message=registered'' @ nl"
proof -
  let ?r = "sample_sign 2 (sample_record ''a'' 1 0)" and ?svc = "\<lparr>trust_store = [(''a'', [7])]\<rparr>"
  have safe: "line_safe ?r" "node_id ?r \<noteq> []" "endpoint ?r \<noteq> []"
    by (simp_all add: line_safe_def sample_sign_def sample_record_def token_simps is_space_def)
  have "find_record (agent_id ?r) (new_AgentRegistry :: unit AgentRegistry) = None"
    by (simp add: find_record_lookup new_AgentRegistry_def)
  moreover have "pinned ?svc (agent_id ?r) = Some [7]"
    by (simp add: pinned_def omap_get_def sample_sign_def sample_record_def)
  moreover have "[7] \<noteq> decode_hex (public_key_hex ?r)"
    by (simp add: sample_sign_def decode_encode_hex numeral_eq_Suc)
  ultimately show ?thesis
    using control_line_ignores_pin [OF safe memcmp_ok_sample verify_sample_sign, of
        "new_AgentRegistry :: unit AgentRegistry" ?svc "[7]" "()" 0
        "\<lparr>proto_lifecycle = default_LifecycleConfig, proto_trust = default_TrustConfig\<rparr>"]
    by (simp only: case_prod_unfold) blast
qed

end
