(* ===== verification/Registry_Sync.thy ===== *)
theory Registry_Sync
  imports Control_Protocol
begin

text \<open>
  \<^verbatim>\<open>src/src/beacon/registry_sync.cpp\<close>: what a synchronisation round pushes, the merge of what it
  pulled, and the two commands it sends.  A \<^verbatim>\<open>RegistrySync\<close> object is its one member, the maximum
  number of entries per round.
\<close>

record SyncPlan =
  local_revision :: u64
  push_entries :: "AgentRecord list"

record RegistrySync =
  sync_max_entries :: u64

definition new_RegistrySync :: "u64 \<Rightarrow> RegistrySync" where
  [simp]: "new_RegistrySync max_entries = \<lparr>sync_max_entries = max_entries\<rparr>"

definition plan_push_pull :: "'e AgentRegistry \<Rightarrow> u64 \<Rightarrow> RegistrySync \<Rightarrow> SyncPlan" where
  "plan_push_pull reg remote_revision sync =
     \<lparr>local_revision = highest_revision (stats reg),
      push_entries = entries_after_revision remote_revision (sync_max_entries sync) reg\<rparr>"

definition merge_remote ::
  "sodium option \<Rightarrow> AgentRecord list \<Rightarrow> IdentityService option \<Rightarrow> 'e AgentRegistry \<Rightarrow> 'e
   \<Rightarrow> nat \<times> IdentityService option \<times> 'e AgentRegistry \<times> 'e" where
  "merge_remote lib remote_entries identity reg env = merge lib remote_entries identity reg env 0"

text \<open>\<^verbatim>\<open>command.replace(0, 5, "MERGE")\<close> and the removal of a final newline.\<close>

definition encode_merge_command :: "AgentRecord \<Rightarrow> string" where
  "encode_merge_command r =
     (let command = ''MERGE'' @ drop 5 (encode_agent_line r)
      in if command \<noteq> [] \<and> last command = newline then butlast command else command)"

definition encode_sync_pull_command :: "u64 \<Rightarrow> u64 \<Rightarrow> string" where
  "encode_sync_pull_command after max_entries =
     ''SYNC_PULL after_revision='' @ to_string (unat after) @ '' limit='' @ to_string (unat max_entries)"

section \<open>The commands on the line\<close>

lemma encode_merge_command_alt:
  "encode_merge_command r = ''MERGE'' @ blank_prefixed (record_tokens r)"
proof -
  have "''MERGE'' @ drop 5 (encode_agent_line r) = (''MERGE'' @ blank_prefixed (record_tokens r)) @ [newline]"
    by (simp add: encode_agent_line_alt nl_def)
  then show ?thesis unfolding encode_merge_command_def Let_def by simp
qed

lemma parse_encode_sync_pull:
  "parse_command now proto (encode_sync_pull_command n k) =
     (new_ControlCommand now)\<lparr>action := ControlAction_SyncPull, after_revision := n, limit := k\<rparr>"
proof -
  let ?a = "''after_revision='' @ to_string (unat n)" and ?l = "''limit='' @ to_string (unat k)"
  have "encode_sync_pull_command n k = ''SYNC_PULL'' @ blank_prefixed [?a, ?l]"
    by (simp add: encode_sync_pull_command_def)
  moreover have "list_all is_token [?a, ?l]" "is_token ''SYNC_PULL''"
    by (simp_all add: is_token_iff token_simps is_space_def)
  ultimately have "control_split_tokens (encode_sync_pull_command n k) = [''SYNC_PULL'', ?a, ?l]"
    unfolding control_split_tokens_def by (simp only: stream_tokens_line)
  then show ?thesis
    by (simp add: parse_command_def parse_verb_def parse_field_def starts_with_def rfind_at_0_def
        get_value_fields token_simps check_required_def new_ControlCommand_def)
qed

lemma parse_stats: "parse_command now proto ''STATS'' = (new_ControlCommand now)\<lparr>action := ControlAction_Stats\<rparr>"
proof -
  have "control_split_tokens ''STATS'' = [''STATS'']"
    by (simp add: control_split_tokens_def stream_tokens_single is_token_def is_space_def)
  then show ?thesis
    by (simp add: parse_command_def parse_verb_def check_required_def new_ControlCommand_def)
qed

section \<open>Properties\<close>

text \<open>
  The peer that receives the merge command of a record reads exactly that record,
  metadata and signature included, with a fresh lease.
\<close>

theorem parse_encode_merge_command:
  assumes "line_safe r" and "node_id r \<noteq> []" and "endpoint r \<noteq> []"
  shows "parse_command now proto (encode_merge_command r) =
     (new_ControlCommand now)\<lparr>action := ControlAction_Merge, cmd_agent_id := agent_id r,
       registration := r\<lparr>expires_at := now + milliseconds (heartbeat_ttl (proto_lifecycle proto))\<rparr>\<rparr>"
  unfolding encode_merge_command_alt
  by (rule parse_registration_line [OF assms]) simp

theorem parse_encode_merge_command_witness:
  "action (parse_command 0 \<lparr>proto_lifecycle = default_LifecycleConfig, proto_trust = default_TrustConfig\<rparr>
     (encode_merge_command (sample_record ''a'' 1 0))) = ControlAction_Merge"
  using parse_encode_merge_command [of "sample_record ''a'' 1 0"]
  by (simp add: line_safe_def sample_record_def token_simps is_space_def)

end
