(* ===== verification/Sync_Client.thy ===== *)
theory Sync_Client
  imports Registry_Sync
begin

text \<open>
  \<^verbatim>\<open>src/src/beacon_net/sync_client.cpp\<close>: a synchronisation round with one peer.  The sockets of
  Boost.Asio are not part of the repository: one connection is a function \<open>net\<close> from the peer and
  the octets written to the outcome, threading a world \<open>'w\<close> that stands for the other end.  The
  clock is a function of the number of readings taken before.
\<close>

record SyncPeer =
  peer_host :: string
  peer_control_port :: u16

record SyncResult =
  pulled :: nat
  pushed :: nat

record SyncClient =
  max_entries_per_round :: u64

definition new_SyncClient :: "u64 \<Rightarrow> SyncClient" where
  [simp]: "new_SyncClient max_entries = \<lparr>max_entries_per_round = max_entries\<rparr>"

text \<open>
  A connection fails to open, or the read ends: with an error code or at the end of the stream,
  with what was received until then.
\<close>

datatype read_end = Read_ok | Read_eof | Read_error string

datatype exchange = Connect_error string | Exchange string read_end

type_synonym 'w transport = "SyncPeer \<Rightarrow> string \<Rightarrow> 'w \<Rightarrow> exchange \<times> 'w"

definition field_value :: "string \<Rightarrow> string" where
  "field_value token = after_equals token"

definition sync_parse_revision :: "string \<Rightarrow> u64 \<Rightarrow> bool \<times> u64" where
  "sync_parse_revision s out =
     (let (out', ec, rest) = from_chars s out in (ec = Errc_ok \<and> rest = [], out'))"

text \<open>The body of the loop over the tokens of an agent line; the boolean of the parser is dropped.\<close>

definition agent_field :: "string \<Rightarrow> AgentRecord \<Rightarrow> AgentRecord" where
  "agent_field token r =
     (if rfind_at_0 token ''agent_id='' then r\<lparr>agent_id := field_value token\<rparr>
      else if rfind_at_0 token ''node_id='' then r\<lparr>node_id := field_value token\<rparr>
      else if rfind_at_0 token ''endpoint='' then r\<lparr>endpoint := field_value token\<rparr>
      else if rfind_at_0 token ''revision='' then
        r\<lparr>revision := snd (sync_parse_revision (field_value token) (revision r))\<rparr>
      else if rfind_at_0 token ''public_key='' then r\<lparr>public_key_hex := field_value token\<rparr>
      else if rfind_at_0 token ''signature='' then r\<lparr>signature_hex := field_value token\<rparr>
      else if rfind_at_0 token ''metadata.'' then
        (case find_char (CHR ''='') token of
           None \<Rightarrow> r
         | Some equals \<Rightarrow>
             r\<lparr>metadata := omap_set (substr 9 (equals - 9) token) (drop (equals + 1) token) (metadata r)\<rparr>)
      else r)"

text \<open>One line: \<^const>\<open>None\<close> when it is not an agent line (the first extraction may fail).\<close>

definition parse_agent_line :: "time_point \<Rightarrow> string \<Rightarrow> AgentRecord option" where
  "parse_agent_line now line =
     (case stream_extract line of
        None \<Rightarrow> None
      | Some (token, rest) \<Rightarrow>
          if token \<noteq> ''AGENT'' then None
          else Some (fold agent_field (stream_tokens rest)
                       ((new_AgentRecord now)\<lparr>expires_at := now + minutes 1\<rparr>)))"

fun parse_lines :: "(nat \<Rightarrow> time_point) \<Rightarrow> nat \<Rightarrow> string list \<Rightarrow> AgentRecord list" where
  "parse_lines clock k [] = []"
| "parse_lines clock k (line # ls) =
     (case parse_agent_line (clock k) line of
        None \<Rightarrow> parse_lines clock k ls
      | Some r \<Rightarrow>
          if agent_id r \<noteq> [] then r # parse_lines clock (k + 1) ls else parse_lines clock (k + 1) ls)"

definition parse_agent_lines :: "(nat \<Rightarrow> time_point) \<Rightarrow> string \<Rightarrow> AgentRecord list" where
  "parse_agent_lines clock response = parse_lines clock 0 (stream_lines response)"

fun find_highest_revision :: "string list \<Rightarrow> u64" where
  "find_highest_revision [] = 0"
| "find_highest_revision (token # tokens) =
     (if rfind_at_0 token ''highest_revision='' then snd (sync_parse_revision (field_value token) 0)
      else find_highest_revision tokens)"

definition parse_highest_revision :: "string \<Rightarrow> u64" where
  "parse_highest_revision response = find_highest_revision (stream_tokens response)"

section \<open>A round\<close>

text \<open>\<^const>\<open>Inl\<close> is the exception: a failed connection, or a read error other than end of file.\<close>

definition send_command ::
  "'w transport \<Rightarrow> SyncPeer \<Rightarrow> string \<Rightarrow> 'w \<Rightarrow> (string + string) \<times> 'w" where
  "send_command net peer command w =
     (case net peer (command @ nl) w of
        (Connect_error e, w') \<Rightarrow> (Inl e, w')
      | (Exchange response err, w') \<Rightarrow>
          (case err of Read_error e \<Rightarrow> (Inl e, w') | _ \<Rightarrow> (Inr response, w')))"

definition merge_response ::
  "sodium option \<Rightarrow> (nat \<Rightarrow> time_point) \<Rightarrow> string \<Rightarrow> IdentityService option \<Rightarrow> 'e AgentRegistry \<Rightarrow> 'e
   \<Rightarrow> nat \<times> IdentityService option \<times> 'e AgentRegistry \<times> 'e" where
  "merge_response lib clock response identity reg env =
     merge lib (parse_agent_lines clock response) identity reg env 0"

fun push_loop ::
  "'w transport \<Rightarrow> SyncPeer \<Rightarrow> AgentRecord list \<Rightarrow> nat \<Rightarrow> 'w \<Rightarrow> (string + nat) \<times> 'w" where
  "push_loop net peer [] n w = (Inr n, w)"
| "push_loop net peer (entry # entries) n w =
     (case send_command net peer (encode_merge_command entry) w of
        (Inl e, w') \<Rightarrow> (Inl e, w')
      | (Inr response, w') \<Rightarrow>
          push_loop net peer entries (if rfind_at_0 response ''OK'' then n + 1 else n) w')"

definition push_entries_to :: "'w transport \<Rightarrow> SyncPeer \<Rightarrow> AgentRecord list \<Rightarrow> 'w \<Rightarrow> (string + nat) \<times> 'w" where
  "push_entries_to net peer entries w = push_loop net peer entries 0 w"

text \<open>
  The whole round.  What was merged before an exception stays merged: the caller sees the
  exception and the new registry.
\<close>

definition sync_with_peer ::
  "sodium option \<Rightarrow> (nat \<Rightarrow> time_point) \<Rightarrow> 'w transport \<Rightarrow> SyncClient \<Rightarrow> SyncPeer \<Rightarrow>
   IdentityService option \<Rightarrow> 'e AgentRegistry \<Rightarrow> 'e \<Rightarrow> 'w \<Rightarrow>
   (string + SyncResult) \<times> IdentityService option \<times> 'e AgentRegistry \<times> 'e \<times> 'w" where
  "sync_with_peer lib clock net client peer identity reg env w =
     (let local = highest_revision (stats reg)
      in case send_command net peer ''STATS'' w of
           (Inl e, w1) \<Rightarrow> (Inl e, identity, reg, env, w1)
         | (Inr remote_stats, w1) \<Rightarrow>
             (let remote_revision = parse_highest_revision remote_stats
              in case send_command net peer (encode_sync_pull_command local (max_entries_per_round client)) w1 of
                   (Inl e, w2) \<Rightarrow> (Inl e, identity, reg, env, w2)
                 | (Inr response, w2) \<Rightarrow>
                     (let (n, identity', reg', env') = merge_response lib clock response identity reg env;
                          plan = plan_push_pull reg' remote_revision (new_RegistrySync (max_entries_per_round client))
                      in case push_entries_to net peer (push_entries plan) w2 of
                           (Inl e, w3) \<Rightarrow> (Inl e, identity', reg', env', w3)
                         | (Inr m, w3) \<Rightarrow> (Inr \<lparr>pulled = n, pushed = m\<rparr>, identity', reg', env', w3))))"

section \<open>The reader of agent lines\<close>

interpretation line: record_reader "\<lambda>t r. Some (agent_field t r)" "\<lambda>v r. r\<lparr>agent_id := v\<rparr>" "\<lambda>f r. f r"
proof unfold_locales
  fix k v r
  assume "CHR ''='' \<notin> set k"
  note meta = metadata_token [OF this, of v]
  show "Some (agent_field (''metadata.'' @ k @ ''='' @ v) r) = Some (r\<lparr>metadata := omap_set k v (metadata r)\<rparr>)"
    using meta by (simp add: agent_field_def rfind_at_0_def)
qed (simp_all add: agent_field_def rfind_at_0_def field_value_def get_value_fields [unfolded get_value_def]
    sync_parse_revision_def from_chars_to_string)

lemma read_tokens_total: "read_tokens (\<lambda>t s. Some (f t s)) ts s = Some (fold f ts s)"
  by (induction ts arbitrary: s) simp_all

lemma parse_agent_line_encoded:
  assumes "line_safe r"
  shows "parse_agent_line now (''AGENT'' @ blank_prefixed (record_tokens r)) = Some (r\<lparr>expires_at := now + minutes 1\<rparr>)"
proof -
  have meta: "fold (\<lambda>(k, v). omap_set k v) (metadata r) [] = metadata r"
    using fold_omap_set_rebuild [of "[]" "metadata r"] assms by (simp add: line_safe_def)
  have "fold agent_field (record_tokens r) ((new_AgentRecord now)\<lparr>expires_at := now + minutes 1\<rparr>)
      = r\<lparr>expires_at := now + minutes 1\<rparr>"
    using line.read_record_tokens [OF assms, of "(new_AgentRecord now)\<lparr>expires_at := now + minutes 1\<rparr>"] meta
    unfolding read_tokens_total by (simp add: new_AgentRecord_def AgentRecord.equality)
  moreover have "stream_extract (''AGENT'' @ blank_prefixed (record_tokens r)) = Some (''AGENT'', blank_prefixed (record_tokens r))"
    by (rule stream_extract_line) (simp add: is_token_def is_space_def)
  ultimately show ?thesis
    by (simp add: parse_agent_line_def stream_tokens_blank_prefixed record_tokens_are_tokens assms)
qed

text \<open>A response of the peer: a status line, agent lines and the end marker.\<close>

lemma stream_lines_agent_lines:
  "list_all line_safe rs \<Longrightarrow>
   stream_lines (encode_agent_lines rs @ rest) =
     map (\<lambda>r. ''AGENT'' @ blank_prefixed (record_tokens r)) rs @ stream_lines rest"
proof (induction rs)
  case (Cons r rs)
  then have "stream_lines ((''AGENT'' @ blank_prefixed (record_tokens r)) @ newline # encode_agent_lines rs @ rest)
      = (''AGENT'' @ blank_prefixed (record_tokens r)) # stream_lines (encode_agent_lines rs @ rest)"
    by (intro stream_lines_Cons agent_line_no_newline) simp
  moreover have "encode_agent_lines (r # rs) @ rest
      = (''AGENT'' @ blank_prefixed (record_tokens r)) @ newline # encode_agent_lines rs @ rest"
    by (simp add: encode_agent_lines_def encode_agent_line_alt nl_def)
  ultimately show ?case using Cons by simp
qed (simp add: encode_agent_lines_def)

lemma parse_lines_agent_lines:
  "list_all line_safe rs \<Longrightarrow>
   parse_lines clock k (map (\<lambda>r. ''AGENT'' @ blank_prefixed (record_tokens r)) rs @ ls) =
     map (\<lambda>(i, r). r\<lparr>expires_at := clock i + minutes 1\<rparr>) (enumerate k rs) @ parse_lines clock (k + length rs) ls"
proof (induction rs arbitrary: k)
  case (Cons r rs)
  then have "agent_id r \<noteq> []" by (simp add: line_safe_def)
  moreover have "parse_agent_line (clock k) (''AGENT'' @ blank_prefixed (record_tokens r))
      = Some (r\<lparr>expires_at := clock k + minutes 1\<rparr>)"
    using Cons.prems by (intro parse_agent_line_encoded) simp
  ultimately show ?case
    using Cons.IH [of "k + 1"] Cons.prems by simp
qed simp

lemma parse_agent_lines_response:
  assumes "list_all line_safe rs" and "newline \<notin> set status" and "\<And>t. parse_agent_line t status = None"
  shows "parse_agent_lines clock (status @ nl @ encode_agent_lines rs @ ''END'' @ nl) =
     map (\<lambda>(i, r). r\<lparr>expires_at := clock i + minutes 1\<rparr>) (enumerate 0 rs)"
proof -
  have end_line: "stream_lines (''END'' @ nl) = [''END'']"
    using stream_lines_Cons [of "''END''" "[]"] by (simp add: nl_def newline_def stream_lines_Nil)
  have "stream_extract ''END'' = Some (''END'', [])"
    by (rule stream_extract_token [of _ "[]", simplified]) (simp add: is_token_def is_space_def)
  then have skip: "parse_agent_line t ''END'' = None" for t by (simp add: parse_agent_line_def)
  have "stream_lines (status @ nl @ encode_agent_lines rs @ ''END'' @ nl) =
      status # map (\<lambda>r. ''AGENT'' @ blank_prefixed (record_tokens r)) rs @ [''END'']"
    using stream_lines_Cons [OF assms(2), of "encode_agent_lines rs @ ''END'' @ nl"]
    by (simp add: nl_def stream_lines_agent_lines [OF assms(1)] end_line [unfolded nl_def, simplified])
  then show ?thesis
    using parse_lines_agent_lines [OF assms(1), of clock 0 "[''END'']"] skip
    by (simp add: parse_agent_lines_def assms(3))
qed

end
