(* ===== verification/Control_Protobuf.thy ===== *)
theory Control_Protobuf
  imports Control_Protocol Framing
begin

text \<open>
  \<^verbatim>\<open>src/src/beacon/control_protobuf.cpp\<close>: the binary control channel.  The message classes are those of
  \<^verbatim>\<open>src/proto/beaconnode/v1/registry.proto\<close>; their wire format is generated code outside the
  repository, so parsing and serialising are the two fields of the record \<open>protobuf\<close>.  A protobuf
  map is the list of its entries in iteration order, which protobuf leaves open; inserting keeps
  one entry per key.
\<close>

section \<open>Messages\<close>

record AgentRegistration =
  pb_agent_id :: string
  pb_node_id :: string
  pb_endpoint :: string
  pb_metadata :: "string omap"
  pb_revision :: u64
  pb_expires_at_unix_ms :: u64
  pb_public_key :: bytes
  pb_signature :: bytes

definition new_AgentRegistration :: AgentRegistration where
  "new_AgentRegistration =
     \<lparr>pb_agent_id = [], pb_node_id = [], pb_endpoint = [], pb_metadata = [], pb_revision = 0,
      pb_expires_at_unix_ms = 0, pb_public_key = [], pb_signature = []\<rparr>"

record Heartbeat =
  hb_agent_id :: string
  hb_node_id :: string
  hb_revision :: u64
  hb_observed_at_unix_ms :: u64
  hb_signature :: bytes

text \<open>The \<^verbatim>\<open>oneof body\<close>; \<open>Body_not_set\<close> when no alternative is present.\<close>

datatype ControlRequest =
    Register_agent AgentRegistration
  | Heartbeat_request Heartbeat
  | List_agents string string
  | Sync_pull u64 u32
  | Sync_merge AgentRegistration
  | Stats_request
  | Body_not_set

record ControlResponse =
  resp_ok :: bool
  resp_message :: string
  resp_snapshot :: "AgentRegistration list option"

definition new_ControlResponse :: ControlResponse where
  "new_ControlResponse = \<lparr>resp_ok = False, resp_message = [], resp_snapshot = None\<rparr>"

record protobuf =
  ParseFromArray :: "bytes \<Rightarrow> int \<Rightarrow> ControlRequest option"
  SerializeToString :: "ControlResponse \<Rightarrow> bytes option"

text \<open>\<^verbatim>\<open>static_cast<int>(payload.size())\<close> on a 32-bit \<^verbatim>\<open>int\<close>.\<close>

definition int_of_size :: "nat \<Rightarrow> int" where
  "int_of_size n = sint (word_of_nat n :: u32)"

section \<open>Conversions\<close>

definition from_proto :: "time_point \<Rightarrow> AgentRegistration \<Rightarrow> LifecycleConfig \<Rightarrow> AgentRecord" where
  "from_proto now proto lifecycle =
     (new_AgentRecord now)
       \<lparr>agent_id := pb_agent_id proto,
        node_id := pb_node_id proto,
        endpoint := pb_endpoint proto,
        revision := pb_revision proto,
        expires_at := now + milliseconds (heartbeat_ttl lifecycle),
        public_key_hex := encode_hex (pb_public_key proto),
        signature_hex := encode_hex (pb_signature proto),
        metadata := fold (\<lambda>(k, v). omap_set k v) (pb_metadata proto) []\<rparr>"

definition to_proto :: "AgentRecord \<Rightarrow> AgentRegistration \<Rightarrow> AgentRegistration" where
  "to_proto r proto =
     proto
       \<lparr>pb_agent_id := agent_id r,
        pb_node_id := node_id r,
        pb_endpoint := endpoint r,
        pb_revision := revision r,
        pb_metadata := fold (\<lambda>(k, v). omap_set k v) (metadata r) (pb_metadata proto),
        pb_public_key := decode_hex (public_key_hex r),
        pb_signature := decode_hex (signature_hex r)\<rparr>"

definition set_status :: "bool \<Rightarrow> string \<Rightarrow> ControlResponse \<Rightarrow> ControlResponse" where
  "set_status ok message response = response\<lparr>resp_ok := ok, resp_message := message\<rparr>"

text \<open>\<^verbatim>\<open>to_proto(record, *response.mutable_snapshot()->add_agents())\<close>.\<close>

definition add_agent :: "AgentRecord \<Rightarrow> ControlResponse \<Rightarrow> ControlResponse" where
  "add_agent r response =
     response\<lparr>resp_snapshot :=
       Some (case_option [] id (resp_snapshot response) @ [to_proto r new_AgentRegistration])\<rparr>"

definition signature_allowed ::
  "sodium option \<Rightarrow> AgentRecord \<Rightarrow> TrustConfig \<Rightarrow> ControlResponse \<Rightarrow> bool \<times> ControlResponse" where
  "signature_allowed lib r trust response =
     (let signature_status = verify_agent_signature lib r
      in if require_signatures trust \<and> signature_status \<noteq> Valid then
           (False, set_status False (signature_status_message signature_status) response)
         else if \<not> require_signatures trust \<and> signature_status = Invalid then
           (False, set_status False ''invalid_signature'' response)
         else (True, response))"

section \<open>Requests\<close>

text \<open>
  What the move constructor leaves in its source: the strings and the map are empty, the plain
  members keep their values.
\<close>

definition moved_from :: "AgentRecord \<Rightarrow> AgentRecord" where
  "moved_from r =
     r\<lparr>agent_id := [], node_id := [], endpoint := [], metadata := [],
       public_key_hex := [], signature_hex := []\<rparr>"

text \<open>The branches for \<^verbatim>\<open>register_agent\<close> and \<^verbatim>\<open>sync_merge\<close>, equal up to the word of the reply.\<close>

definition handle_proto_registration ::
  "sodium option \<Rightarrow> time_point \<Rightarrow> ControlProtocol \<Rightarrow> string \<Rightarrow> AgentRegistration \<Rightarrow>
   IdentityService option \<Rightarrow> 'e AgentRegistry \<Rightarrow> 'e \<Rightarrow>
   ControlResponse \<times> IdentityService option \<times> 'e AgentRegistry \<times> 'e" where
  "handle_proto_registration lib now proto done_word body identity reg env =
     (let r = from_proto now body (proto_lifecycle proto);
          response = new_ControlResponse
      in if agent_id r = [] \<or> node_id r = [] \<or> endpoint r = [] then
           (set_status False ''agent_id_node_id_and_endpoint_required'' response, identity, reg, env)
         else (case signature_allowed lib r (proto_trust proto) response of
                 (False, response) \<Rightarrow> (response, identity, reg, env)
               | (True, response) \<Rightarrow>
                   (let (accepted, reg', env') = upsert r reg env;
                        r = moved_from r;
                        identity' =
                          (case identity of
                             None \<Rightarrow> None
                           | Some svc \<Rightarrow>
                               if accepted then Some (snd (verify_and_register lib r svc)) else Some svc)
                    in (set_status accepted (if accepted then done_word else ''stale_revision'') response,
                        identity', reg', env'))))"

definition handle_control_request ::
  "sodium option \<Rightarrow> time_point \<Rightarrow> ControlProtocol \<Rightarrow> ControlRequest option \<Rightarrow>
   IdentityService option \<Rightarrow> 'e AgentRegistry \<Rightarrow> 'e \<Rightarrow>
   ControlResponse \<times> IdentityService option \<times> 'e AgentRegistry \<times> 'e" where
  "handle_control_request lib now proto request identity reg env =
     (let response = new_ControlResponse
      in case request of
           None \<Rightarrow> (set_status False ''invalid_protobuf_control_request'' response, identity, reg, env)
         | Some (Register_agent body) \<Rightarrow>
             handle_proto_registration lib now proto ''registered'' body identity reg env
         | Some (Sync_merge body) \<Rightarrow>
             handle_proto_registration lib now proto ''merged'' body identity reg env
         | Some (Heartbeat_request hb) \<Rightarrow>
             (let (accepted, reg') =
                    refresh_heartbeat (hb_agent_id hb)
                      (now + milliseconds (heartbeat_ttl (proto_lifecycle proto))) (hb_revision hb) reg
              in (set_status accepted (if accepted then ''heartbeat'' else ''unknown_or_stale_agent'') response,
                  identity, reg', env))
         | Some (List_agents _ _) \<Rightarrow>
             (fold add_agent (list_records reg) (set_status True ''list'' response), identity, reg, env)
         | Some (Sync_pull after n) \<Rightarrow>
             (fold add_agent (entries_after_revision after (ucast n) reg)
                (set_status True ''sync_pull'' response), identity, reg, env)
         | Some Stats_request \<Rightarrow>
             (let st = stats reg
              in (set_status True
                    (''active_agents='' @ to_string (active_agents st) @
                     '' highest_revision='' @ to_string (unat (highest_revision st))) response,
                  identity, reg, env))
         | Some Body_not_set \<Rightarrow>
             (set_status False ''empty_control_request'' response, identity, reg, env))"

definition handle_control_request_payload ::
  "protobuf \<Rightarrow> sodium option \<Rightarrow> time_point \<Rightarrow> ControlProtocol \<Rightarrow> bytes \<Rightarrow>
   IdentityService option \<Rightarrow> 'e AgentRegistry \<Rightarrow> 'e \<Rightarrow>
   bytes \<times> IdentityService option \<times> 'e AgentRegistry \<times> 'e" where
  "handle_control_request_payload pb lib now proto bs identity reg env =
     (let (response, identity', reg', env') =
            handle_control_request lib now proto (ParseFromArray pb bs (int_of_size (length bs)))
              identity reg env
      in (case SerializeToString pb response of None \<Rightarrow> [] | Some out \<Rightarrow> out, identity', reg', env'))"

definition handle_control_frame ::
  "protobuf \<Rightarrow> sodium option \<Rightarrow> time_point \<Rightarrow> ControlProtocol \<Rightarrow> bytes \<Rightarrow>
   IdentityService option \<Rightarrow> 'e AgentRegistry \<Rightarrow> 'e \<Rightarrow>
   bytes \<times> IdentityService option \<times> 'e AgentRegistry \<times> 'e" where
  "handle_control_frame pb lib now proto frame_bytes identity reg env =
     (let invalid =
            (case SerializeToString pb (set_status False ''invalid_control_frame'' new_ControlResponse) of
               None \<Rightarrow> ([], identity, reg, env)
             | Some out \<Rightarrow>
                 (encode_frame \<lparr>frame_kind = FrameKind_ControlResponse, payload = out\<rparr>, identity, reg, env))
      in case decode_frame frame_bytes of
           None \<Rightarrow> invalid
         | Some frame \<Rightarrow>
             if frame_kind frame \<noteq> FrameKind_ControlRequest then invalid
             else
               (let (out, identity', reg', env') =
                      handle_control_request_payload pb lib now proto (payload frame) identity reg env
                in (encode_frame \<lparr>frame_kind = FrameKind_ControlResponse, payload = out\<rparr>,
                    identity', reg', env')))"

section \<open>The wire form of a record\<close>

text \<open>Lower-case hexadecimal text is the only text that survives the passage through octets.\<close>

definition canonical_hex :: "AgentRecord \<Rightarrow> bool" where
  "canonical_hex r \<longleftrightarrow>
     encode_hex (decode_hex (public_key_hex r)) = public_key_hex r \<and>
     encode_hex (decode_hex (signature_hex r)) = signature_hex r"

lemma rebuild_metadata: "omap_wf m \<Longrightarrow> fold (\<lambda>(k, v). omap_set k v) m [] = m"
  using fold_omap_set_rebuild [of "[]" m] by simp

lemma from_proto_to_proto:
  assumes "record_wf r" and "canonical_hex r"
  shows "from_proto now (to_proto r new_AgentRegistration) lifecycle =
     r\<lparr>expires_at := now + milliseconds (heartbeat_ttl lifecycle)\<rparr>"
  using assms
  by (simp add: from_proto_def to_proto_def new_AgentRegistration_def new_AgentRecord_def
      rebuild_metadata record_wf_def canonical_hex_def)

lemma canonical_hex_sample: "canonical_hex (sample_sign seed r)"
  by (simp add: canonical_hex_def sample_sign_def decode_encode_hex)

lemma canonical_hex_unsigned: "canonical_hex (sample_record aid n t)"
proof -
  have "decode_hex [] = []" by (simp add: decode_hex_def)
  then show ?thesis by (simp add: canonical_hex_def sample_record_def)
qed

lemma verify_moved_from: "verify_and_register lib (moved_from r) svc = (Missing, svc)"
  by (simp add: verify_and_register_def verify_agent_signature_def moved_from_def Let_def)

lemma proto_registration_keeps_identity:
  "fst (snd (handle_proto_registration lib now proto w body identity reg env)) = identity"
  by (auto simp: handle_proto_registration_def verify_moved_from Let_def split: prod.split bool.split option.split)

lemma request_keeps_identity:
  "fst (snd (handle_control_request lib now proto request identity reg env)) = identity"
  by (auto simp: handle_control_request_def proto_registration_keeps_identity Let_def
      split: option.split ControlRequest.split prod.split)

text \<open>What a request may do to the registry.\<close>

lemma record_wf_from_proto: "record_wf (from_proto now body lifecycle)"
proof -
  have "omap_wf m \<Longrightarrow> omap_wf (fold (\<lambda>(k, v). omap_set k v) ps m)" for ps and m :: "string omap"
    by (induction ps arbitrary: m) (auto intro: om.wf_put)
  then show ?thesis by (simp add: record_wf_def from_proto_def)
qed

lemma handle_control_request_cases:
  assumes "handle_control_request lib now proto request identity reg env = (response, identity', reg', env')"
  obtains (same) "reg' = reg" "env' = env"
  | (stored) r where "record_wf r" "upsert r reg env = (True, reg', env')" "resp_ok response"
      "signature_rejection (proto_trust proto) (verify_agent_signature lib r) = None"
  | (heartbeat) aid t n where "refresh_heartbeat aid t n reg = (True, reg')" "env' = env" "resp_ok response"
proof -
  have registration: thesis
    if h: "handle_proto_registration lib now proto w body identity reg env = (response, identity', reg', env')"
    for w body
  proof -
    let ?r = "from_proto now body (proto_lifecycle proto)"
    obtain ok rg en where u: "upsert ?r reg env = (ok, rg, en)" by (cases "upsert ?r reg env")
    have "\<not> ok \<Longrightarrow> rg = reg \<and> en = env"
      using u by (auto simp: upsert_alt upsert_records_alt split: if_splits)
    with h u same stored [of ?r, OF record_wf_from_proto] show thesis
      by (cases ok) (auto simp: handle_proto_registration_def signature_allowed_def signature_rejection_def
          set_status_def Let_def split: if_splits)
  qed
  show thesis
  proof (cases request)
    case (Some body)
    show thesis
    proof (cases body)
      case (Heartbeat_request hb)
      let ?t = "now + milliseconds (heartbeat_ttl (proto_lifecycle proto))"
      obtain ok rg where "refresh_heartbeat (hb_agent_id hb) ?t (hb_revision hb) reg = (ok, rg)" by fastforce
      with Some Heartbeat_request assms same heartbeat show thesis
        by (cases ok) (auto simp: handle_control_request_def set_status_def Let_def
            dest: refresh_heartbeat_rejected)
    qed (use Some assms same registration in \<open>auto simp: handle_control_request_def Let_def\<close>)
  qed (use assms same in \<open>simp add: handle_control_request_def Let_def\<close>)
qed

lemma handle_control_request_invariant:
  assumes "handle_control_request lib now proto request identity reg env = (response, identity', reg', env')"
    and "registry_wf (records reg)"
  shows "registry_wf (records reg')"
  using assms(1)
proof (cases rule: handle_control_request_cases)
  case (stored r)
  then show ?thesis using assms(2) by (auto simp: upsert_alt intro: registry_wf_upsert_records)
next
  case (heartbeat aid t n)
  then show ?thesis using registry_wf_refresh_heartbeat [OF assms(2), of aid t n] by simp
qed (use assms(2) in simp)

lemma handle_control_request_vouched:
  assumes "require_signatures (proto_trust proto)"
    and "handle_control_request lib now proto request identity reg env = (response, identity', reg', env')"
    and "list_all (vouched lib) (records reg)"
  shows "list_all (vouched lib) (records reg')"
  using assms(2)
proof (cases rule: handle_control_request_cases)
  case (stored r)
  then have "vouched lib r"
    using assms(1) by (auto simp: signature_rejection_def intro: vouched_Valid split: if_splits)
  with stored(2) assms(3) show ?thesis by (auto simp: upsert_vouched)
next
  case (heartbeat aid t n)
  with assms(3) show ?thesis using heartbeat_vouched [of lib reg aid t n] by simp
qed (use assms(3) in simp)

lemma frame_keeps_identity:
  "fst (snd (handle_control_frame pb lib now proto frame_bytes identity reg env)) = identity"
  using request_keeps_identity [of lib now proto _ identity reg env]
  by (auto simp: handle_control_frame_def handle_control_request_payload_def Let_def
      split: option.split prod.split) (metis fst_conv snd_conv)+

section \<open>Properties\<close>

text \<open>
  A record whose keys are lower-case hexadecimal text passes through the protobuf
  message unchanged, with a fresh lease.
\<close>

theorem proto_round_trip:
  assumes "record_wf r" and "canonical_hex r"
  shows "from_proto now (to_proto r new_AgentRegistration) lifecycle =
     r\<lparr>expires_at := now + milliseconds (heartbeat_ttl lifecycle)\<rparr>"
  using assms by (rule from_proto_to_proto)

theorem proto_round_trip_witness:
  "from_proto 0 (to_proto (sample_sign 2 (sample_record ''a'' 1 0)) new_AgentRegistration) default_LifecycleConfig
   = (sample_sign 2 (sample_record ''a'' 1 0))\<lparr>expires_at := milliseconds 30000\<rparr>"
proof -
  have "record_wf (sample_sign 2 (sample_record ''a'' 1 0))"
    by (simp add: record_wf_def sample_sign_def sample_record_def)
  from proto_round_trip [OF this canonical_hex_sample, of 0 default_LifecycleConfig]
  show ?thesis by (simp add: default_LifecycleConfig_def)
qed

text \<open>
  No binary control frame ever pins a key, because the record that is handed to the
  identity service has been moved from: the trust store after any frame is the one before it.
\<close>

theorem control_frame_never_pins:
  "fst (snd (handle_control_frame pb lib now proto frame_bytes identity reg env)) = identity"
  by (rule frame_keeps_identity)

text \<open>
  Property C29: what the two control channels have in common and where they differ.  Registering a record
  whose key and signature are lower-case hexadecimal text (or empty) by a line and by a protobuf
  request, on the same registry and at the same instant, leaves the same registry, runs the same
  callback, and succeeds or fails alike.  The trust store differs: the line, when it succeeds, hands
  the record to the identity service, which pins the key of a valid signature; the request never
  changes the trust store.
\<close>

theorem line_and_protobuf_agree:
  fixes reg :: "'e AgentRegistry"
  assumes "line_safe r" and "node_id r \<noteq> []" and "endpoint r \<noteq> []" and "canonical_hex r"
  shows "case handle_line lib now proto (''REGISTER'' @ blank_prefixed (record_tokens r)) identity reg env of
     (reply, identity1, reg1, env1) \<Rightarrow>
       (case handle_control_request lib now proto
               (Some (Register_agent (to_proto r new_AgentRegistration))) identity reg env of
          (response, identity2, reg2, env2) \<Rightarrow>
            reg1 = reg2 \<and> env1 = env2 \<and> (resp_ok response \<longleftrightarrow> rfind_at_0 reply ''OK'') \<and>
            identity2 = identity \<and>
            identity1 = (if resp_ok response
              then register_identity lib (r\<lparr>expires_at := now + milliseconds (heartbeat_ttl (proto_lifecycle proto))\<rparr>) identity
              else identity))"
proof -
  let ?r = "r\<lparr>expires_at := now + milliseconds (heartbeat_ttl (proto_lifecycle proto))\<rparr>"
  have wf: "record_wf r" "agent_id r \<noteq> []" using assms(1) by (simp_all add: line_safe_def record_wf_def)
  obtain ok reg' env' where u: "upsert ?r reg env = (ok, reg', env')" by (cases "upsert ?r reg env")
  have "\<not> ok \<Longrightarrow> reg' = reg \<and> env' = env"
    using u by (auto simp: upsert_alt upsert_records_alt split: if_splits)
  moreover have "fst (snd (handle_control_request lib now proto (Some (Register_agent (to_proto r new_AgentRegistration)))
      identity reg env)) = identity"
    by (rule request_keeps_identity)
  ultimately show ?thesis
    unfolding handle_register_line [OF assms(1-3)]
    using assms(2,3) wf(2) u
    by (auto simp: handle_control_request_def handle_proto_registration_def handle_registration_def
        from_proto_to_proto [OF wf(1) assms(4)] signature_allowed_def signature_rejection_def
        set_status_def new_ControlResponse_def rfind_at_0_def Let_def)
qed

theorem line_and_protobuf_agree_witness:
  "resp_ok (fst (handle_control_request None 0
      \<lparr>proto_lifecycle = default_LifecycleConfig, proto_trust = default_TrustConfig\<rparr>
      (Some (Register_agent (to_proto (sample_record ''a'' 1 0) new_AgentRegistration))) None
      (new_AgentRegistry :: unit AgentRegistry) ()))"
proof -
  let ?p = "\<lparr>proto_lifecycle = default_LifecycleConfig, proto_trust = default_TrustConfig\<rparr>"
    and ?r = "sample_record ''a'' 1 0" and ?reg = "new_AgentRegistry :: unit AgentRegistry"
  have safe: "line_safe ?r" "node_id ?r \<noteq> []" "endpoint ?r \<noteq> []"
    by (simp_all add: line_safe_def sample_record_def token_simps is_space_def)
  have "fst (handle_line None 0 ?p (''REGISTER'' @ blank_prefixed (record_tokens ?r)) None ?reg ())
      = ''OK message=registered'' @ nl"
    unfolding handle_register_line [OF safe]
    by (simp add: handle_registration_def signature_rejection_def upsert_alt upsert_records_alt
        supersedes_def new_AgentRegistry_def verify_agent_signature_def default_TrustConfig_def
        sample_record_def)
  then show ?thesis
    using line_and_protobuf_agree [OF safe canonical_hex_unsigned, where lib = None and now = 0 and
        proto = ?p and identity = None and reg = ?reg and env = "()"]
    by (simp only: case_prod_unfold) (simp add: rfind_at_0_def)
qed

text \<open>
  The registry compares public keys as text.  Two texts of the same key octets (the
  hexadecimal digits in different case, which the line protocol passes on and the protobuf channel
  normalises) lock each other out, although both signatures are checked against the same octets.
\<close>

theorem hex_case_locks_out:
  fixes reg :: "'e AgentRegistry"
  assumes "find_record (agent_id r) reg = Some e" and "public_key_hex e \<noteq> []" and "public_key_hex r \<noteq> []"
    and "decode_hex (public_key_hex e) = decode_hex (public_key_hex r)"
    and "public_key_hex e \<noteq> public_key_hex r"
  shows "upsert r reg env = (False, reg, env)"
  using assms
  by (simp add: upsert_alt upsert_records_alt find_record_lookup supersedes_def key_compatible_def)

theorem hex_case_locks_out_witness:
  "upsert (sample_signed ''a'' ''ab'' 2)
     (\<lparr>records = [sample_signed ''a'' ''AB'' 1], on_upsert = None\<rparr> :: unit AgentRegistry) ()
   = (False, \<lparr>records = [sample_signed ''a'' ''AB'' 1], on_upsert = None\<rparr>, ())"
proof (rule hex_case_locks_out [where e = "sample_signed ''a'' ''AB'' 1"])
  have "decode_hex ''AB'' = decode_hex ''ab''"
    by (simp add: decode_hex_def hex_value_def less_eq_char_def)
  then show "decode_hex (public_key_hex (sample_signed ''a'' ''AB'' 1))
      = decode_hex (public_key_hex (sample_signed ''a'' ''ab'' 2))"
    by (simp add: sample_signed_def sample_record_def)
qed (simp_all add: sample_signed_def sample_record_def find_record_lookup)

end
