(* ===== verification/Control_Server.thy ===== *)
theory Control_Server
  imports Control_Protobuf
begin

text \<open>
  \<^verbatim>\<open>src/src/beacon_net/control_server.cpp\<close>: one session per accepted connection, one after the
  other.  A connection is what the peer sends (all of it, until it closes its side) and the octets
  the peek of the first nine returned, which depends on how the network delivered them.  The
  build option \<^verbatim>\<open>BEACONNODE_ENABLE_PROTOBUF\<close> is the \<open>option\<close> around the protobuf codec.  The
  state of a node is the shared identity service, the registry and the callback's environment.
\<close>

record connection =
  peeked :: bytes
  incoming :: bytes

text \<open>What \<^verbatim>\<open>receive\<close> with \<^verbatim>\<open>message_peek\<close> on a nine-octet buffer can return.\<close>

definition connection_wf :: "connection \<Rightarrow> bool" where
  "connection_wf c \<longleftrightarrow>
     length (peeked c) \<le> 9 \<and> take (length (peeked c)) (incoming c) = peeked c \<and>
     (peeked c = [] \<longleftrightarrow> incoming c = [])"

type_synonym 'e node = "IdentityService option \<times> 'e AgentRegistry \<times> 'e"

definition is_binary_frame_header :: "bytes \<Rightarrow> bool" where
  "is_binary_frame_header header \<longleftrightarrow>
     header ! 0 = byte_of_char (CHR ''B'') \<and> header ! 1 = byte_of_char (CHR ''N'')"

text \<open>
  The octets written back, or \<^const>\<open>None\<close> when an exception ended the session before: the peer sent
  nothing, closed in the middle of a frame, or closed before a newline.
\<close>

definition serve_session ::
  "protobuf option \<Rightarrow> sodium option \<Rightarrow> time_point \<Rightarrow> ControlProtocol \<Rightarrow> connection \<Rightarrow> 'e node
   \<Rightarrow> bytes option \<times> 'e node" where
  "serve_session pb_option lib now proto conn state =
     (case state of (identity, reg, env) \<Rightarrow>
        let header = peeked conn
        in if header = [] then (None, state)
           else if 9 \<le> length header \<and> is_binary_frame_header header then
             (case pb_option of
                Some pb \<Rightarrow>
                  (let payload_length = read_u32 header 5;
                       total = 9 + unat payload_length
                   in if length (incoming conn) < total then (None, state)
                      else
                        (let (response, state') =
                               handle_control_frame pb lib now proto (take total (incoming conn)) identity reg env
                         in (Some response, state')))
              | None \<Rightarrow> (Some (bytes_of_string (''ERR message=protobuf_control_disabled'' @ nl)), state))
           else if newline \<notin> set (string_of_bytes (incoming conn)) then (None, state)
           else
             (let line = takeWhile (\<lambda>c. c \<noteq> newline) (string_of_bytes (incoming conn));
                  (response, state') = handle_line lib now proto line identity reg env
              in (Some (bytes_of_string response), state')))"

text \<open>
  The accept loop: connections are served in turn until the flag is seen set after an accept.
  Each connection comes with the instant of its session and the value of \<^verbatim>\<open>stopping_\<close> then.
\<close>

fun run_server ::
  "protobuf option \<Rightarrow> sodium option \<Rightarrow> ControlProtocol \<Rightarrow> (connection \<times> time_point \<times> bool) list \<Rightarrow> 'e node
   \<Rightarrow> bytes option list \<times> 'e node" where
  "run_server pb lib proto [] state = ([], state)"
| "run_server pb lib proto ((conn, now, stopping) # conns) state =
     (if stopping then ([], state)
      else
        (let (reply, state1) = serve_session pb lib now proto conn state;
             (replies, state2) = run_server pb lib proto conns state1
         in (reply # replies, state2)))"

section \<open>Sessions\<close>

lemma newline_in_bytes_of_string [simp]:
  "newline \<in> set (string_of_bytes (bytes_of_string s)) \<longleftrightarrow> newline \<in> set s"
  by simp

lemma peek_prefix:
  assumes "connection_wf c" and "i < length (peeked c)"
  shows "incoming c ! i = peeked c ! i"
  using assms unfolding connection_wf_def by (metis nth_take)

text \<open>A text that does not begin with the letters \<^verbatim>\<open>BN\<close> reaches the line protocol.\<close>

lemma text_not_binary:
  assumes "connection_wf c" and "incoming c = bytes_of_string (x # y # s)" and "x \<noteq> CHR ''B'' \<or> y \<noteq> CHR ''N''"
  shows "\<not> (9 \<le> length (peeked c) \<and> is_binary_frame_header (peeked c))"
proof (intro notI, elim conjE)
  assume len: "9 \<le> length (peeked c)" and hdr: "is_binary_frame_header (peeked c)"
  have "0 < length (peeked c)" "1 < length (peeked c)" using len by auto
  then have "peeked c ! 0 = byte_of_char x" "peeked c ! 1 = byte_of_char y"
    using peek_prefix [OF assms(1)] assms(2) by (fastforce simp: bytes_of_string_def)+
  moreover have "byte_of_char a = byte_of_char b \<Longrightarrow> a = b" for a b
    by (metis char_of_byte_of_char)
  ultimately show False using hdr assms(3) unfolding is_binary_frame_header_def by auto
qed

lemma serve_session_line:
  assumes "connection_wf c" and "incoming c = bytes_of_string (line @ nl)"
    and "newline \<notin> set line" and "line = x # y # s" and "x \<noteq> CHR ''B'' \<or> y \<noteq> CHR ''N''"
  shows "serve_session pb lib now proto c (identity, reg, env) =
     (case handle_line lib now proto line identity reg env of
        (response, state') \<Rightarrow> (Some (bytes_of_string response), state'))"
proof -
  have "incoming c = bytes_of_string (x # y # s @ nl)" using assms(2,4) by simp
  note bin = text_not_binary [OF assms(1) this assms(5)]
  have ne: "peeked c \<noteq> []" using assms(1,2) by (auto simp: connection_wf_def bytes_of_string_def nl_def)
  have "takeWhile (\<lambda>ch. ch \<noteq> newline) (line @ [newline]) = line"
    using assms(3) by (intro takeWhile_append_stop) auto
  with bin ne show ?thesis
    unfolding serve_session_def assms(2) by (auto simp: Let_def nl_def split: prod.split)
qed

lemma read_u32_peek:
  assumes "connection_wf c" and "length (peeked c) = 9"
  shows "read_u32 (peeked c) 5 = read_u32 (incoming c) 5"
proof -
  have "incoming c ! 5 = peeked c ! 5" "incoming c ! 6 = peeked c ! 6"
    "incoming c ! 7 = peeked c ! 7" "incoming c ! 8 = peeked c ! 8"
    using assms by (auto intro!: peek_prefix)
  then show ?thesis by (simp add: read_u32_def)
qed

lemma frame_invariant:
  assumes "handle_control_frame pb lib now proto bs identity reg env = (out, identity', reg', env')"
    and "registry_wf (records reg)"
  shows "identity' = identity \<and> registry_wf (records reg') \<and>
    (require_signatures (proto_trust proto) \<longrightarrow> list_all (vouched lib) (records reg) \<longrightarrow>
       list_all (vouched lib) (records reg'))"
proof (cases "(reg', env') = (reg, env)")
  case False
  then obtain f :: Frame and response where
    "handle_control_request lib now proto (ParseFromArray pb (payload f) (int_of_size (length (payload f))))
       identity reg env = (response, identity', reg', env')"
    using assms(1)
    by (auto simp: handle_control_frame_def handle_control_request_payload_def Let_def
        split: option.splits if_splits prod.splits)
  then show ?thesis
    using handle_control_request_invariant [OF _ assms(2)] handle_control_request_vouched
      request_keeps_identity
    by (metis fst_conv snd_conv)
next
  case True
  have "fst (snd (handle_control_frame pb lib now proto bs identity reg env)) = identity"
    by (rule frame_keeps_identity)
  with True assms show ?thesis by simp
qed

text \<open>The invariant of a node between sessions.\<close>

definition node_ok :: "sodium option \<Rightarrow> ControlProtocol \<Rightarrow> 'e node \<Rightarrow> bool" where
  "node_ok lib proto state =
     (case state of (identity, reg, env) \<Rightarrow>
        registry_wf (records reg) \<and> pred_option identity_wf identity \<and>
        (require_signatures (proto_trust proto) \<longrightarrow> list_all (vouched lib) (records reg)))"

lemma serve_session_ok:
  assumes "node_ok lib proto state"
  shows "node_ok lib proto (snd (serve_session pb lib now proto c state)) \<and>
     keeps_pins (fst state) (fst (snd (serve_session pb lib now proto c state)))"
proof -
  obtain identity reg env where st: "state = (identity, reg, env)" by (cases state)
  let ?line = "takeWhile (\<lambda>c. c \<noteq> newline) (string_of_bytes (incoming c))"
  have line: "node_ok lib proto (i, rg, en) \<and> keeps_pins identity i"
    if "handle_line lib now proto ?line identity reg env = (reply, i, rg, en)" for reply i rg en
    using handle_line_invariant [OF that] handle_line_vouched [OF _ that] assms
    by (auto simp: node_ok_def st)
  have frame: "node_ok lib proto (i, rg, en) \<and> keeps_pins identity i"
    if "handle_control_frame p lib now proto bs identity reg env = (reply, i, rg, en)" for p bs reply i rg en
    using frame_invariant [OF that] assms by (auto simp: node_ok_def st)
  show ?thesis
    using assms line frame
    by (auto simp: serve_session_def st Let_def split: option.splits prod.splits)
qed

section \<open>Properties\<close>

text \<open>
  Property C6: whatever connections a control server serves, text or binary, complete or broken
  off, it keeps one well-formed record per agent and every pinned key, and where signatures are
  required every stored record goes back to a record whose signature verified.
\<close>

theorem server_invariant:
  assumes "node_ok lib proto state"
  shows "node_ok lib proto (snd (run_server pb lib proto conns state)) \<and>
     keeps_pins (fst state) (fst (snd (run_server pb lib proto conns state)))"
  using assms
proof (induction pb lib proto conns state rule: run_server.induct)
  case (2 pb lib proto conn now stopping conns state)
  obtain reply state1 where one: "serve_session pb lib now proto conn state = (reply, state1)"
    by (cases "serve_session pb lib now proto conn state")
  have ok: "node_ok lib proto state1" "keeps_pins (fst state) (fst state1)"
    using serve_session_ok [OF "2.prems", of pb now conn] by (simp_all add: one)
  show ?case
  proof (cases stopping)
    case False
    with "2.IH" [OF False one [symmetric] _ ok(1)] ok(2) show ?thesis
      by (cases state1) (auto simp: one case_prod_unfold Let_def intro: keeps_pins_trans)
  qed (use "2.prems" in simp)
qed simp

theorem server_invariant_witness:
  "node_ok None \<lparr>proto_lifecycle = default_LifecycleConfig, proto_trust = default_TrustConfig\<rparr>
     (snd (run_server None None \<lparr>proto_lifecycle = default_LifecycleConfig, proto_trust = default_TrustConfig\<rparr>
        [(\<lparr>peeked = [66, 78], incoming = [66, 78]\<rparr>, 0, False)]
        (None, new_AgentRegistry :: unit AgentRegistry, ())))"
proof -
  let ?p = "\<lparr>proto_lifecycle = default_LifecycleConfig, proto_trust = default_TrustConfig\<rparr>"
  have "node_ok None ?p (None, new_AgentRegistry :: unit AgentRegistry, ())"
    by (simp add: node_ok_def new_AgentRegistry_def)
  from server_invariant [OF this] show ?thesis by blast
qed

text \<open>
  A client that sends a control request frame, delivered so that its header is seen at
  once, gets back the frame with the answer to its payload, whatever follows the frame on the
  connection, and the state changes exactly as the request says.
\<close>

theorem frame_session_reply:
  assumes "connection_wf c" and "length (peeked c) = 9"
    and "incoming c = encode_frame f @ rest" and "length (payload f) < 2 ^ 32"
    and "frame_kind f = FrameKind_ControlRequest"
  shows "serve_session (Some pb) lib now proto c (identity, reg, env) =
     (case handle_control_request_payload pb lib now proto (payload f) identity reg env of
        (out, state') \<Rightarrow>
          (Some (encode_frame \<lparr>frame_kind = FrameKind_ControlResponse, payload = out\<rparr>), state'))"
proof -
  let ?n = "length (payload f)"
  have len: "length (encode_frame f) = 9 + ?n"
    by (simp add: encode_frame_alt kHeaderSize_def)
  have n: "unat (word_of_nat ?n :: u32) = ?n" using assms(4) by (simp add: unat_of_nat)
  have "read_u32 (peeked c) 5 = word_of_nat ?n"
    unfolding read_u32_peek [OF assms(1,2)] assms(3) encode_frame_alt by (simp add: header_fields)
  then have size: "unat (read_u32 (peeked c) 5) = ?n" using n by simp
  have hdr: "is_binary_frame_header (peeked c)"
    using peek_prefix [OF assms(1), of 0] peek_prefix [OF assms(1), of 1] assms(2)
    by (simp add: is_binary_frame_header_def assms(3) encode_frame_alt header_magic
        kMagic0_def kMagic1_def)
  have dec: "decode_frame (encode_frame f) = Some f"
    using assms(4) by (simp add: frame_read_back)
  have "serve_session (Some pb) lib now proto c (identity, reg, env) =
      (case handle_control_frame pb lib now proto (encode_frame f) identity reg env of
         (response, state') \<Rightarrow> (Some response, state'))"
    using assms(2) len size hdr by (auto simp: serve_session_def Let_def assms(3))
  then show ?thesis
    by (simp add: handle_control_frame_def dec assms(5) split: prod.split)
qed

theorem frame_session_reply_witness:
  "serve_session (Some \<lparr>ParseFromArray = (\<lambda>_ _. Some Stats_request), SerializeToString = (\<lambda>_. Some [7])\<rparr>) None 0
     \<lparr>proto_lifecycle = default_LifecycleConfig, proto_trust = default_TrustConfig\<rparr>
     \<lparr>peeked = [66, 78, 1, 0, 1, 0, 0, 0, 0], incoming = [66, 78, 1, 0, 1, 0, 0, 0, 0]\<rparr>
     (None, new_AgentRegistry :: unit AgentRegistry, ())
   = (Some (encode_frame \<lparr>frame_kind = FrameKind_ControlResponse, payload = [7]\<rparr>),
      (None, new_AgentRegistry, ()))"
proof -
  let ?pb = "\<lparr>ParseFromArray = (\<lambda>_ _. Some Stats_request), SerializeToString = (\<lambda>_. Some [7])\<rparr>"
    and ?f = "\<lparr>frame_kind = FrameKind_ControlRequest, payload = []\<rparr>"
    and ?c = "\<lparr>peeked = [66, 78, 1, 0, 1, 0, 0, 0, 0], incoming = [66, 78, 1, 0, 1, 0, 0, 0, 0]\<rparr>"
    and ?p = "\<lparr>proto_lifecycle = default_LifecycleConfig, proto_trust = default_TrustConfig\<rparr>"
  have wf: "connection_wf ?c" "length (peeked ?c) = 9" by (simp_all add: connection_wf_def)
  have enc: "incoming ?c = encode_frame ?f @ []"
    by (simp add: encode_frame_def append_u16_def append_u32_def kMagic0_def kMagic1_def kVersion_def
        byte_of_char_def FrameKind_ControlRequest_def)
  show ?thesis
    by (subst frame_session_reply [OF wf enc])
      (simp_all add: handle_control_request_payload_def handle_control_request_def Let_def)
qed

text \<open>
  A binary frame is recognised only when its nine header octets are there at the
  first look.  When the network delivers fewer of them first, a frame without a newline octet ends
  the session without a reply and without effect.
\<close>

theorem split_header_drops_frame:
  assumes "connection_wf c" and "length (peeked c) < 9" and "incoming c = encode_frame f"
    and "byte_of_char newline \<notin> set (encode_frame f)"
  shows "serve_session pb lib now proto c state = (None, state)"
proof -
  have "newline \<notin> set (string_of_bytes bs)" if "byte_of_char newline \<notin> set bs" for bs
    using that by (metis byte_of_char_of_byte image_iff list.set_map string_of_bytes_def)
  with assms show ?thesis by (cases state) (auto simp: serve_session_def Let_def)
qed

theorem split_header_drops_frame_witness:
  "serve_session None None 0 \<lparr>proto_lifecycle = default_LifecycleConfig, proto_trust = default_TrustConfig\<rparr>
     \<lparr>peeked = [66], incoming = [66, 78, 1, 0, 1, 0, 0, 0, 0]\<rparr> (None, new_AgentRegistry :: unit AgentRegistry, ())
   = (None, (None, new_AgentRegistry, ()))"
proof (rule split_header_drops_frame [where f = "\<lparr>frame_kind = FrameKind_ControlRequest, payload = []\<rparr>"])
  have enc: "encode_frame \<lparr>frame_kind = FrameKind_ControlRequest, payload = []\<rparr> = [66, 78, 1, 0, 1, 0, 0, 0, 0]"
    by (simp add: encode_frame_def append_u16_def append_u32_def kMagic0_def kMagic1_def kVersion_def
        byte_of_char_def FrameKind_ControlRequest_def)
  then show "incoming \<lparr>peeked = [66], incoming = [66, 78, 1, 0, 1, 0, 0, 0, 0]\<rparr>
      = encode_frame \<lparr>frame_kind = FrameKind_ControlRequest, payload = []\<rparr>" by simp
  show "byte_of_char newline \<notin> set (encode_frame \<lparr>frame_kind = FrameKind_ControlRequest, payload = []\<rparr>)"
    unfolding enc by (simp add: byte_of_char_def newline_def)
qed (simp_all add: connection_wf_def)

end
