(* ===== verification/Udp_Handshake.thy ===== *)
theory Udp_Handshake
  imports Agent_Registry Peer_Handshake
begin

text \<open>
  \<^verbatim>\<open>src/src/beacon_net/udp_handshake_responder.cpp\<close>: the loop that answers hello datagrams.  A
  datagram is received into a buffer of 1024 octets; what does not fit is cut off.  Each element of
  the input is what the socket delivers, the value of \<^verbatim>\<open>stopping_\<close> after the receive, and the
  registry the responder reads then.
\<close>

definition receive_buffer_size :: nat where
  "receive_buffer_size = 1024"

definition answer_datagram :: "NodeConfig \<Rightarrow> 'e AgentRegistry \<Rightarrow> string \<Rightarrow> string option" where
  "answer_datagram config reg datagram =
     (case decode_peer_hello (take receive_buffer_size datagram) of
        None \<Rightarrow> None
      | Some hello \<Rightarrow>
          Some (encode_peer_welcome
                  \<lparr>welcome_node_id = cfg_node_id config, registry_revision = highest_revision (stats reg)\<rparr>))"

fun run_responder ::
  "NodeConfig \<Rightarrow> (string \<times> bool \<times> 'e AgentRegistry) list \<Rightarrow> string option list" where
  "run_responder config [] = []"
| "run_responder config ((datagram, stopping, reg) # ds) =
     (if stopping then [] else answer_datagram config reg datagram # run_responder config ds)"

section \<open>Properties\<close>

text \<open>
  The handshake works end to end.  A node whose hello fits the buffer gets an answer,
  and what it reads from the answer is the responder's node id and a revision that bounds every
  record the responder holds, attained by one of them unless it holds none above zero.
\<close>

theorem handshake_end_to_end:
  fixes reg :: "'e AgentRegistry"
  assumes "is_token (hello_node_id h)" and "listen_port h \<noteq> 0" and "is_token (cfg_node_id config)"
    and "length (encode_peer_hello h) \<le> receive_buffer_size"
  shows "\<exists>w. map_option decode_peer_welcome (answer_datagram config reg (encode_peer_hello h)) = Some (Some w) \<and>
     welcome_node_id w = cfg_node_id config \<and>
     list_all (\<lambda>r. revision r \<le> registry_revision w) (records reg) \<and>
     (registry_revision w = 0 \<or> list_ex (\<lambda>r. revision r = registry_revision w) (records reg))"
proof -
  let ?w = "\<lparr>welcome_node_id = cfg_node_id config, registry_revision = highest_revision (stats reg)\<rparr>"
  have "answer_datagram config reg (encode_peer_hello h) = Some (encode_peer_welcome ?w)"
    using assms(4) hello_read_back [OF assms(1,2)] by (simp add: answer_datagram_def)
  moreover have "decode_peer_welcome (encode_peer_welcome ?w) = Some ?w"
    using assms(3) by (intro welcome_read_back) simp
  moreover have "list_all (\<lambda>r. revision r \<le> highest_revision (stats reg)) (records reg)"
    by (simp add: list_all_iff highest_revision_ge)
  moreover have "highest_revision (stats reg) = 0 \<or>
      list_ex (\<lambda>r. revision r = highest_revision (stats reg)) (records reg)"
    using highest_revision_attained [of reg] by (fastforce simp: list_ex_iff)
  ultimately show ?thesis by (intro exI [of _ ?w]) simp
qed

theorem handshake_end_to_end_witness:
  "\<exists>w. map_option decode_peer_welcome (answer_datagram default_NodeConfig
        (\<lparr>records = [sample_record ''a'' 3 0], on_upsert = None\<rparr> :: unit AgentRegistry)
        (encode_peer_hello \<lparr>hello_node_id = ''n2'', listen_port = 43170\<rparr>)) = Some (Some w) \<and>
     welcome_node_id w = ''dev-node''"
proof -
  let ?h = "\<lparr>hello_node_id = ''n2'', listen_port = 43170\<rparr> :: PeerHello"
    and ?reg = "\<lparr>records = [sample_record ''a'' 3 0], on_upsert = None\<rparr> :: unit AgentRegistry"
  have "to_string 43170 = ''43170''" by (simp add: to_string_eval)
  then have "length (encode_peer_hello ?h) \<le> receive_buffer_size"
    by (simp add: encode_peer_hello_def receive_buffer_size_def)
  then have "\<exists>w. map_option decode_peer_welcome (answer_datagram default_NodeConfig ?reg (encode_peer_hello ?h)) = Some (Some w) \<and>
      welcome_node_id w = cfg_node_id default_NodeConfig"
    using handshake_end_to_end [of ?h default_NodeConfig ?reg]
    by (auto simp: is_token_def is_space_def default_NodeConfig_def)
  then show ?thesis by (simp add: default_NodeConfig_def)
qed

end
