(* ===== verification/Gossip_Service.thy ===== *)
theory Gossip_Service
  imports Sync_Client
begin

text \<open>
  \<^verbatim>\<open>src/src/beacon_net/gossip_service.cpp\<close>: the peer list and a round of gossip.  The random shuffle
  and the sockets are not part of the repository: a round takes the function \<open>shuffle\<close>, of which the
  code relies on it being a permutation, the TCP transport \<open>net\<close> of the sync client, and a function
  \<open>udp\<close> that sends a datagram (a failure to send is swallowed by the code, so it is part of what
  \<open>udp\<close> does to the world).
\<close>

record GossipPeer =
  gp_node_id :: string
  gp_host :: string
  gp_listen_port :: u16
  gp_control_port :: u16

record GossipService =
  gs_config :: NodeConfig
  gs_gossip_config :: GossipConfig
  gs_peers :: "GossipPeer list"

definition GOSSIP_FANOUT :: nat where
  "GOSSIP_FANOUT = 3"

definition new_GossipService :: "NodeConfig \<Rightarrow> GossipConfig \<Rightarrow> GossipService" where
  "new_GossipService config gossip_config =
     \<lparr>gs_config = config, gs_gossip_config = gossip_config, gs_peers = []\<rparr>"

definition pick_random_indices :: "(nat list \<Rightarrow> nat list) \<Rightarrow> nat \<Rightarrow> nat \<Rightarrow> nat list" where
  "pick_random_indices shuffle cnt fan =
     (if cnt = 0 then []
      else let indices = shuffle [0..<cnt]; n = min fan cnt in take n indices)"

definition add_peer :: "GossipPeer \<Rightarrow> GossipService \<Rightarrow> GossipService" where
  "add_peer peer svc =
     (if list_ex (\<lambda>existing. gp_host existing = gp_host peer \<and>
                    gp_control_port existing = gp_control_port peer) (gs_peers svc)
      then svc
      else svc\<lparr>gs_peers := gs_peers svc @ [peer]\<rparr>)"

definition peers :: "GossipService \<Rightarrow> GossipPeer list" where
  "peers svc = gs_peers svc"

definition heartbeat_text :: "NodeConfig \<Rightarrow> string" where
  "heartbeat_text config =
     ''GOSSIP_HEARTBEAT node_id='' @ cfg_node_id config @
     '' listen_port='' @ to_string (unat (cfg_listen_port config)) @
     '' control_port='' @ to_string (unat (control_port config))"

definition send_udp_heartbeat ::
  "(string \<Rightarrow> u16 \<Rightarrow> string \<Rightarrow> 'w \<Rightarrow> 'w) \<Rightarrow> GossipService \<Rightarrow> GossipPeer \<Rightarrow> 'w \<Rightarrow> 'w" where
  "send_udp_heartbeat udp svc peer w =
     udp (gp_host peer) (gp_listen_port peer) (heartbeat_text (gs_config svc)) w"

text \<open>An exception of the round is caught; what was merged before it stays.\<close>

definition sync_with_peer_tcp ::
  "sodium option \<Rightarrow> (nat \<Rightarrow> time_point) \<Rightarrow> 'w transport \<Rightarrow> GossipService \<Rightarrow> GossipPeer \<Rightarrow>
   IdentityService option \<times> 'e AgentRegistry \<times> 'e \<times> 'w \<Rightarrow> IdentityService option \<times> 'e AgentRegistry \<times> 'e \<times> 'w" where
  "sync_with_peer_tcp lib clock net svc peer state =
     (case state of (identity, reg, env, w) \<Rightarrow>
        snd (sync_with_peer lib clock net
               (new_SyncClient (max_registry_items_per_round (gs_gossip_config svc)))
               \<lparr>peer_host = gp_host peer, peer_control_port = gp_control_port peer\<rparr> identity reg env w))"

text \<open>The loop over the chosen indices; every exchange has its own clock readings.\<close>

fun gossip_loop ::
  "sodium option \<Rightarrow> (nat \<Rightarrow> nat \<Rightarrow> time_point) \<Rightarrow> 'w transport \<Rightarrow> (string \<Rightarrow> u16 \<Rightarrow> string \<Rightarrow> 'w \<Rightarrow> 'w) \<Rightarrow>
   GossipService \<Rightarrow> GossipPeer list \<Rightarrow> nat list \<Rightarrow>
   IdentityService option \<times> 'e AgentRegistry \<times> 'e \<times> 'w \<Rightarrow> IdentityService option \<times> 'e AgentRegistry \<times> 'e \<times> 'w" where
  "gossip_loop lib clocks net udp svc current_peers [] state = state"
| "gossip_loop lib clocks net udp svc current_peers (idx # indices) state =
     (case state of (identity, reg, env, w) \<Rightarrow>
        let peer = current_peers ! idx;
            w' = send_udp_heartbeat udp svc peer w
        in gossip_loop lib clocks net udp svc current_peers indices
             (sync_with_peer_tcp lib (clocks idx) net svc peer (identity, reg, env, w')))"

definition perform_gossip_round ::
  "sodium option \<Rightarrow> (nat \<Rightarrow> nat \<Rightarrow> time_point) \<Rightarrow> (nat list \<Rightarrow> nat list) \<Rightarrow> 'w transport \<Rightarrow>
   (string \<Rightarrow> u16 \<Rightarrow> string \<Rightarrow> 'w \<Rightarrow> 'w) \<Rightarrow> GossipService \<Rightarrow>
   IdentityService option \<times> 'e AgentRegistry \<times> 'e \<times> 'w \<Rightarrow> IdentityService option \<times> 'e AgentRegistry \<times> 'e \<times> 'w" where
  "perform_gossip_round lib clocks shuffle net udp svc state =
     (let current_peers = peers svc
      in if current_peers = [] then state
         else gossip_loop lib clocks net udp svc current_peers
                (pick_random_indices shuffle (length current_peers) GOSSIP_FANOUT) state)"

section \<open>Whom a round contacts\<close>

definition shuffles :: "(nat list \<Rightarrow> nat list) \<Rightarrow> bool" where
  "shuffles shuffle \<longleftrightarrow> (\<forall>xs. mset (shuffle xs) = mset xs)"

lemma pick_random_indices_alt:
  "shuffles shuffle \<Longrightarrow> pick_random_indices shuffle n k = take k (shuffle [0..<n])"
proof -
  assume "shuffles shuffle"
  then have "length (shuffle [0..<n]) = n" unfolding shuffles_def by (metis mset_eq_length length_upt diff_zero)
  then show ?thesis by (cases "n = 0") (auto simp: pick_random_indices_def min_def)
qed

lemma picked_indices:
  assumes "shuffles shuffle"
  shows "distinct (pick_random_indices shuffle n k)"
    and "set (pick_random_indices shuffle n k) \<subseteq> {..<n}"
    and "length (pick_random_indices shuffle n k) = min k n"
proof -
  have m: "mset (shuffle [0..<n]) = mset [0..<n]" using assms by (simp add: shuffles_def)
  then have "distinct (shuffle [0..<n])" "set (shuffle [0..<n]) = {..<n}" "length (shuffle [0..<n]) = n"
    by (metis distinct_upt mset_eq_imp_distinct_iff, metis atLeast_upt mset_eq_setD,
        metis diff_zero length_upt mset_eq_length)
  then show "distinct (pick_random_indices shuffle n k)" "set (pick_random_indices shuffle n k) \<subseteq> {..<n}"
    "length (pick_random_indices shuffle n k) = min k n"
    using set_take_subset [of k "shuffle [0..<n]"]
    by (auto simp: pick_random_indices_alt [OF assms])
qed

definition peers_wf :: "GossipService \<Rightarrow> bool" where
  "peers_wf svc \<longleftrightarrow> distinct (map (\<lambda>p. (gp_host p, gp_control_port p)) (gs_peers svc))"

lemma peers_wf_add_peer: "peers_wf svc \<Longrightarrow> peers_wf (add_peer p svc)"
  by (auto simp: peers_wf_def add_peer_def list_ex_iff)

lemma peers_wf_fold: "peers_wf svc \<Longrightarrow> peers_wf (fold add_peer ps svc)"
  by (induction ps arbitrary: svc) (simp_all add: peers_wf_add_peer)

section \<open>What a peer can do\<close>

lemma record_wf_agent_field: "record_wf r \<Longrightarrow> record_wf (agent_field t r)"
  by (auto simp: agent_field_def record_wf_def om.wf_put split: option.split)

lemma record_wf_parse_lines: "r \<in> set (parse_lines clock k ls) \<Longrightarrow> record_wf r"
proof (induction clock k ls rule: parse_lines.induct)
  case (2 clock k line ls)
  have "record_wf q \<Longrightarrow> record_wf (fold agent_field ts q)" for ts q
    by (induction ts arbitrary: q) (simp_all add: record_wf_agent_field)
  then have "record_wf q" if "parse_agent_line t line = Some q" for t q
    using that by (auto simp: parse_agent_line_def split: option.splits if_splits)
  with 2 show ?case by (auto split: option.splits if_splits)
qed simp

lemma check_all_keeps:
  "pred_option identity_wf i \<Longrightarrow>
   pred_option identity_wf (map_option (ident.check_all lib rs) i) \<and>
   keeps_pins i (map_option (ident.check_all lib rs) i)"
proof (cases i)
  case (Some svc)
  moreover assume "pred_option identity_wf i"
  ultimately have "identity_wf svc" by simp
  then have "identity_wf (ident.check_all lib rs svc) \<and>
      (\<forall>aid key. pinned svc aid = Some key \<longrightarrow> pinned (ident.check_all lib rs svc) aid = Some key)"
    unfolding ident.check_all_def
  proof (induction rs arbitrary: svc)
    case (Cons r rs)
    note wf = identity_wf_verify_and_register [OF Cons.prems, of lib r]
    show ?case
      using Cons.IH [OF wf] pinned_verify_and_register [OF Cons.prems, of lib r] by simp
  qed simp
  with Some show ?thesis by (auto simp: keeps_pins_def)
qed simp

text \<open>Whatever the peer answers, one exchange keeps the invariants of the local node.\<close>

definition gossip_ok :: "IdentityService option \<Rightarrow> 'e AgentRegistry \<Rightarrow> bool" where
  "gossip_ok identity reg \<longleftrightarrow> registry_wf (records reg) \<and> pred_option identity_wf identity"

lemma merge_response_ok:
  assumes "gossip_ok identity reg"
    and "merge_response lib clock response identity reg env = (n, identity', reg', env')"
  shows "gossip_ok identity' reg' \<and> keeps_pins identity identity'"
proof -
  let ?rs = "parse_agent_lines clock response"
  have "\<forall>r\<in>set (admitted lib ?rs identity). record_wf r"
    using set_admitted [of lib ?rs identity] record_wf_parse_lines
    unfolding parse_agent_lines_def by blast
  then show ?thesis
    using assms check_all_keeps [of identity lib ?rs]
    by (auto simp: merge_response_def merge_alt gossip_ok_def put_all_wf)
qed

lemma sync_with_peer_ok:
  assumes "gossip_ok identity reg"
    and "snd (sync_with_peer lib clock net client peer identity reg env w) = (identity', reg', env', w')"
  shows "gossip_ok identity' reg' \<and> keeps_pins identity identity'"
  using assms merge_response_ok [OF assms(1)]
  by (fastforce simp: sync_with_peer_def Let_def split: prod.splits sum.splits)

lemma gossip_loop_ok:
  "gossip_ok (fst state) (fst (snd state)) \<Longrightarrow>
   gossip_ok (fst (gossip_loop lib clocks net udp svc ps idxs state))
     (fst (snd (gossip_loop lib clocks net udp svc ps idxs state))) \<and>
   keeps_pins (fst state) (fst (gossip_loop lib clocks net udp svc ps idxs state))"
proof (induction idxs arbitrary: state)
  case (Cons i idxs)
  obtain identity reg env w where st: "state = (identity, reg, env, w)" by (cases state)
  let ?w = "send_udp_heartbeat udp svc (ps ! i) w"
  let ?next = "sync_with_peer_tcp lib (clocks i) net svc (ps ! i) (identity, reg, env, ?w)"
  obtain i1 r1 e1 w1 where nx: "?next = (i1, r1, e1, w1)" by (cases ?next)
  then have one: "gossip_ok i1 r1" "keeps_pins identity i1"
    using sync_with_peer_ok Cons.prems unfolding sync_with_peer_tcp_def st by fastforce+
  then show ?case
    using Cons.IH [of ?next] by (auto simp: st nx Let_def intro: keeps_pins_trans)
qed simp

section \<open>Properties\<close>

text \<open>
  The targets of a round.  However peers were added, no two share host and control
  port; a round picks three of them, or all when there are fewer, each once.  The configured
  fan-out plays no part.
\<close>

theorem gossip_targets:
  assumes "shuffles shuffle" and "svc = fold add_peer ps (new_GossipService config gossip_config)"
    and "targets = map ((!) (peers svc)) (pick_random_indices shuffle (length (peers svc)) GOSSIP_FANOUT)"
  shows "distinct (map (\<lambda>p. (gp_host p, gp_control_port p)) targets) \<and>
     set targets \<subseteq> set ps \<and> length targets = min 3 (length (peers svc))"
proof -
  have wf: "peers_wf svc"
    unfolding assms(2) by (rule peers_wf_fold) (simp add: peers_wf_def new_GossipService_def)
  have one: "set (gs_peers (add_peer p s)) \<subseteq> insert p (set (gs_peers s))" for p s
    by (auto simp: add_peer_def)
  have sub: "set (gs_peers (fold add_peer ps s)) \<subseteq> set (gs_peers s) \<union> set ps" for s
    by (induction ps arbitrary: s) (use one in fastforce)+
  note pick = picked_indices [OF assms(1), of "length (peers svc)" GOSSIP_FANOUT]
  let ?key = "\<lambda>p. (gp_host p, gp_control_port p)"
  have "map ?key targets = map ((!) (map ?key (peers svc))) (pick_random_indices shuffle (length (peers svc)) GOSSIP_FANOUT)"
    using pick(2) by (auto simp: assms(3) intro!: nth_map [symmetric])
  moreover have "inj_on ((!) (map ?key (peers svc))) {..<length (peers svc)}"
    using wf by (intro inj_on_nth) (auto simp: peers_wf_def peers_def)
  ultimately have "distinct (map ?key targets)"
    using pick(1,2) by (auto simp: distinct_map intro: inj_on_subset)
  moreover have "set targets \<subseteq> set (peers svc)"
    using pick(2) by (auto simp: assms(3))
  ultimately show ?thesis
    using pick(3) sub [of "new_GossipService config gossip_config"]
    by (auto simp: assms(2,3) peers_def new_GossipService_def GOSSIP_FANOUT_def)
qed

text \<open>
  Gossip is safe against its peers.  Whatever the other ends send, and wherever
  connections break, a round keeps one well-formed record per agent, keeps the trust store well
  formed, and replaces no pinned key.
\<close>

theorem gossip_round_safe:
  fixes reg :: "'e AgentRegistry" and w :: 'w
  assumes "registry_wf (records reg)" and "pred_option identity_wf identity"
    and "perform_gossip_round lib clocks shuffle net udp svc (identity, reg, env, w) = (identity', reg', env', w')"
  shows "registry_wf (records reg') \<and> pred_option identity_wf identity' \<and> keeps_pins identity identity'"
  using assms gossip_loop_ok [of "(identity, reg, env, w)" lib clocks net udp svc "peers svc"
      "pick_random_indices shuffle (length (peers svc)) GOSSIP_FANOUT"]
  by (auto simp: perform_gossip_round_def gossip_ok_def Let_def split: if_splits)

theorem gossip_targets_witness:
  "length (map ((!) (peers (add_peer \<lparr>gp_node_id = [], gp_host = ''h'', gp_listen_port = 1, gp_control_port = 2\<rparr>
       (new_GossipService default_NodeConfig default_GossipConfig))))
     (pick_random_indices (\<lambda>xs. xs) 1 GOSSIP_FANOUT)) = 1"
proof -
  let ?p = "\<lparr>gp_node_id = [], gp_host = ''h'', gp_listen_port = 1, gp_control_port = 2\<rparr> :: GossipPeer"
  let ?svc = "add_peer ?p (new_GossipService default_NodeConfig default_GossipConfig)"
  have n: "length (peers ?svc) = 1" by (simp add: peers_def add_peer_def new_GossipService_def)
  have "length (map ((!) (peers ?svc)) (pick_random_indices (\<lambda>xs. xs) (length (peers ?svc)) GOSSIP_FANOUT))
      = min 3 (length (peers ?svc))"
    using gossip_targets [of "\<lambda>xs. xs" ?svc "[?p]" default_NodeConfig default_GossipConfig]
    by (simp add: shuffles_def)
  then show ?thesis unfolding n by simp
qed

theorem gossip_round_safe_witness:
  "registry_wf (records (fst (snd (perform_gossip_round None (\<lambda>_ _. 0) (\<lambda>xs. xs)
      (\<lambda>_ _ w. (Exchange ''AGENT agent_id=evil revision=9'' Read_eof, w)) (\<lambda>_ _ _ w. w)
      (add_peer \<lparr>gp_node_id = [], gp_host = ''h'', gp_listen_port = 1, gp_control_port = 2\<rparr>
         (new_GossipService default_NodeConfig default_GossipConfig))
      (None, new_AgentRegistry :: unit AgentRegistry, (), ())))))"
proof -
  let ?round = "perform_gossip_round None (\<lambda>_ _. 0) (\<lambda>xs. xs)
      (\<lambda>_ _ w. (Exchange ''AGENT agent_id=evil revision=9'' Read_eof, w)) (\<lambda>_ _ _ w. w)
      (add_peer \<lparr>gp_node_id = [], gp_host = ''h'', gp_listen_port = 1, gp_control_port = 2\<rparr>
         (new_GossipService default_NodeConfig default_GossipConfig))
      (None, new_AgentRegistry :: unit AgentRegistry, (), ())"
  obtain i r e w where run: "?round = (i, r, e, w)" by (cases ?round)
  have "registry_wf (records r)"
    using gossip_round_safe [OF _ _ run] by (simp add: new_AgentRegistry_def)
  then show ?thesis unfolding run by simp
qed

end
