(* ===== verification/Service_Lifecycle.thy ===== *)
theory Service_Lifecycle
  imports Control_Server Udp_Handshake Gossip_Service Secure_Path
begin

text \<open>
  The three background services as threads: \<^verbatim>\<open>start\<close>, \<^verbatim>\<open>stop\<close> and \<^verbatim>\<open>run\<close> of
  \<^verbatim>\<open>src/src/beacon_net/control_server.cpp\<close>, \<^verbatim>\<open>udp_handshake_responder.cpp\<close> and \<^verbatim>\<open>gossip_service.cpp\<close>.  The owner of a
  service calls \<^verbatim>\<open>start\<close> and \<^verbatim>\<open>stop\<close>; the worker thread executes \<^verbatim>\<open>run\<close>; the network delivers
  datagrams and connections to an open socket.  Each access to \<^verbatim>\<open>stopping_\<close>, each blocking call and each
  change of the socket is a step of its own, and the steps of the three interleave.
\<close>

section \<open>Services\<close>

datatype owner_pc = Idle | Waking | Joining

record ('p, 'm, 'x) service =
  svc_stopping :: bool
  svc_worker :: "'p option"
  svc_owner :: owner_pc
  svc_open :: bool
  svc_queue :: "'m list"
  svc_shared :: 'x

text \<open>\<^const>\<open>svc_worker\<close> is \<^const>\<open>None\<close> when \<^verbatim>\<open>worker_\<close> is not joinable.\<close>

definition new_service :: "'x \<Rightarrow> ('p, 'm, 'x) service" where
  "new_service x = \<lparr>svc_stopping = False, svc_worker = None, svc_owner = Idle, svc_open = False,
     svc_queue = [], svc_shared = x\<rparr>"

text \<open>The worker returns from \<^verbatim>\<open>run\<close>: its socket is closed and what was queued there is lost.\<close>

definition finish :: "'p \<Rightarrow> ('p, 'm, 'x) service \<Rightarrow> ('p, 'm, 'x) service" where
  "finish pc s = s\<lparr>svc_worker := Some pc, svc_open := False, svc_queue := []\<rparr>"

section \<open>The datagram responder\<close>

datatype udp_pc = Udp_start | Udp_test | Udp_receive | Udp_received string | Udp_finished

type_synonym udp_service = "(udp_pc, string, string option list) service"

definition udp_start :: "udp_service \<Rightarrow> udp_service" where
  "udp_start s =
     (if svc_worker s \<noteq> None then s else s\<lparr>svc_stopping := False, svc_worker := Some Udp_start\<rparr>)"

text \<open>The first part of \<^verbatim>\<open>stop\<close>, the datagram it sends (its literal with the final NUL), and \<^verbatim>\<open>join\<close>.\<close>

definition udp_stop :: "udp_service \<Rightarrow> udp_service" where
  "udp_stop s = s\<lparr>svc_stopping := True, svc_owner := (if svc_worker s \<noteq> None then Waking else Idle)\<rparr>"

text \<open>A socket queues up to \<open>cap\<close> datagrams and drops the others.\<close>

definition udp_deliver :: "nat \<Rightarrow> string \<Rightarrow> udp_service \<Rightarrow> udp_service" where
  "udp_deliver cap d s =
     (if svc_open s \<and> length (svc_queue s) < cap then s\<lparr>svc_queue := svc_queue s @ [d]\<rparr> else s)"

definition udp_wake :: "nat \<Rightarrow> udp_service \<Rightarrow> udp_service" where
  "udp_wake cap s = (udp_deliver cap (''BEACON_STOP'' @ [CHR 0x00]) s)\<lparr>svc_owner := Joining\<rparr>"

text \<open>The owner may call \<^verbatim>\<open>start\<close> and \<^verbatim>\<open>stop\<close> at any time; once in \<^verbatim>\<open>stop\<close> it goes on by itself.\<close>

inductive udp_call :: "udp_service \<Rightarrow> udp_service \<Rightarrow> bool" where
  udp_call_start: "svc_owner s = Idle \<Longrightarrow> udp_call s (udp_start s)"
| udp_call_stop: "svc_owner s = Idle \<Longrightarrow> udp_call s (udp_stop s)"

inductive udp_owner :: "nat \<Rightarrow> udp_service \<Rightarrow> udp_service \<Rightarrow> bool" for cap where
  udp_owner_wake: "svc_owner s = Waking \<Longrightarrow> udp_owner cap s (udp_wake cap s)"
| udp_owner_join: "\<lbrakk>svc_owner s = Joining; svc_worker s = Some Udp_finished\<rbrakk>
    \<Longrightarrow> udp_owner cap s (s\<lparr>svc_worker := None, svc_owner := Idle\<rparr>)"

text \<open>An exception of a socket operation ends \<^verbatim>\<open>run\<close>.  The registry is read at the time of the answer.\<close>

inductive udp_worker :: "NodeConfig \<Rightarrow> udp_service \<Rightarrow> udp_service \<Rightarrow> bool" for config where
  udp_bind: "svc_worker s = Some Udp_start
    \<Longrightarrow> udp_worker config s (s\<lparr>svc_worker := Some Udp_test, svc_open := True\<rparr>)"
| udp_bind_error: "svc_worker s = Some Udp_start \<Longrightarrow> udp_worker config s (finish Udp_finished s)"
| udp_loop: "\<lbrakk>svc_worker s = Some Udp_test; \<not> svc_stopping s\<rbrakk>
    \<Longrightarrow> udp_worker config s (s\<lparr>svc_worker := Some Udp_receive\<rparr>)"
| udp_loop_end: "\<lbrakk>svc_worker s = Some Udp_test; svc_stopping s\<rbrakk>
    \<Longrightarrow> udp_worker config s (finish Udp_finished s)"
| udp_receive_from: "\<lbrakk>svc_worker s = Some Udp_receive; svc_queue s = d # q\<rbrakk>
    \<Longrightarrow> udp_worker config s (s\<lparr>svc_worker := Some (Udp_received d), svc_queue := q\<rparr>)"
| udp_receive_error: "svc_worker s = Some Udp_receive \<Longrightarrow> udp_worker config s (finish Udp_finished s)"
| udp_break: "\<lbrakk>svc_worker s = Some (Udp_received d); svc_stopping s\<rbrakk>
    \<Longrightarrow> udp_worker config s (finish Udp_finished s)"
| udp_answer: "\<lbrakk>svc_worker s = Some (Udp_received d); \<not> svc_stopping s\<rbrakk>
    \<Longrightarrow> udp_worker config s
          (s\<lparr>svc_worker := Some Udp_test, svc_shared := svc_shared s @ [answer_datagram config (reg :: disk AgentRegistry) d]\<rparr>)"
| udp_send_error: "\<lbrakk>svc_worker s = Some (Udp_received d); \<not> svc_stopping s; answer_datagram config (reg :: disk AgentRegistry) d \<noteq> None\<rbrakk>
    \<Longrightarrow> udp_worker config s (finish Udp_finished s)"

inductive udp_network :: "nat \<Rightarrow> udp_service \<Rightarrow> udp_service \<Rightarrow> bool" for cap where
  udp_datagram: "udp_network cap s (udp_deliver cap d s)"

definition udp_threads :: "nat \<Rightarrow> NodeConfig \<Rightarrow> udp_service \<Rightarrow> udp_service \<Rightarrow> bool" where
  "udp_threads cap config s s' \<longleftrightarrow> udp_owner cap s s' \<or> udp_worker config s s'"

definition udp_surroundings :: "nat \<Rightarrow> udp_service \<Rightarrow> udp_service \<Rightarrow> bool" where
  "udp_surroundings cap s s' \<longleftrightarrow> udp_call s s' \<or> udp_network cap s s'"

section \<open>The control server\<close>

text \<open>
  What a session depends on at the client's end: what the client sends in all, or \<^const>\<open>None\<close> while it
  is silent (it has neither sent what the session reads nor closed), and how many octets of a reply
  the connection takes, by the buffers of the system and by what the client reads.  A client that has
  closed takes any reply: the write fails and the session is over.
\<close>

record client =
  cl_sends :: "connection option"
  cl_takes :: nat

definition goes_on :: "client \<Rightarrow> client \<Rightarrow> bool" where
  "goes_on c c' \<longleftrightarrow> (cl_sends c = None \<or> cl_sends c' = cl_sends c) \<and> cl_takes c \<le> cl_takes c'"

text \<open>\<^verbatim>\<open>Ctl_serving\<close> is a session that reads, \<^verbatim>\<open>Ctl_writing\<close> one that writes its reply.\<close>

datatype control_pc =
    Ctl_start | Ctl_test | Ctl_accept | Ctl_accepted client
  | Ctl_serving client | Ctl_writing bytes nat | Ctl_finished

type_synonym 'e control_service = "(control_pc, client, 'e node) service"

definition control_start :: "'e control_service \<Rightarrow> 'e control_service" where
  "control_start s =
     (if svc_worker s \<noteq> None then s else s\<lparr>svc_stopping := False, svc_worker := Some Ctl_start\<rparr>)"

definition control_stop :: "'e control_service \<Rightarrow> 'e control_service" where
  "control_stop s = s\<lparr>svc_stopping := True, svc_owner := (if svc_worker s \<noteq> None then Waking else Idle)\<rparr>"

definition control_connect :: "client \<Rightarrow> 'e control_service \<Rightarrow> 'e control_service" where
  "control_connect c s = (if svc_open s then s\<lparr>svc_queue := svc_queue s @ [c]\<rparr> else s)"

text \<open>
  The connection that \<^verbatim>\<open>stop\<close> makes is closed at once.  When it fails, because the socket is not open
  or for any other reason, the exception is swallowed.
\<close>

definition wake_client :: client where
  "wake_client = \<lparr>cl_sends = Some \<lparr>peeked = [], incoming = []\<rparr>, cl_takes = 0\<rparr>"

definition control_wake :: "bool \<Rightarrow> 'e control_service \<Rightarrow> 'e control_service" where
  "control_wake connects s = (if connects then control_connect wake_client s else s)\<lparr>svc_owner := Joining\<rparr>"

inductive control_call :: "'e control_service \<Rightarrow> 'e control_service \<Rightarrow> bool" where
  control_call_start: "svc_owner s = Idle \<Longrightarrow> control_call s (control_start s)"
| control_call_stop: "svc_owner s = Idle \<Longrightarrow> control_call s (control_stop s)"

inductive control_owner :: "'e control_service \<Rightarrow> 'e control_service \<Rightarrow> bool" where
  control_owner_wake: "svc_owner s = Waking \<Longrightarrow> control_owner s (control_wake connects s)"
| control_owner_join: "\<lbrakk>svc_owner s = Joining; svc_worker s = Some Ctl_finished\<rbrakk>
    \<Longrightarrow> control_owner s (s\<lparr>svc_worker := None, svc_owner := Idle\<rparr>)"

text \<open>
  A session reads, changes the node, and writes its reply; the write returns when the connection has
  taken all of it.
\<close>

inductive control_worker ::
  "protobuf option \<Rightarrow> sodium option \<Rightarrow> ControlProtocol \<Rightarrow> 'e control_service \<Rightarrow> 'e control_service \<Rightarrow> bool"
  for pb lib proto where
  control_bind: "svc_worker s = Some Ctl_start
    \<Longrightarrow> control_worker pb lib proto s (s\<lparr>svc_worker := Some Ctl_test, svc_open := True\<rparr>)"
| control_bind_error: "svc_worker s = Some Ctl_start \<Longrightarrow> control_worker pb lib proto s (finish Ctl_finished s)"
| control_loop: "\<lbrakk>svc_worker s = Some Ctl_test; \<not> svc_stopping s\<rbrakk>
    \<Longrightarrow> control_worker pb lib proto s (s\<lparr>svc_worker := Some Ctl_accept\<rparr>)"
| control_loop_end: "\<lbrakk>svc_worker s = Some Ctl_test; svc_stopping s\<rbrakk>
    \<Longrightarrow> control_worker pb lib proto s (finish Ctl_finished s)"
| control_accept: "\<lbrakk>svc_worker s = Some Ctl_accept; svc_queue s = c # q\<rbrakk>
    \<Longrightarrow> control_worker pb lib proto s (s\<lparr>svc_worker := Some (Ctl_accepted c), svc_queue := q\<rparr>)"
| control_skip: "\<lbrakk>svc_worker s = Some (Ctl_accepted c); svc_stopping s\<rbrakk>
    \<Longrightarrow> control_worker pb lib proto s (s\<lparr>svc_worker := Some Ctl_test\<rparr>)"
| control_session: "\<lbrakk>svc_worker s = Some (Ctl_accepted c); \<not> svc_stopping s\<rbrakk>
    \<Longrightarrow> control_worker pb lib proto s (s\<lparr>svc_worker := Some (Ctl_serving c)\<rparr>)"
| control_handled: "\<lbrakk>svc_worker s = Some (Ctl_serving c); cl_sends c = Some conn;
      serve_session pb lib now proto conn (svc_shared s) = (reply, node)\<rbrakk>
    \<Longrightarrow> control_worker pb lib proto s
          (s\<lparr>svc_worker := Some (case reply of None \<Rightarrow> Ctl_test | Some r \<Rightarrow> Ctl_writing r (cl_takes c)),
             svc_shared := node\<rparr>)"
| control_written: "\<lbrakk>svc_worker s = Some (Ctl_writing reply n); length reply \<le> n\<rbrakk>
    \<Longrightarrow> control_worker pb lib proto s (s\<lparr>svc_worker := Some Ctl_test\<rparr>)"

text \<open>
  Clients connect, and those that wait or are served send, read and close.  \<^verbatim>\<open>accept\<close> may fail, which ends
  \<^verbatim>\<open>run\<close>; nothing makes it fail.
\<close>

inductive control_network :: "'e control_service \<Rightarrow> 'e control_service \<Rightarrow> bool" where
  control_client: "control_network s (control_connect c s)"
| control_client_queued: "\<lbrakk>i < length (svc_queue s); goes_on (svc_queue s ! i) c\<rbrakk>
    \<Longrightarrow> control_network s (s\<lparr>svc_queue := (svc_queue s)[i := c]\<rparr>)"
| control_client_served: "\<lbrakk>svc_worker s = Some (Ctl_serving c); goes_on c c'\<rbrakk>
    \<Longrightarrow> control_network s (s\<lparr>svc_worker := Some (Ctl_serving c')\<rparr>)"
| control_client_reads: "\<lbrakk>svc_worker s = Some (Ctl_writing reply n); n \<le> n'\<rbrakk>
    \<Longrightarrow> control_network s (s\<lparr>svc_worker := Some (Ctl_writing reply n')\<rparr>)"
| control_accept_error: "svc_worker s = Some Ctl_accept \<Longrightarrow> control_network s (finish Ctl_finished s)"

definition control_threads ::
  "protobuf option \<Rightarrow> sodium option \<Rightarrow> ControlProtocol \<Rightarrow> 'e control_service \<Rightarrow> 'e control_service \<Rightarrow> bool" where
  "control_threads pb lib proto s s' \<longleftrightarrow> control_owner s s' \<or> control_worker pb lib proto s s'"

definition control_surroundings :: "'e control_service \<Rightarrow> 'e control_service \<Rightarrow> bool" where
  "control_surroundings s s' \<longleftrightarrow> control_call s s' \<or> control_network s s'"

section \<open>The gossip service\<close>

text \<open>
  \<^verbatim>\<open>Gossip_schedule\<close> is \<^verbatim>\<open>schedule_round\<close>, \<^verbatim>\<open>Gossip_wait\<close> the armed timer, \<^verbatim>\<open>Gossip_round\<close> its handler past the
  test.  When a handler does not arm the timer again, \<^verbatim>\<open>context.run()\<close> has no work left and returns.
\<close>

datatype gossip_pc = Gossip_schedule | Gossip_wait | Gossip_round | Gossip_finished

type_synonym ('e, 'w) gossip_service =
  "(gossip_pc, unit, IdentityService option \<times> 'e AgentRegistry \<times> 'e \<times> 'w) service"

definition gossip_start :: "('e, 'w) gossip_service \<Rightarrow> ('e, 'w) gossip_service" where
  "gossip_start s =
     (if svc_worker s \<noteq> None then s else s\<lparr>svc_stopping := False, svc_worker := Some Gossip_schedule\<rparr>)"

definition gossip_stop :: "('e, 'w) gossip_service \<Rightarrow> ('e, 'w) gossip_service" where
  "gossip_stop s = s\<lparr>svc_stopping := True, svc_owner := (if svc_worker s \<noteq> None then Joining else Idle)\<rparr>"

inductive gossip_call :: "('e, 'w) gossip_service \<Rightarrow> ('e, 'w) gossip_service \<Rightarrow> bool" where
  gossip_call_start: "svc_owner s = Idle \<Longrightarrow> gossip_call s (gossip_start s)"
| gossip_call_stop: "svc_owner s = Idle \<Longrightarrow> gossip_call s (gossip_stop s)"

inductive gossip_owner :: "('e, 'w) gossip_service \<Rightarrow> ('e, 'w) gossip_service \<Rightarrow> bool" where
  gossip_owner_join: "\<lbrakk>svc_owner s = Joining; svc_worker s = Some Gossip_finished\<rbrakk>
    \<Longrightarrow> gossip_owner s (s\<lparr>svc_worker := None, svc_owner := Idle\<rparr>)"

inductive gossip_worker ::
  "sodium option \<Rightarrow> 'w transport \<Rightarrow> (string \<Rightarrow> u16 \<Rightarrow> string \<Rightarrow> 'w \<Rightarrow> 'w) \<Rightarrow>
   ('e, 'w) gossip_service \<Rightarrow> ('e, 'w) gossip_service \<Rightarrow> bool"
  for lib net udp where
  gossip_schedule: "\<lbrakk>svc_worker s = Some Gossip_schedule; \<not> svc_stopping s\<rbrakk>
    \<Longrightarrow> gossip_worker lib net udp s (s\<lparr>svc_worker := Some Gossip_wait\<rparr>)"
| gossip_schedule_end: "\<lbrakk>svc_worker s = Some Gossip_schedule; svc_stopping s\<rbrakk>
    \<Longrightarrow> gossip_worker lib net udp s (finish Gossip_finished s)"
| gossip_timer: "\<lbrakk>svc_worker s = Some Gossip_wait; \<not> svc_stopping s\<rbrakk>
    \<Longrightarrow> gossip_worker lib net udp s (s\<lparr>svc_worker := Some Gossip_round\<rparr>)"
| gossip_timer_end: "\<lbrakk>svc_worker s = Some Gossip_wait; svc_stopping s\<rbrakk>
    \<Longrightarrow> gossip_worker lib net udp s (finish Gossip_finished s)"
| gossip_timer_error: "svc_worker s = Some Gossip_wait \<Longrightarrow> gossip_worker lib net udp s (finish Gossip_finished s)"
| gossip_perform: "svc_worker s = Some Gossip_round
    \<Longrightarrow> gossip_worker lib net udp s
          (s\<lparr>svc_worker := Some Gossip_schedule,
             svc_shared := perform_gossip_round lib clocks shuffle net udp svc (svc_shared s)\<rparr>)"

definition gossip_threads ::
  "sodium option \<Rightarrow> 'w transport \<Rightarrow> (string \<Rightarrow> u16 \<Rightarrow> string \<Rightarrow> 'w \<Rightarrow> 'w) \<Rightarrow>
   ('e, 'w) gossip_service \<Rightarrow> ('e, 'w) gossip_service \<Rightarrow> bool" where
  "gossip_threads lib net udp s s' \<longleftrightarrow> gossip_owner s s' \<or> gossip_worker lib net udp s s'"

section \<open>Fair runs\<close>

text \<open>
  A run is an infinite sequence of states in which each state follows from the one before by a step
  of the service's threads, by a step of its surroundings, or by no step at all.  It is fair when
  the threads do not stay able to proceed for ever without proceeding.  The calls of \<^verbatim>\<open>start\<close> and \<^verbatim>\<open>stop\<close>
  are steps of the surroundings: nobody has to make them.
\<close>

definition run_of :: "('s \<Rightarrow> 's \<Rightarrow> bool) \<Rightarrow> ('s \<Rightarrow> 's \<Rightarrow> bool) \<Rightarrow> (nat \<Rightarrow> 's) \<Rightarrow> bool" where
  "run_of threads surroundings \<sigma> \<longleftrightarrow>
     (\<forall>i. threads (\<sigma> i) (\<sigma> (Suc i)) \<or> surroundings (\<sigma> i) (\<sigma> (Suc i)) \<or> \<sigma> (Suc i) = \<sigma> i)"

inductive reached :: "('s \<Rightarrow> 's \<Rightarrow> bool) \<Rightarrow> ('s \<Rightarrow> 's \<Rightarrow> bool) \<Rightarrow> 's \<Rightarrow> 's \<Rightarrow> bool"
  for threads surroundings s0 where
  reached_start: "reached threads surroundings s0 s0"
| reached_thread: "reached threads surroundings s0 s \<Longrightarrow> threads s s' \<Longrightarrow> reached threads surroundings s0 s'"
| reached_surroundings: "reached threads surroundings s0 s \<Longrightarrow> surroundings s s' \<Longrightarrow> reached threads surroundings s0 s'"

lemma run_reached: "run_of threads surroundings \<sigma> \<Longrightarrow> reached threads surroundings (\<sigma> 0) (\<sigma> i)"
proof (induction i)
  case (Suc i)
  then show ?case unfolding run_of_def by (metis reached_thread reached_surroundings)
qed (rule reached_start)

definition fair_run :: "('s \<Rightarrow> 's \<Rightarrow> bool) \<Rightarrow> (nat \<Rightarrow> 's) \<Rightarrow> bool" where
  "fair_run threads \<sigma> \<longleftrightarrow>
     (\<forall>i. \<exists>j\<ge>i. (\<nexists>s'. threads (\<sigma> j) s') \<or> threads (\<sigma> j) (\<sigma> (Suc j)))"

text \<open>A finite run that ends where no thread can proceed, continued by no steps.\<close>

definition extend :: "'s list \<Rightarrow> nat \<Rightarrow> 's" where
  "extend ss i = ss ! min i (length ss - 1)"

lemma extend_run:
  assumes "ss \<noteq> []" and "list_all2 (\<lambda>s s'. threads s s' \<or> surroundings s s') (butlast ss) (tl ss)"
    and "\<nexists>s'. threads (last ss) s'"
  shows "run_of threads surroundings (extend ss)" and "fair_run threads (extend ss)"
proof -
  let ?n = "length ss - 1"
  have step: "threads (ss ! i) (ss ! Suc i) \<or> surroundings (ss ! i) (ss ! Suc i)" if "i < ?n" for i
    using assms(2) that by (auto simp: list_all2_conv_all_nth nth_butlast nth_tl)
  then show "run_of threads surroundings (extend ss)"
    unfolding run_of_def extend_def by (metis Suc_leI min.absorb1 min.absorb2 not_le le_Suc_eq less_imp_le)
  have "extend ss (i + ?n) = last ss" for i
    using assms(1) by (simp add: extend_def last_conv_nth)
  then show "fair_run threads (extend ss)"
    unfolding fair_run_def using assms(3) by (metis le_add1)
qed

text \<open>
  What the end of a service rests on: while a stop is under way, some thread of the service can
  proceed unless the service waits for something outside of it; each step of the threads completes
  the stop or brings it nearer in a well-founded order; and the surroundings neither put it off nor
  make the service wait.
\<close>

locale stops_or_waits =
  fixes threads :: "'s \<Rightarrow> 's \<Rightarrow> bool"
    and surroundings :: "'s \<Rightarrow> 's \<Rightarrow> bool"
    and stopping_now :: "'s \<Rightarrow> bool"
    and stopped :: "'s \<Rightarrow> bool"
    and waiting :: "'s \<Rightarrow> bool"
    and distance :: "'s \<Rightarrow> 'r"
    and smaller :: "('r \<times> 'r) set"
  assumes wf_smaller: "wf smaller" and trans_smaller: "trans smaller"
    and step_or_wait: "stopping_now s \<Longrightarrow> \<not> waiting s \<Longrightarrow> \<exists>s'. threads s s'"
    and progress: "stopping_now s \<Longrightarrow> threads s s' \<Longrightarrow>
      stopped s' \<or> stopping_now s' \<and> (distance s', distance s) \<in> smaller"
    and undisturbed: "stopping_now s \<Longrightarrow> surroundings s s' \<Longrightarrow>
      stopping_now s' \<and> (distance s' = distance s \<or> (distance s', distance s) \<in> smaller)"
    and not_made_to_wait: "stopping_now s \<Longrightarrow> surroundings s s' \<Longrightarrow> \<not> waiting s \<Longrightarrow> \<not> waiting s'"
begin

text \<open>From a state in which the service does not wait, a step of its threads comes.\<close>

lemma thread_step_comes:
  assumes "run_of threads surroundings \<sigma>" and "fair_run threads \<sigma>"
    and going: "\<And>i. k \<le> i \<Longrightarrow> stopping_now (\<sigma> i)" and "\<not> waiting (\<sigma> k)"
  shows "\<exists>j\<ge>k. threads (\<sigma> j) (\<sigma> (Suc j))"
proof (rule ccontr)
  assume never: "\<not> (\<exists>j\<ge>k. threads (\<sigma> j) (\<sigma> (Suc j)))"
  have awake: "\<not> waiting (\<sigma> (k + n))" for n
  proof (induction n)
    case (Suc n)
    have "surroundings (\<sigma> (k + n)) (\<sigma> (Suc (k + n))) \<or> \<sigma> (Suc (k + n)) = \<sigma> (k + n)"
      using assms(1) never unfolding run_of_def by (meson le_add1)
    then show ?case using not_made_to_wait [OF going [of "k + n"]] Suc by auto
  qed (use assms(4) in simp)
  obtain j where "j \<ge> k" "(\<nexists>s'. threads (\<sigma> j) s') \<or> threads (\<sigma> j) (\<sigma> (Suc j))"
    using assms(2) unfolding fair_run_def by blast
  then show False using never step_or_wait [OF going [of j]] awake [of "j - k"] by auto
qed

lemma stop_or_wait:
  assumes "run_of threads surroundings \<sigma>" and "fair_run threads \<sigma>" and "stopping_now (\<sigma> k)"
  shows "\<exists>i\<ge>k. stopped (\<sigma> i) \<or> (\<forall>j\<ge>i. waiting (\<sigma> j))"
  using assms(3)
proof (induction "distance (\<sigma> k)" arbitrary: k rule: wf_induct_rule [OF wf_smaller])
  case (1 k)
  show ?case
  proof (rule ccontr)
    assume neg: "\<not> (\<exists>i\<ge>k. stopped (\<sigma> i) \<or> (\<forall>j\<ge>i. waiting (\<sigma> j)))"
    let ?near = "\<lambda>i. stopping_now (\<sigma> i) \<and> (distance (\<sigma> i) = distance (\<sigma> k) \<or> (distance (\<sigma> i), distance (\<sigma> k)) \<in> smaller)"
    have next_state: "stopping_now (\<sigma> (Suc i)) \<and>
        (distance (\<sigma> (Suc i)) = distance (\<sigma> i) \<or> (distance (\<sigma> (Suc i)), distance (\<sigma> i)) \<in> smaller)"
      if "stopping_now (\<sigma> i)" "k \<le> i" for i
    proof -
      have "\<not> stopped (\<sigma> (Suc i))" using neg that(2) by (auto simp: le_Suc_eq)
      then show ?thesis
        using assms(1) progress [OF that(1)] undisturbed [OF that(1)] that(1) unfolding run_of_def by metis
    qed
    have going: "?near (k + n)" for n
    proof (induction n)
      case (Suc n)
      then show ?case using next_state [of "k + n"] transD [OF trans_smaller] by (metis add_Suc_right le_add1)
    qed (use 1(2) in simp)
    have near: "?near i" if "k \<le> i" for i using going [of "i - k"] that by simp
    obtain m where m: "k \<le> m" "\<not> waiting (\<sigma> m)" using neg by blast
    have "stopping_now (\<sigma> i)" if "m \<le> i" for i using near [of i] that m(1) by simp
    from thread_step_comes [OF assms(1,2) this m(2)] obtain j where j: "m \<le> j" "threads (\<sigma> j) (\<sigma> (Suc j))" by blast
    have kj: "k \<le> j" using m(1) j(1) by simp
    then have "\<not> stopped (\<sigma> (Suc j))" using neg by (auto simp: le_Suc_eq)
    with progress [OF _ j(2)] near [OF kj]
    have "stopping_now (\<sigma> (Suc j))" "(distance (\<sigma> (Suc j)), distance (\<sigma> j)) \<in> smaller" by auto
    moreover from this(2) near [OF kj] have "(distance (\<sigma> (Suc j)), distance (\<sigma> k)) \<in> smaller"
      using transD [OF trans_smaller] by metis
    ultimately obtain i where i: "Suc j \<le> i" "stopped (\<sigma> i) \<or> (\<forall>j\<ge>i. waiting (\<sigma> j))"
      using 1(1) [of "Suc j"] by blast
    moreover have "k \<le> i" using kj i(1) by simp
    ultimately show False using neg by blast
  qed
qed

end

text \<open>A service that never waits.\<close>

locale eventually_stops =
  fixes threads :: "'s \<Rightarrow> 's \<Rightarrow> bool"
    and surroundings :: "'s \<Rightarrow> 's \<Rightarrow> bool"
    and stopping_now :: "'s \<Rightarrow> bool"
    and stopped :: "'s \<Rightarrow> bool"
    and distance :: "'s \<Rightarrow> 'r"
    and smaller :: "('r \<times> 'r) set"
  assumes smaller_wf: "wf smaller" and smaller_trans: "trans smaller"
    and some_step: "stopping_now s \<Longrightarrow> \<exists>s'. threads s s'"
    and step_nearer: "stopping_now s \<Longrightarrow> threads s s' \<Longrightarrow>
      stopped s' \<or> stopping_now s' \<and> (distance s', distance s) \<in> smaller"
    and not_put_off: "stopping_now s \<Longrightarrow> surroundings s s' \<Longrightarrow>
      stopping_now s' \<and> (distance s' = distance s \<or> (distance s', distance s) \<in> smaller)"

sublocale eventually_stops \<subseteq> stops_or_waits threads surroundings stopping_now stopped "\<lambda>_. False" distance smaller
  by unfold_locales (use smaller_wf smaller_trans some_step step_nearer not_put_off in blast)+

context eventually_stops
begin

lemma stop_completes:
  assumes "run_of threads surroundings \<sigma>" and "fair_run threads \<sigma>" and "stopping_now (\<sigma> k)"
  shows "\<exists>i\<ge>k. stopped (\<sigma> i)"
  using stop_or_wait [OF assms] by blast

end

text \<open>The common case, with a number of steps left.\<close>

locale stoppable_service =
  fixes threads :: "'s \<Rightarrow> 's \<Rightarrow> bool"
    and surroundings :: "'s \<Rightarrow> 's \<Rightarrow> bool"
    and stopping_now :: "'s \<Rightarrow> bool"
    and stopped :: "'s \<Rightarrow> bool"
    and rank :: "'s \<Rightarrow> nat"
  assumes can_proceed: "stopping_now s \<Longrightarrow> \<exists>s'. threads s s'"
    and nearer: "stopping_now s \<Longrightarrow> threads s s' \<Longrightarrow> stopped s' \<or> stopping_now s' \<and> rank s' < rank s"
    and calm: "stopping_now s \<Longrightarrow> surroundings s s' \<Longrightarrow> stopping_now s' \<and> rank s' \<le> rank s"

sublocale stoppable_service \<subseteq> eventually_stops threads surroundings stopping_now stopped rank less_than
proof unfold_locales
  show "stopping_now s' \<and> (rank s' = rank s \<or> (rank s', rank s) \<in> less_than)"
    if "stopping_now s" "surroundings s s'" for s s'
    using calm [OF that] by auto
qed (use can_proceed nearer in \<open>auto simp: trans_def\<close>)

section \<open>Stopping the responder\<close>

fun udp_rank :: "udp_pc \<Rightarrow> nat" where
  "udp_rank Udp_start = 2" | "udp_rank Udp_test = 1" | "udp_rank Udp_receive = 2"
| "udp_rank (Udp_received d) = 1" | "udp_rank Udp_finished = 0"

text \<open>
  The invariant of the responder.  The important part is that a worker that waits in \<^verbatim>\<open>receive_from\<close>
  while its owner waits in \<^verbatim>\<open>join\<close> has a datagram to read.
\<close>

definition udp_ok :: "udp_service \<Rightarrow> bool" where
  "udp_ok s \<longleftrightarrow>
     (svc_owner s \<noteq> Idle \<longrightarrow> svc_stopping s \<and> svc_worker s \<noteq> None) \<and>
     (\<forall>pc. svc_worker s = Some pc \<longrightarrow> pc \<noteq> Udp_start \<longrightarrow> pc \<noteq> Udp_finished \<longrightarrow> svc_open s) \<and>
     (svc_owner s = Joining \<longrightarrow> svc_worker s = Some Udp_receive \<longrightarrow> svc_queue s \<noteq> [])"

inductive_cases udp_call_cases: "udp_call s s'"
inductive_cases udp_owner_cases: "udp_owner cap s s'"
inductive_cases udp_worker_cases: "udp_worker config s s'"
inductive_cases udp_network_cases: "udp_network cap s s'"

lemmas udp_defs = udp_ok_def udp_start_def udp_stop_def udp_wake_def udp_deliver_def finish_def

lemma udp_deliver_nonempty: "0 < cap \<Longrightarrow> svc_open s \<Longrightarrow> svc_queue (udp_deliver cap d s) \<noteq> []"
  by (auto simp: udp_deliver_def)

lemma udp_ok_step:
  assumes "0 < cap" and "udp_ok s" and "udp_threads cap config s s' \<or> udp_surroundings cap s s'"
  shows "udp_ok s'"
  using assms unfolding udp_threads_def udp_surroundings_def
  by (elim disjE udp_call_cases udp_owner_cases udp_worker_cases udp_network_cases) (auto simp: udp_defs)

lemma udp_ok_reached:
  assumes "reached (udp_threads cap config) (udp_surroundings cap) (new_service []) s" and "0 < cap"
  shows "udp_ok s"
  using assms(1)
proof induction
  case reached_start
  show ?case by (simp add: udp_ok_def new_service_def)
qed (use udp_ok_step [OF assms(2)] in blast)+

definition stop_requested :: "('p, 'm, 'x) service \<Rightarrow> bool" where
  "stop_requested s \<longleftrightarrow> svc_owner s \<noteq> Idle"

definition stop_returned :: "('p, 'm, 'x) service \<Rightarrow> bool" where
  "stop_returned s \<longleftrightarrow> svc_owner s = Idle \<and> svc_worker s = None"

text \<open>What is left to do: the steps of the worker, and the wake-up.\<close>

definition steps_left :: "('p \<Rightarrow> nat) \<Rightarrow> ('p, 'm, 'x) service \<Rightarrow> nat" where
  "steps_left pc_rank s =
     (case svc_worker s of None \<Rightarrow> 0 | Some pc \<Rightarrow> pc_rank pc) + (if svc_owner s = Waking then 1 else 0)"

lemmas stop_defs = stop_requested_def stop_returned_def steps_left_def

interpretation udp: stoppable_service "udp_threads (Suc cap) config" "udp_surroundings (Suc cap)"
  "\<lambda>s. udp_ok s \<and> stop_requested s" stop_returned "steps_left udp_rank"
proof unfold_locales
  fix s s' :: udp_service
  assume s: "udp_ok s \<and> stop_requested s"
  then obtain pc where pc: "svc_worker s = Some pc" by (auto simp: udp_ok_def stop_requested_def)
  show "\<exists>s'. udp_threads (Suc cap) config s s'"
  proof (cases "svc_owner s")
    case Joining
    then have "\<exists>d q. svc_queue s = d # q" if "pc = Udp_receive"
      using s pc that by (auto simp: udp_ok_def neq_Nil_conv)
    then show ?thesis
      using s pc Joining unfolding udp_threads_def udp_ok_def stop_requested_def
      by (cases pc) (metis udp_bind, metis owner_pc.distinct(3) udp_loop_end, metis udp_receive_from,
          metis owner_pc.distinct(3) udp_break, metis udp_owner_join)
  qed (use s in \<open>auto simp: udp_threads_def stop_requested_def intro: udp_owner_wake\<close>)
  show "(udp_ok s' \<and> stop_requested s') \<and> steps_left udp_rank s' \<le> steps_left udp_rank s"
    if "udp_surroundings (Suc cap) s s'"
    using that s unfolding udp_surroundings_def
    by (elim disjE udp_call_cases udp_network_cases) (auto simp: udp_defs stop_defs)
  assume t: "udp_threads (Suc cap) config s s'"
  then have "udp_ok s'"
    using udp_ok_step [of "Suc cap" s config s'] s by simp
  moreover have "stop_returned s' \<or> stop_requested s' \<and> steps_left udp_rank s' < steps_left udp_rank s"
    using t s unfolding udp_threads_def
    by (elim disjE udp_owner_cases udp_worker_cases) (auto simp: udp_defs stop_defs)
  ultimately show "stop_returned s' \<or> (udp_ok s' \<and> stop_requested s') \<and> steps_left udp_rank s' < steps_left udp_rank s"
    by blast
qed

section \<open>Stopping the control server\<close>

fun control_rank :: "control_pc \<Rightarrow> nat" where
  "control_rank Ctl_start = 2" | "control_rank Ctl_test = 1" | "control_rank Ctl_accept = 3"
| "control_rank (Ctl_accepted c) = 2" | "control_rank (Ctl_serving c) = 3" | "control_rank (Ctl_writing r n) = 2"
| "control_rank Ctl_finished = 0"

definition control_ok :: "sodium option \<Rightarrow> ControlProtocol \<Rightarrow> 'e control_service \<Rightarrow> bool" where
  "control_ok lib proto s \<longleftrightarrow>
     (svc_owner s \<noteq> Idle \<longrightarrow> svc_stopping s \<and> svc_worker s \<noteq> None) \<and>
     (\<forall>pc. svc_worker s = Some pc \<longrightarrow> pc \<noteq> Ctl_start \<longrightarrow> pc \<noteq> Ctl_finished \<longrightarrow> svc_open s) \<and>
     node_ok lib proto (svc_shared s)"

inductive_cases control_call_cases: "control_call s s'"
inductive_cases control_owner_cases: "control_owner s s'"
inductive_cases control_worker_cases: "control_worker pb lib proto s s'"
inductive_cases control_network_cases: "control_network s s'"

lemmas control_defs = control_ok_def control_start_def control_stop_def control_wake_def control_connect_def finish_def

lemma control_ok_owner: "control_ok lib proto s \<Longrightarrow> control_owner s s' \<Longrightarrow> control_ok lib proto s'"
  by (elim control_owner_cases) (auto simp: control_defs)

lemma control_ok_network: "control_ok lib proto s \<Longrightarrow> control_network s s' \<Longrightarrow> control_ok lib proto s'"
  by (elim control_network_cases) (auto simp: control_defs)

lemma session_node_ok:
  "\<lbrakk>node_ok lib proto node; serve_session pb lib now proto conn node = (reply, node')\<rbrakk> \<Longrightarrow> node_ok lib proto node'"
  using serve_session_ok [of lib proto node pb now conn] by simp

lemma control_ok_worker: "control_ok lib proto s \<Longrightarrow> control_worker pb lib proto s s' \<Longrightarrow> control_ok lib proto s'"
  by (elim control_worker_cases) (auto simp: control_defs intro: session_node_ok)

lemma control_ok_call: "control_ok lib proto s \<Longrightarrow> control_call s s' \<Longrightarrow> control_ok lib proto s'"
  by (elim control_call_cases) (auto simp: control_defs)

lemma control_ok_step:
  "control_ok lib proto s \<Longrightarrow> control_threads pb lib proto s s' \<or> control_surroundings s s' \<Longrightarrow> control_ok lib proto s'"
  unfolding control_threads_def control_surroundings_def
  using control_ok_owner control_ok_network control_ok_worker control_ok_call by blast

lemma control_ok_reached:
  assumes "reached (control_threads pb lib proto) control_surroundings (new_service node) s" and "node_ok lib proto node"
  shows "control_ok lib proto s"
  using assms(1)
proof induction
  case reached_start
  show ?case using assms(2) by (simp add: control_ok_def new_service_def)
qed (use control_ok_step in blast)+

text \<open>
  What the worker can wait for: the client of the session, that it sends or reads on, and in
  \<^verbatim>\<open>accept\<close> a connection, when its owner has tried to wake it.
\<close>

definition client_holds :: "'e control_service \<Rightarrow> bool" where
  "client_holds s =
     (case svc_worker s of
        Some (Ctl_serving c) \<Rightarrow> cl_sends c = None
      | Some (Ctl_writing reply n) \<Rightarrow> n < length reply
      | _ \<Rightarrow> False)"

definition nobody_connects :: "'e control_service \<Rightarrow> bool" where
  "nobody_connects s \<longleftrightarrow> svc_owner s = Joining \<and> svc_worker s = Some Ctl_accept \<and> svc_queue s = []"

lemmas wait_defs = client_holds_def nobody_connects_def

lemma control_can_proceed:
  assumes "control_ok lib proto s" and "stop_requested s" and "\<not> client_holds s" and "\<not> nobody_connects s"
  shows "\<exists>s'. control_threads pb lib proto s s'"
proof (cases "svc_owner s")
  case Joining
  obtain pc where pc: "svc_worker s = Some pc" and stop: "svc_stopping s"
    using assms(1,2) by (auto simp: control_ok_def stop_requested_def)
  have "\<exists>s'. control_worker pb lib proto s s' \<or> control_owner s s'"
  proof (cases pc)
    case Ctl_accept
    then obtain c q where "svc_queue s = c # q" using assms(4) pc Joining by (auto simp: nobody_connects_def neq_Nil_conv)
    with pc Ctl_accept show ?thesis by (metis control_accept)
  next
    case (Ctl_serving c)
    then obtain conn where "cl_sends c = Some conn" using assms(3) pc by (auto simp: client_holds_def)
    then show ?thesis using pc Ctl_serving by (metis control_handled surj_pair)
  next
    case (Ctl_writing reply n)
    then have "length reply \<le> n" using assms(3) pc by (simp add: client_holds_def)
    then show ?thesis using pc Ctl_writing by (metis control_written)
  qed (use pc stop Joining in \<open>metis control_bind control_loop_end control_skip control_owner_join\<close>)+
  then show ?thesis by (auto simp: control_threads_def)
qed (use assms(2) in \<open>auto simp: control_threads_def stop_requested_def intro: control_owner_wake\<close>)

interpretation ctl: stops_or_waits "control_threads pb lib proto" control_surroundings
  "\<lambda>s. control_ok lib proto s \<and> stop_requested s" stop_returned "\<lambda>s. client_holds s \<or> nobody_connects s"
  "steps_left control_rank" less_than
proof unfold_locales
  fix s s' :: "'a control_service"
  assume s: "control_ok lib proto s \<and> stop_requested s"
  show "\<exists>s'. control_threads pb lib proto s s'" if "\<not> (client_holds s \<or> nobody_connects s)"
    using control_can_proceed s that by blast
  show "stop_returned s' \<or> (control_ok lib proto s' \<and> stop_requested s') \<and>
      (steps_left control_rank s', steps_left control_rank s) \<in> less_than" if t: "control_threads pb lib proto s s'"
  proof -
    have "control_ok lib proto s'" using control_ok_step [of lib proto s pb s'] s t by blast
    moreover have "stop_returned s' \<or> stop_requested s' \<and> steps_left control_rank s' < steps_left control_rank s"
      using t s unfolding control_threads_def
      by (elim disjE control_owner_cases control_worker_cases) (auto simp: control_defs stop_defs split: option.splits)
    ultimately show ?thesis by auto
  qed
  assume n: "control_surroundings s s'"
  then have "control_ok lib proto s'" using control_ok_step s by blast
  moreover have "stop_requested s' \<and> steps_left control_rank s' \<le> steps_left control_rank s"
    using n s unfolding control_surroundings_def
    by (elim disjE control_call_cases control_network_cases) (auto simp: control_connect_def stop_defs finish_def)
  ultimately show "(control_ok lib proto s' \<and> stop_requested s') \<and>
      (steps_left control_rank s' = steps_left control_rank s \<or>
       (steps_left control_rank s', steps_left control_rank s) \<in> less_than)"
    by auto
  show "\<not> (client_holds s' \<or> nobody_connects s')" if "\<not> (client_holds s \<or> nobody_connects s)"
    using n s that unfolding control_surroundings_def
    by (elim disjE control_call_cases control_network_cases)
      (auto simp: control_connect_def wait_defs goes_on_def stop_requested_def finish_def)
qed (simp_all add: trans_def)

text \<open>The wake-up connections of a run go through whenever the socket is open.\<close>

definition wake_ups_connect :: "(nat \<Rightarrow> 'e control_service) \<Rightarrow> bool" where
  "wake_ups_connect \<sigma> \<longleftrightarrow>
     (\<forall>i. svc_owner (\<sigma> i) = Waking \<longrightarrow> svc_owner (\<sigma> (Suc i)) = Joining \<longrightarrow> svc_open (\<sigma> i) \<longrightarrow>
        svc_queue (\<sigma> (Suc i)) \<noteq> [])"

text \<open>Then a worker whose owner joins it finds a connection in \<^verbatim>\<open>accept\<close>.\<close>

definition woken :: "'e control_service \<Rightarrow> bool" where
  "woken s \<longleftrightarrow> (svc_owner s = Joining \<longrightarrow> svc_worker s = Some Ctl_accept \<longrightarrow> svc_queue s \<noteq> [])"

lemma woken_step:
  assumes "control_ok lib proto s" and "woken s" and "control_threads pb lib proto s s' \<or> control_surroundings s s'"
    and "svc_owner s = Waking \<Longrightarrow> svc_owner s' = Joining \<Longrightarrow> svc_open s \<Longrightarrow> svc_queue s' \<noteq> []"
  shows "woken s'"
  using assms(3) unfolding control_threads_def control_surroundings_def
proof (elim disjE)
  assume "control_owner s s'"
  then show ?thesis
    using assms(1,4) by (elim control_owner_cases) (auto simp: woken_def control_wake_def control_connect_def control_ok_def)
next
  assume "control_worker pb lib proto s s'"
  then show ?thesis
    using assms(1,2) by (elim control_worker_cases) (auto simp: woken_def control_ok_def finish_def split: option.splits)
next
  assume "control_call s s'"
  then show ?thesis
    by (elim control_call_cases) (auto simp: woken_def control_start_def control_stop_def)
next
  assume "control_network s s'"
  then show ?thesis
    using assms(2) by (elim control_network_cases) (auto simp: woken_def control_connect_def finish_def)
qed

lemma woken_run:
  assumes "run_of (control_threads pb lib proto) control_surroundings \<sigma>" and "\<And>i. control_ok lib proto (\<sigma> i)"
    and "wake_ups_connect \<sigma>" and "\<sigma> 0 = new_service node"
  shows "woken (\<sigma> i)"
proof (induction i)
  case 0
  show ?case by (simp add: assms(4) woken_def new_service_def)
next
  case (Suc i)
  consider "control_threads pb lib proto (\<sigma> i) (\<sigma> (Suc i)) \<or> control_surroundings (\<sigma> i) (\<sigma> (Suc i))" | "\<sigma> (Suc i) = \<sigma> i"
    using assms(1) unfolding run_of_def by blast
  then show ?case
  proof cases
    case 1
    show ?thesis
      by (rule woken_step [OF assms(2) Suc 1]) (use assms(3) in \<open>auto simp: wake_ups_connect_def\<close>)
  qed (use Suc in simp)
qed

section \<open>Stopping the gossip service\<close>

fun gossip_rank :: "gossip_pc \<Rightarrow> nat" where
  "gossip_rank Gossip_schedule = 1" | "gossip_rank Gossip_wait = 1" | "gossip_rank Gossip_round = 2"
| "gossip_rank Gossip_finished = 0"

definition gossip_thread_ok :: "('e, 'w) gossip_service \<Rightarrow> bool" where
  "gossip_thread_ok s \<longleftrightarrow>
     (svc_owner s \<noteq> Idle \<longrightarrow> svc_owner s = Joining \<and> svc_stopping s \<and> svc_worker s \<noteq> None) \<and>
     gossip_ok (fst (svc_shared s)) (fst (snd (svc_shared s)))"

inductive_cases gossip_call_cases: "gossip_call s s'"
inductive_cases gossip_owner_cases: "gossip_owner s s'"
inductive_cases gossip_worker_cases: "gossip_worker lib net udp s s'"

lemmas gossip_defs = gossip_thread_ok_def gossip_start_def gossip_stop_def finish_def

lemma gossip_ok_round:
  assumes "gossip_ok (fst state) (fst (snd state))"
  shows "gossip_ok (fst (perform_gossip_round lib clocks shuffle net udp svc state))
     (fst (snd (perform_gossip_round lib clocks shuffle net udp svc state)))"
  using gossip_loop_ok [OF assms] assms by (auto simp: perform_gossip_round_def Let_def)

lemma gossip_thread_ok_step:
  "gossip_thread_ok s \<Longrightarrow> gossip_threads lib net udp s s' \<or> gossip_call s s' \<Longrightarrow> gossip_thread_ok s'"
  unfolding gossip_threads_def
  by (elim disjE gossip_call_cases gossip_owner_cases gossip_worker_cases)
    (auto simp: gossip_defs gossip_ok_round)

interpretation gsp: stoppable_service
  "gossip_threads lib net udp :: ('e, 'w) gossip_service \<Rightarrow> ('e, 'w) gossip_service \<Rightarrow> bool" gossip_call
  "\<lambda>s. gossip_thread_ok s \<and> stop_requested s" stop_returned "steps_left gossip_rank"
proof unfold_locales
  fix s s' :: "('e, 'w) gossip_service"
  assume s: "gossip_thread_ok s \<and> stop_requested s"
  then obtain pc where pc: "svc_worker s = Some pc" and own: "svc_owner s = Joining" "svc_stopping s"
    by (auto simp: gossip_thread_ok_def stop_requested_def)
  then show "\<exists>s'. gossip_threads lib net udp s s'"
    unfolding gossip_threads_def
    by (cases pc) (metis gossip_schedule_end, metis gossip_timer_end, metis gossip_perform, metis gossip_owner_join)
  show "(gossip_thread_ok s' \<and> stop_requested s') \<and> steps_left gossip_rank s' \<le> steps_left gossip_rank s"
    if "gossip_call s s'"
    using that own by (elim gossip_call_cases) auto
  assume t: "gossip_threads lib net udp s s'"
  then have "gossip_thread_ok s'" using gossip_thread_ok_step s by blast
  moreover have "stop_returned s' \<or> stop_requested s' \<and> steps_left gossip_rank s' < steps_left gossip_rank s"
    using t s unfolding gossip_threads_def
    by (elim disjE gossip_owner_cases gossip_worker_cases) (auto simp: gossip_defs stop_defs)
  ultimately show "stop_returned s' \<or> (gossip_thread_ok s' \<and> stop_requested s') \<and>
      steps_left gossip_rank s' < steps_left gossip_rank s"
    by blast
qed

section \<open>Properties\<close>

text \<open>
  Stopping the datagram responder always ends.  However \<^verbatim>\<open>stop\<close> interleaves with the
  worker, with a \<^verbatim>\<open>start\<close> just before it and with arriving datagrams, no wake-up is lost: in every
  fair run \<^verbatim>\<open>stop\<close> returns, and then there is no worker.
\<close>

theorem udp_stop_returns:
  assumes "0 < cap" and "\<sigma> 0 = new_service []"
    and "run_of (udp_threads cap config) (udp_surroundings cap) \<sigma>"
    and "fair_run (udp_threads cap config) \<sigma>" and "stop_requested (\<sigma> k)"
  shows "\<exists>i\<ge>k. stop_returned (\<sigma> i)"
proof -
  obtain n where cap: "cap = Suc n" using assms(1) by (cases cap) simp_all
  have "udp_ok (\<sigma> k)"
    using udp_ok_reached [OF _ assms(1)] run_reached [OF assms(3), of k] assms(2) by metis
  with assms(5) show ?thesis
    using udp.stop_completes [of n config \<sigma> k] assms(3,4) by (simp add: cap)
qed

text \<open>A short life: start, stop before the worker gets to bind, and the worker's end.\<close>

definition udp_life :: "udp_service list" where
  "udp_life =
     (let s0 = new_service []; s1 = udp_start s0; s2 = udp_stop s1; s3 = udp_wake 1 s2; s4 = finish Udp_finished s3
      in [s0, s1, s2, s3, s4, s4\<lparr>svc_worker := None, svc_owner := Idle\<rparr>])"

lemma udp_selectors:
  "svc_owner (new_service x) = Idle" "svc_owner (udp_start s) = svc_owner s"
  "svc_owner (udp_stop (udp_start s)) = Waking" "svc_worker (udp_start (new_service x)) = Some Udp_start"
  "svc_worker (udp_stop s) = svc_worker s" "svc_worker (udp_wake cap s) = svc_worker s"
  "svc_owner (udp_wake cap s) = Joining" "svc_owner (finish pc s) = svc_owner s" "svc_worker (finish pc s) = Some pc"
  by (auto simp: new_service_def udp_defs)

lemma udp_life_run:
  "run_of (udp_threads 1 config) (udp_surroundings 1) (extend udp_life)"
  "fair_run (udp_threads 1 config) (extend udp_life)"
proof -
  note states = udp_selectors
  have "list_all2 (\<lambda>s s'. udp_threads 1 config s s' \<or> udp_surroundings 1 s s') (butlast udp_life) (tl udp_life)"
    unfolding udp_life_def Let_def udp_threads_def udp_surroundings_def
    by (simp add: udp_call_start udp_call_stop udp_owner_wake udp_bind_error udp_owner_join states)
  moreover have "\<nexists>s'. udp_threads 1 config (last udp_life) s'"
    by (auto simp: udp_threads_def udp_life_def Let_def elim!: udp_owner_cases udp_worker_cases)
  ultimately show "run_of (udp_threads 1 config) (udp_surroundings 1) (extend udp_life)"
    "fair_run (udp_threads 1 config) (extend udp_life)"
    using extend_run [of udp_life] by (simp_all add: udp_life_def Let_def)
qed

theorem udp_stop_returns_witness: "\<exists>i\<ge>2. stop_returned (extend udp_life i)"
proof (rule udp_stop_returns [OF _ _ udp_life_run [of default_NodeConfig]])
  show "stop_requested (extend udp_life 2)"
    by (simp add: extend_def udp_life_def Let_def new_service_def udp_defs stop_requested_def)
qed (simp_all add: extend_def udp_life_def Let_def)

text \<open>
  Property C24: the control server as threads.  Whatever interleaves, the node has its invariant in every
  state.  In every fair run a \<^verbatim>\<open>stop\<close> that was called returns, or from some moment on the worker
  waits for ever: for the client of its session, which neither sends on, nor reads the reply that is
  being written to it, nor closes; or in \<^verbatim>\<open>accept\<close> for a connection.  The latter does not happen where
  the connection that \<^verbatim>\<open>stop\<close> makes to wake the worker goes through.
\<close>

theorem control_stop_returns:
  assumes "node_ok lib proto node" and "\<sigma> 0 = new_service node"
    and "run_of (control_threads pb lib proto) control_surroundings \<sigma>"
    and "fair_run (control_threads pb lib proto) \<sigma>"
    and "stop_requested (\<sigma> k)"
  shows "(\<forall>i. node_ok lib proto (svc_shared (\<sigma> i))) \<and>
     (\<exists>i\<ge>k. stop_returned (\<sigma> i) \<or> (\<forall>j\<ge>i. client_holds (\<sigma> j) \<or> nobody_connects (\<sigma> j))) \<and>
     (wake_ups_connect \<sigma> \<longrightarrow> (\<exists>i\<ge>k. stop_returned (\<sigma> i) \<or> (\<forall>j\<ge>i. client_holds (\<sigma> j))))"
proof -
  have ok: "control_ok lib proto (\<sigma> i)" for i
    using control_ok_reached [OF _ assms(1)] run_reached [OF assms(3), of i] assms(2) by metis
  obtain i where i: "k \<le> i" "stop_returned (\<sigma> i) \<or> (\<forall>j\<ge>i. client_holds (\<sigma> j) \<or> nobody_connects (\<sigma> j))"
    using ctl.stop_or_wait [OF assms(3,4), of k] ok [of k] assms(5) by auto
  have "\<not> nobody_connects (\<sigma> j)" if "wake_ups_connect \<sigma>" for j
    using woken_run [OF assms(3) ok that assms(2), of j] by (auto simp: woken_def nobody_connects_def)
  with i have "\<exists>i\<ge>k. stop_returned (\<sigma> i) \<or> (\<forall>j\<ge>i. client_holds (\<sigma> j))" if "wake_ups_connect \<sigma>"
    using that by blast
  with i ok show ?thesis by (auto simp: control_ok_def)
qed

definition control_life :: "unit control_service list" where
  "control_life =
     (let s0 = new_service (None, new_AgentRegistry, ()); s1 = control_start s0; s2 = control_stop s1;
          s3 = control_wake True s2; s4 = finish Ctl_finished s3
      in [s0, s1, s2, s3, s4, s4\<lparr>svc_worker := None, svc_owner := Idle\<rparr>])"

lemma control_selectors:
  "svc_owner (new_service x) = Idle" "svc_owner (control_start s) = svc_owner s"
  "svc_owner (control_stop (control_start s)) = Waking" "svc_worker (control_start (new_service x)) = Some Ctl_start"
  "svc_worker (control_stop s) = svc_worker s" "svc_worker (control_wake b s) = svc_worker s"
  "svc_owner (control_wake b s) = Joining" "svc_owner (finish pc s) = svc_owner s" "svc_worker (finish pc s) = Some pc"
  by (auto simp: new_service_def control_defs)

lemma control_life_run:
  "run_of (control_threads pb lib proto) control_surroundings (extend control_life)"
  "fair_run (control_threads pb lib proto) (extend control_life)"
proof -
  note states = control_selectors
  have "list_all2 (\<lambda>s s'. control_threads pb lib proto s s' \<or> control_surroundings s s')
      (butlast control_life) (tl control_life)"
    unfolding control_life_def Let_def control_threads_def control_surroundings_def
    by (simp add: control_call_start control_call_stop control_owner_wake control_bind_error control_owner_join states)
  moreover have "\<nexists>s'. control_threads pb lib proto (last control_life) s'"
    by (auto simp: control_threads_def control_life_def Let_def elim!: control_owner_cases control_worker_cases)
  ultimately show "run_of (control_threads pb lib proto) control_surroundings (extend control_life)"
    "fair_run (control_threads pb lib proto) (extend control_life)"
    using extend_run [of control_life] by (simp_all add: control_life_def Let_def)
qed

theorem control_stop_returns_witness:
  "\<exists>i\<ge>2. stop_returned (extend control_life i)"
proof -
  let ?proto = "\<lparr>proto_lifecycle = default_LifecycleConfig, proto_trust = default_TrustConfig\<rparr>"
  have node: "node_ok None ?proto (None, new_AgentRegistry, ())" by (simp add: node_ok_def new_AgentRegistry_def)
  have first: "extend control_life 0 = new_service (None, new_AgentRegistry, ())" by (simp add: extend_def control_life_def Let_def)
  have stop: "stop_requested (extend control_life 2)"
    by (simp add: extend_def control_life_def Let_def new_service_def control_defs stop_requested_def)
  have "\<not> client_holds (extend control_life (i + 5)) \<and> \<not> nobody_connects (extend control_life (i + 5))" for i
    by (simp add: extend_def control_life_def Let_def wait_defs)
  then have "\<not> (\<forall>j\<ge>i. client_holds (extend control_life j) \<or> nobody_connects (extend control_life j))" for i
    by (metis le_add1)
  with control_stop_returns [OF node first control_life_run [of None] stop] show ?thesis by blast
qed

text \<open>
  One client holds up the control server.  A state can be reached in which \<^verbatim>\<open>stop\<close> was called and
  neither it nor the worker can go on, however many other clients connect: while a client is silent,
  until it sends something or closes; and while a client to which a reply is being written does not
  read it, until it reads or closes.
\<close>

lemma joined_worker_waits:
  "\<lbrakk>svc_owner s = Joining; client_holds s \<or> nobody_connects s\<rbrakk> \<Longrightarrow> \<not> control_threads pb lib proto s s'"
  by (auto simp: control_threads_def wait_defs elim!: control_owner_cases control_worker_cases)

lemma connecting_keeps:
  "svc_owner (fold control_connect cs s) = svc_owner s \<and> svc_worker (fold control_connect cs s) = svc_worker s"
  by (induction cs arbitrary: s) (simp_all add: control_connect_def)

text \<open>A worker that has accepted one client and serves it, in a server that was started before.\<close>

definition server_with :: "client \<Rightarrow> 'e node \<Rightarrow> 'e control_service" where
  "server_with c node =
     \<lparr>svc_stopping = False, svc_worker = Some (Ctl_serving c), svc_owner = Idle, svc_open = True,
      svc_queue = [], svc_shared = node\<rparr>"

definition server_in_accept :: "'e node \<Rightarrow> 'e control_service" where
  "server_in_accept node =
     \<lparr>svc_stopping = False, svc_worker = Some Ctl_accept, svc_owner = Idle, svc_open = True,
      svc_queue = [], svc_shared = node\<rparr>"

lemma server_reached:
  fixes node :: "'e node"
  shows "reached (control_threads pb lib proto) control_surroundings (new_service node) (server_in_accept node)"
    and "reached (control_threads pb lib proto) control_surroundings (new_service node) (server_with c node)"
proof -
  let ?s0 = "new_service node :: 'e control_service"
  let ?s1 = "control_start ?s0"
  let ?s2 = "?s1\<lparr>svc_worker := Some Ctl_test, svc_open := True\<rparr>"
  let ?s3 = "?s2\<lparr>svc_worker := Some Ctl_accept\<rparr>"
  let ?s4 = "control_connect c ?s3"
  let ?s5 = "?s4\<lparr>svc_worker := Some (Ctl_accepted c), svc_queue := []\<rparr>"
  let ?s6 = "?s5\<lparr>svc_worker := Some (Ctl_serving c)\<rparr>"
  let ?reach = "reached (control_threads pb lib proto) control_surroundings ?s0"
  note defs = control_start_def control_connect_def new_service_def
  have thread: "?reach s'" if "?reach s" "control_worker pb lib proto s s'" for s s'
    using that by (auto simp: control_threads_def intro: reached_thread)
  have around: "?reach s'" if "?reach s" "control_call s s' \<or> control_network s s'" for s s'
    using that by (auto simp: control_surroundings_def intro: reached_surroundings)
  have "?reach ?s1" by (rule around [OF reached_start], rule disjI1, rule control_call_start) (simp add: defs)
  then have "?reach ?s2" by (rule thread, intro control_bind) (simp add: defs)
  then have s3: "?reach ?s3" by (rule thread, intro control_loop) (simp_all add: defs)
  then have "?reach ?s4" by (rule around, intro disjI2, intro control_client)
  then have "?reach ?s5" by (rule thread, intro control_accept) (simp_all add: defs)
  then have "?reach ?s6" by (rule thread, intro control_session) (simp_all add: defs)
  moreover have "?s6 = server_with c node" by (simp add: defs server_with_def)
  ultimately show "?reach (server_with c node)" by simp
  have "?s3 = server_in_accept node" by (simp add: defs server_in_accept_def)
  with s3 show "?reach (server_in_accept node)" by simp
qed

text \<open>\<^verbatim>\<open>stop\<close> and its attempt to wake the worker.\<close>

lemma stop_reached:
  assumes "reached (control_threads pb lib proto) control_surroundings s0 s" and "svc_owner s = Idle" and "svc_worker s \<noteq> None"
  shows "reached (control_threads pb lib proto) control_surroundings s0 (control_wake connects (control_stop s))"
proof -
  have stop: "reached (control_threads pb lib proto) control_surroundings s0 (control_stop s)"
    by (rule reached_surroundings [OF assms(1)]) (simp add: control_surroundings_def control_call_stop assms(2))
  have "svc_owner (control_stop s) = Waking" using assms(3) by (simp add: control_stop_def)
  from control_owner_wake [OF this, of connects] show ?thesis
    by (intro reached_thread [OF stop]) (simp add: control_threads_def)
qed

text \<open>
  A client that connects and sends nothing holds up the server and \<^verbatim>\<open>stop\<close>: a state can be reached in
  which \<^verbatim>\<open>stop\<close> waits for the worker and the worker for the client, whoever else connects.
\<close>

theorem silent_client_holds_server:
  fixes node :: "'e node"
  shows "\<exists>s. reached (control_threads pb lib proto) control_surroundings (new_service node) s \<and>
     svc_owner s = Joining \<and> svc_stopping s \<and>
     (\<forall>clients. \<nexists>s'. control_threads pb lib proto (fold control_connect clients s) s')"
proof -
  let ?s = "control_wake True (control_stop (server_with \<lparr>cl_sends = None, cl_takes = 0\<rparr> node))"
  have r: "reached (control_threads pb lib proto) control_surroundings (new_service node) ?s"
    by (rule stop_reached [OF server_reached(2)]) (simp_all add: server_with_def)
  have s: "svc_owner ?s = Joining" "svc_stopping ?s" "client_holds ?s"
    by (simp_all add: control_wake_def control_stop_def control_connect_def server_with_def wait_defs)
  show ?thesis
    using r s joined_worker_waits [of "fold control_connect _ ?s" pb lib proto] connecting_keeps [of _ ?s]
    by (intro exI [of _ ?s] conjI allI) (auto simp: wait_defs)
qed

text \<open>
  So does a client that sends a complete request and does not read the reply, once the connection
  takes no more of it; the request has had its effect on the node by then.
\<close>

theorem unread_reply_holds_server:
  fixes node :: "'e node"
  assumes "serve_session pb lib now proto conn node = (Some reply, node')" and "reply \<noteq> []"
  shows "\<exists>s. reached (control_threads pb lib proto) control_surroundings (new_service node) s \<and>
     svc_owner s = Joining \<and> svc_stopping s \<and> svc_shared s = node' \<and>
     (\<forall>clients. \<nexists>s'. control_threads pb lib proto (fold control_connect clients s) s')"
proof -
  let ?c = "\<lparr>cl_sends = Some conn, cl_takes = 0\<rparr>"
  let ?w = "(server_with ?c node)\<lparr>svc_worker := Some (Ctl_writing reply 0), svc_shared := node'\<rparr>"
  let ?s = "control_wake True (control_stop ?w)"
  have "control_worker pb lib proto (server_with ?c node) ?w"
    using control_handled [of "server_with ?c node" ?c conn pb lib now proto "Some reply" node'] assms(1)
    by (simp add: server_with_def)
  then have "reached (control_threads pb lib proto) control_surroundings (new_service node) ?w"
    by (intro reached_thread [OF server_reached(2) [where c = ?c]]) (simp add: control_threads_def)
  then have r: "reached (control_threads pb lib proto) control_surroundings (new_service node) ?s"
    by (rule stop_reached) (simp_all add: server_with_def)
  have s: "svc_owner ?s = Joining" "svc_stopping ?s" "client_holds ?s" "svc_shared ?s = node'"
    using assms(2) by (simp_all add: control_wake_def control_stop_def control_connect_def server_with_def wait_defs)
  show ?thesis
    using r s joined_worker_waits [of "fold control_connect _ ?s" pb lib proto] connecting_keeps [of _ ?s]
    by (intro exI [of _ ?s] conjI allI) (auto simp: wait_defs)
qed

text \<open>
  A wake-up connection that fails is not noticed.  A state can be reached in which \<^verbatim>\<open>stop\<close> waits for the
  worker and the worker for a connection; it lasts until some client connects.
\<close>

theorem failed_wake_up_holds_stop:
  fixes node :: "'e node"
  shows "\<exists>s. reached (control_threads pb lib proto) control_surroundings (new_service node) s \<and>
     svc_owner s = Joining \<and> svc_stopping s \<and> (\<nexists>s'. control_threads pb lib proto s s')"
proof -
  let ?s = "control_wake False (control_stop (server_in_accept node))"
  have "reached (control_threads pb lib proto) control_surroundings (new_service node) ?s"
    by (rule stop_reached [OF server_reached(1)]) (simp_all add: server_in_accept_def)
  moreover have "svc_owner ?s = Joining" "svc_stopping ?s" "nobody_connects ?s"
    by (simp_all add: control_wake_def control_stop_def server_in_accept_def wait_defs)
  ultimately show ?thesis using joined_worker_waits by blast
qed

text \<open>
  Stopping the gossip service always ends as well: at the latest when the armed timer
  fires or the round under way is over.
\<close>

theorem gossip_stop_returns:
  assumes "gossip_ok (fst shared) (fst (snd shared))" and "\<sigma> 0 = new_service shared"
    and "run_of (gossip_threads lib net udp) gossip_call \<sigma>" and "fair_run (gossip_threads lib net udp) \<sigma>"
    and "stop_requested (\<sigma> k)"
  shows "\<exists>i\<ge>k. stop_returned (\<sigma> i)"
proof -
  have "gossip_thread_ok s" if "reached (gossip_threads lib net udp) gossip_call (new_service shared) s" for s
    using that
  proof induction
    case reached_start
    show ?case using assms(1) by (simp add: gossip_thread_ok_def new_service_def)
  qed (use gossip_thread_ok_step in blast)+
  then have "gossip_thread_ok (\<sigma> k)" using run_reached [OF assms(3), of k] assms(2) by metis
  with assms(5) show ?thesis using gsp.stop_completes [OF assms(3,4), of k] by blast
qed

section \<open>Destruction\<close>

text \<open>
  The destructors call \<^verbatim>\<open>stop\<close>.  \<^verbatim>\<open>main\<close> constructs the control server, the responder and the gossip service
  in this order, so they are destroyed in the opposite order.
\<close>

definition control_destroy :: "'e control_service \<Rightarrow> 'e control_service" where
  "control_destroy s = control_stop s"

definition udp_destroy :: "udp_service \<Rightarrow> udp_service" where
  "udp_destroy s = udp_stop s"

definition gossip_destroy :: "('e, 'w) gossip_service \<Rightarrow> ('e, 'w) gossip_service" where
  "gossip_destroy s = gossip_stop s"

text \<open>After \<^verbatim>\<open>--once\<close>, when no service was started, none of the destructors waits.\<close>

lemma destroy_unstarted:
  "stop_returned (gossip_destroy (new_service g))" "stop_returned (udp_destroy (new_service u))"
  "stop_returned (control_destroy (new_service c))"
  by (simp_all add: stop_returned_def gossip_destroy_def udp_destroy_def control_destroy_def
      gossip_stop_def udp_stop_def control_stop_def new_service_def)

text \<open>
  A worker that has ended by an error leaves \<^verbatim>\<open>worker_\<close> joinable, so that \<^verbatim>\<open>start\<close> does nothing until \<^verbatim>\<open>stop\<close>
  has been called.
\<close>

lemma start_after_error:
  "control_start (finish Ctl_finished s) = finish Ctl_finished s"
  "udp_start (finish Udp_finished t) = finish Udp_finished t"
  "gossip_start (finish Gossip_finished g) = finish Gossip_finished g"
  by (simp_all add: control_start_def udp_start_def gossip_start_def finish_def)

section \<open>Heartbeat datagrams\<close>

text \<open>
  The datagrams that the gossip service sends to the listen port of its peers are not
  understood there: the responder ignores each of them.
\<close>

theorem heartbeat_datagram_ignored: "answer_datagram config reg (heartbeat_text sender) = None"
proof -
  let ?rest = "''node_id='' @ cfg_node_id sender @ '' listen_port='' @ to_string (unat (cfg_listen_port sender)) @
     '' control_port='' @ to_string (unat (control_port sender))"
  have "take receive_buffer_size (heartbeat_text sender) = ''GOSSIP_HEARTBEAT'' @ CHR '' '' # take 1007 ?rest"
    by (simp add: heartbeat_text_def receive_buffer_size_def)
  moreover have "stream_tokens (''GOSSIP_HEARTBEAT'' @ CHR '' '' # take 1007 ?rest)
      = ''GOSSIP_HEARTBEAT'' # stream_tokens (take 1007 ?rest)"
    by (rule stream_tokens_Cons) (simp_all add: is_token_def is_space_def)
  ultimately show ?thesis
    by (simp add: answer_datagram_def decode_peer_hello_def handshake_split_tokens_def)
qed

end
