(* ===== verification/Node_Sync.thy ===== *)
theory Node_Sync
  imports Control_Server Gossip_Service
begin

text \<open>
  Two nodes together: the sync client of one (\<^verbatim>\<open>src/src/beacon_net/sync_client.cpp\<close>) talks to the control
  server of the other (\<^verbatim>\<open>src/src/beacon_net/control_server.cpp\<close>).  The transport is here no longer an
  arbitrary function: each command is a connection whose octets all arrive, served by
  \<^const>\<open>serve_session\<close> on the other node's state, and the reply is read to its end.
\<close>

section \<open>A peer on the other end\<close>

definition peer_transport ::
  "protobuf option \<Rightarrow> sodium option \<Rightarrow> time_point \<Rightarrow> ControlProtocol \<Rightarrow> 'e node transport" where
  "peer_transport pb lib now proto peer command node =
     (let bs = bytes_of_string command;
          (reply, node') = serve_session pb lib now proto \<lparr>peeked = take 9 bs, incoming = bs\<rparr> node
      in (Exchange (case reply of None \<Rightarrow> [] | Some out \<Rightarrow> string_of_bytes out) Read_eof, node'))"

lemma connection_wf_whole: "connection_wf \<lparr>peeked = take 9 bs, incoming = bs\<rparr>"
  by (simp add: connection_wf_def min_def)

lemma peer_line:
  assumes "newline \<notin> set line" and "line = x # y # s" and "x \<noteq> CHR ''B'' \<or> y \<noteq> CHR ''N''"
  shows "send_command (peer_transport pb lib now proto) peer line (identity, reg, env) =
     (case handle_line lib now proto line identity reg env of (response, node') \<Rightarrow> (Inr response, node'))"
proof -
  obtain response node' where "handle_line lib now proto line identity reg env = (response, node')"
    by (cases "handle_line lib now proto line identity reg env")
  with serve_session_line [OF connection_wf_whole _ assms, of "bytes_of_string (line @ nl)" pb lib now proto identity reg env]
  show ?thesis by (simp add: send_command_def peer_transport_def Let_def)
qed

lemma peer_stats:
  "send_command (peer_transport pb lib now proto) peer ''STATS'' (identity, reg, env) =
     (Inr (''OK active_agents='' @ to_string (active_agents (stats reg)) @
        '' highest_revision='' @ to_string (unat (highest_revision (stats reg))) @ nl), identity, reg, env)"
  by (subst peer_line [of _ "CHR ''S''" "CHR ''T''" "''ATS''"])
    (simp_all add: newline_def handle_line_def parse_stats new_ControlCommand_def Let_def)

lemma no_newline_to_string [simp]: "newline \<notin> set (to_string n)"
  using to_string_digits [of newline n] by (auto simp: is_digit_def newline_def)

lemma peer_pull:
  "send_command (peer_transport pb lib now proto) peer (encode_sync_pull_command n k) (identity, reg, env) =
     (Inr (''OK message=sync_pull'' @ nl @ encode_agent_lines (entries_after_revision n k reg) @ ''END'' @ nl),
      identity, reg, env)"
proof -
  have line: "encode_sync_pull_command n k = CHR ''S'' # CHR ''Y'' # drop 2 (encode_sync_pull_command n k)"
    by (simp add: encode_sync_pull_command_def)
  have "newline \<notin> set (encode_sync_pull_command n k)"
    by (simp add: encode_sync_pull_command_def) (simp add: newline_def)
  then show ?thesis
    by (subst peer_line [OF _ line])
      (simp_all add: handle_line_def parse_encode_sync_pull new_ControlCommand_def Let_def)
qed

lemma peer_merge:
  assumes "line_safe r" and "node_id r \<noteq> []" and "endpoint r \<noteq> []"
  shows "send_command (peer_transport pb lib now proto) peer (encode_merge_command r) (identity, reg, env) =
     (case handle_registration lib proto ''merged''
        (r\<lparr>expires_at := now + milliseconds (heartbeat_ttl (proto_lifecycle proto))\<rparr>) identity reg env of
        (response, node') \<Rightarrow> (Inr response, node'))"
proof -
  let ?line = "''MERGE'' @ blank_prefixed (record_tokens r)"
  have "newline \<notin> set ?line"
    using agent_line_no_newline [OF assms(1)] by (auto simp: newline_def)
  moreover have "?line = CHR ''M'' # CHR ''E'' # ''RGE'' @ blank_prefixed (record_tokens r)" by simp
  ultimately have "send_command (peer_transport pb lib now proto) peer ?line (identity, reg, env) =
      (case handle_line lib now proto ?line identity reg env of (response, node') \<Rightarrow> (Inr response, node'))"
    by (rule peer_line) simp
  then show ?thesis
    unfolding encode_merge_command_alt handle_merge_line [OF assms] .
qed

lemma remote_revision_read:
  "parse_highest_revision (''OK active_agents='' @ to_string a @ '' highest_revision='' @ to_string (unat n) @ nl) = n"
proof -
  let ?a = "''active_agents='' @ to_string a" and ?h = "''highest_revision='' @ to_string (unat n)"
  have tok: "is_token ''OK''" "is_token ?a" "is_token ?h"
    by (simp_all add: is_token_iff token_simps is_space_def)
  have "stream_tokens (''OK'' @ CHR '' '' # ?a @ CHR '' '' # ?h @ newline # []) = [''OK'', ?a, ?h]"
    by (simp only: stream_tokens_Cons [OF tok(1)] stream_tokens_Cons [OF tok(2)] stream_tokens_Cons [OF tok(3)]
        is_space_blank is_space_newline stream_tokens_Nil)
  moreover have "rfind_at_0 ?h ''highest_revision=''" "\<not> rfind_at_0 ?a ''highest_revision=''"
    by (simp_all add: rfind_at_0_def)
  moreover have "snd (sync_parse_revision (field_value ?h) 0) = n"
    using get_value_append [of "''highest_revision''" "to_string (unat n)"]
    by (simp add: get_value_def field_value_def sync_parse_revision_def from_chars_to_string)
  ultimately show ?thesis
    by (simp add: parse_highest_revision_def nl_def rfind_at_0_def)
qed

section \<open>A round between two nodes\<close>

text \<open>The records that the client makes of the entries it is sent: a lease of a minute each.\<close>

definition leased :: "(nat \<Rightarrow> time_point) \<Rightarrow> AgentRecord list \<Rightarrow> AgentRecord list" where
  "leased clock rs = map (\<lambda>(i, r). r\<lparr>expires_at := clock i + minutes 1\<rparr>) (enumerate 0 rs)"

text \<open>What the pushed entries do to the peer, and how many it takes.\<close>

fun accept_pushed ::
  "sodium option \<Rightarrow> time_point \<Rightarrow> ControlProtocol \<Rightarrow> AgentRecord list \<Rightarrow> 'e node \<Rightarrow> nat \<times> 'e node" where
  "accept_pushed lib now proto [] node = (0, node)"
| "accept_pushed lib now proto (r # rs) (identity, reg, env) =
     (let (reply, node1) = handle_registration lib proto ''merged''
            (r\<lparr>expires_at := now + milliseconds (heartbeat_ttl (proto_lifecycle proto))\<rparr>) identity reg env;
          (n, node2) = accept_pushed lib now proto rs node1
      in ((if rfind_at_0 reply ''OK'' then 1 else 0) + n, node2))"

text \<open>Records whose lines can be sent and are understood.\<close>

definition sendable :: "AgentRecord \<Rightarrow> bool" where
  "sendable r \<longleftrightarrow> line_safe r \<and> node_id r \<noteq> [] \<and> endpoint r \<noteq> []"

lemma sendable_lease [simp]: "sendable (r\<lparr>expires_at := t\<rparr>) = sendable r"
  by (simp add: sendable_def line_safe_def)

lemma push_loop_peer:
  "list_all sendable rs \<Longrightarrow>
   push_loop (peer_transport pb lib now proto) peer rs n (identity, reg, env) =
     (case accept_pushed lib now proto rs (identity, reg, env) of (m, node') \<Rightarrow> (Inr (n + m), node'))"
proof (induction rs arbitrary: n identity reg env)
  case (Cons r rs)
  then have r: "line_safe r" "node_id r \<noteq> []" "endpoint r \<noteq> []" by (simp_all add: sendable_def)
  obtain reply i1 r1 e1 where h: "handle_registration lib proto ''merged''
      (r\<lparr>expires_at := now + milliseconds (heartbeat_ttl (proto_lifecycle proto))\<rparr>) identity reg env
      = (reply, i1, r1, e1)"
    by (metis prod_cases4)
  show ?case
    using Cons.IH [of _ i1 r1 e1] Cons.prems
    by (auto simp: peer_merge [OF r] h Let_def split: prod.split)
qed simp

lemma sendable_entries:
  "list_all sendable (records reg) \<Longrightarrow> list_all sendable (entries_after_revision n k reg)"
  by (auto simp: entries_after_revision_def list_all_iff Let_def std.srt_set dest: in_set_takeD)

lemma sendable_put_all:
  assumes "list_all sendable base" and "list_all sendable rs"
  shows "list_all sendable (rr.put_all rs base)"
  using assms
proof (induction rs arbitrary: base)
  case (Cons r rs)
  have "list_all sendable (snd (upsert_records r base))"
    using Cons.prems by (auto simp: upsert_records_def list_all_iff Let_def dest!: subsetD [OF set_update_subset_insert] split: option.splits)
  with Cons show ?case by simp
qed simp

lemma sendable_leased: "list_all sendable rs \<Longrightarrow> list_all sendable (leased clock rs)"
  by (auto simp: leased_def list_all_iff in_set_enumerate_eq)

text \<open>The whole round, as its effect on the two nodes.\<close>

lemma sync_round:
  fixes regA :: "'e AgentRegistry" and regB :: "'f AgentRegistry"
  assumes "list_all sendable (records regA)" and "list_all sendable (records regB)"
  shows "sync_with_peer lib clock (peer_transport pb libB now proto) client peer identity regA env (idB, regB, envB) =
     (case merge lib (leased clock (entries_after_revision (highest_revision (stats regA)) (max_entries_per_round client) regB))
        identity regA env 0 of
        (n, identity', regA', env') \<Rightarrow>
          (case accept_pushed libB now proto
             (entries_after_revision (highest_revision (stats regB)) (max_entries_per_round client) regA')
             (idB, regB, envB) of
             (m, nodeB) \<Rightarrow> (Inr \<lparr>pulled = n, pushed = m\<rparr>, identity', regA', env', nodeB)))"
proof -
  let ?es = "entries_after_revision (highest_revision (stats regA)) (max_entries_per_round client) regB"
  let ?resp = "''OK message=sync_pull'' @ nl @ encode_agent_lines ?es @ ''END'' @ nl"
  have es: "list_all sendable ?es" by (rule sendable_entries [OF assms(2)])
  then have safe: "list_all line_safe ?es" by (auto simp: sendable_def list_all_iff)
  have "parse_agent_line t ''OK message=sync_pull'' = None" for t
    using stream_extract_line [of "''OK''" "[''message=sync_pull'']"]
    by (simp add: parse_agent_line_def is_token_def is_space_def)
  then have parsed: "parse_agent_lines clock ?resp = leased clock ?es"
    unfolding leased_def by (intro parse_agent_lines_response [OF safe]) (simp_all add: newline_def)
  obtain n identity' regA' env' where
    mg: "merge lib (leased clock ?es) identity regA env 0 = (n, identity', regA', env')"
    by (metis prod_cases4)
  then have A': "records regA' = rr.put_all (admitted lib (leased clock ?es) identity) (records regA)"
    by (auto simp: merge_alt)
  have "list_all sendable (admitted lib (leased clock ?es) identity)"
    using sendable_leased [OF es, of clock] set_admitted by (fastforce simp: list_all_iff)
  then have "list_all sendable (records regA')"
    unfolding A' by (rule sendable_put_all [OF assms(1)])
  note push = push_loop_peer [OF sendable_entries [OF this]]
  obtain m nodeB where "accept_pushed libB now proto
      (entries_after_revision (highest_revision (stats regB)) (max_entries_per_round client) regA') (idB, regB, envB)
      = (m, nodeB)"
    by (meson surj_pair)
  then show ?thesis
    by (simp add: sync_with_peer_def peer_stats remote_revision_read [simplified] peer_pull merge_response_def
        parsed [simplified] mg push plan_push_pull_def push_entries_to_def Let_def)
qed

section \<open>Round after round\<close>

text \<open>Rounds that one node makes with the same peer, each with its own clock readings.\<close>

fun sync_rounds ::
  "sodium option \<Rightarrow> (nat \<Rightarrow> nat \<Rightarrow> time_point) \<Rightarrow> 'w transport \<Rightarrow> SyncClient \<Rightarrow> SyncPeer \<Rightarrow> nat \<Rightarrow>
   IdentityService option \<times> 'e AgentRegistry \<times> 'e \<times> 'w \<Rightarrow> IdentityService option \<times> 'e AgentRegistry \<times> 'e \<times> 'w" where
  "sync_rounds lib clocks net client peer 0 state = state"
| "sync_rounds lib clocks net client peer (Suc n) (identity, reg, env, w) =
     sync_rounds lib clocks net client peer n (snd (sync_with_peer lib (clocks n) net client peer identity reg env w))"

lemma highest_revision_le:
  "highest_revision (stats reg) \<le> m \<longleftrightarrow> list_all (\<lambda>r. revision r \<le> m) (records reg)"
proof
  assume "highest_revision (stats reg) \<le> m"
  then show "list_all (\<lambda>r. revision r \<le> m) (records reg)"
    using highest_revision_ge [of _ reg] by (auto simp: list_all_iff intro: order_trans)
next
  assume "list_all (\<lambda>r. revision r \<le> m) (records reg)"
  then show "highest_revision (stats reg) \<le> m"
    using highest_revision_attained [of reg] by (force simp: list_all_iff)
qed

lemma nothing_newer:
  "highest_revision (stats reg) \<le> n \<Longrightarrow> entries_after_revision n k reg = []"
proof -
  assume "highest_revision (stats reg) \<le> n"
  then have "filter (\<lambda>r. revision r > n) (records reg) = []"
    by (auto simp: highest_revision_le list_all_iff filter_empty_conv not_less)
  moreover have "std_sort (\<lambda>left right. revision left < revision right) ([] :: AgentRecord list) = []"
    by (metis length_0_conv std.srt_length)
  ultimately show ?thesis by (simp add: entries_after_revision_def Let_def)
qed

text \<open>A property of records that all pushed and stored ones have is kept by the peer.\<close>

lemma accept_pushed_all:
  assumes "list_all P (records reg)" and "list_all P rs" and "\<And>r t. P (r\<lparr>expires_at := t\<rparr>) = P r"
  shows "list_all P (records (fst (snd (snd (accept_pushed lib now proto rs (identity, reg, env))))))"
  using assms(1,2)
proof (induction rs arbitrary: identity reg env)
  case (Cons r rs)
  let ?r = "r\<lparr>expires_at := now + milliseconds (heartbeat_ttl (proto_lifecycle proto))\<rparr>"
  obtain reply i1 r1 e1 where h: "handle_registration lib proto ''merged'' ?r identity reg env = (reply, i1, r1, e1)"
    by (metis prod_cases4)
  have "list_all P (snd (upsert_records ?r (records reg)))"
    using Cons.prems assms(3) by (auto simp: upsert_records_def list_all_iff Let_def
        dest!: subsetD [OF set_update_subset_insert] split: option.splits)
  then have "list_all P (records r1)"
    using h Cons.prems(1)
    by (auto simp: handle_registration_def upsert_def Let_def split: option.splits prod.splits if_splits)
  then show ?case
    using Cons.IH [of r1 i1 e1] Cons.prems(2) by (simp add: h case_prod_unfold Let_def)
qed simp

section \<open>Properties\<close>

text \<open>
  Property C20: a synchronisation with a peer that runs the same control server.  Whatever the two
  nodes hold (as long as their fields can be printed on a line), the round succeeds; the client
  merges exactly the peer's records above its own highest revision, lowest first up to the limit,
  each leased for a minute; and the peer is offered exactly the client's records above the
  revision it reported.
\<close>

theorem sync_with_honest_peer:
  fixes regA :: "'e AgentRegistry" and regB :: "'f AgentRegistry"
  assumes "list_all sendable (records regA)" and "list_all sendable (records regB)"
  shows "sync_with_peer lib clock (peer_transport pb libB now proto) client peer identity regA env (idB, regB, envB) =
     (case merge lib (leased clock (entries_after_revision (highest_revision (stats regA)) (max_entries_per_round client) regB))
        identity regA env 0 of
        (n, identity', regA', env') \<Rightarrow>
          (case accept_pushed libB now proto
             (entries_after_revision (highest_revision (stats regB)) (max_entries_per_round client) regA')
             (idB, regB, envB) of
             (m, nodeB) \<Rightarrow> (Inr \<lparr>pulled = n, pushed = m\<rparr>, identity', regA', env', nodeB)))"
  by (rule sync_round [OF assms])

text \<open>
  Property C35: what synchronisation leaves out.  A node whose highest revision is at least that of
  its peer learns nothing from it, however many rounds they make: agents that only the peer knows
  stay unknown.
\<close>

theorem older_records_never_pulled:
  fixes regA :: "'e AgentRegistry" and regB :: "'f AgentRegistry"
  assumes "list_all sendable (records regA)" and "list_all sendable (records regB)"
    and "highest_revision (stats regB) \<le> highest_revision (stats regA)"
  shows "\<exists>nodeB. sync_rounds lib clocks (peer_transport pb libB now proto) client peer n
     (identity, regA, env, idB, regB, envB) = (identity, regA, env, nodeB)"
  using assms(2,3)
proof (induction n arbitrary: idB regB envB)
  case (Suc n)
  let ?push = "entries_after_revision (highest_revision (stats regB)) (max_entries_per_round client) regA"
  obtain m i1 r1 e1 where acc: "accept_pushed libB now proto ?push (idB, regB, envB) = (m, i1, r1, e1)"
    by (metis prod_cases4)
  have all: "list_all P (records r1)"
    if "list_all P (records regB)" "list_all P ?push" "\<And>r t. P (r\<lparr>expires_at := t\<rparr>) = P r" for P
    using accept_pushed_all [of P regB ?push libB now proto idB envB, OF that] by (simp add: acc)
  have "list_all sendable (records r1)"
    by (rule all [OF Suc.prems(1) sendable_entries [OF assms(1)]]) simp
  moreover have "list_all (\<lambda>r. revision r \<le> highest_revision (stats regA)) (records r1)"
  proof (rule all)
    show "list_all (\<lambda>r. revision r \<le> highest_revision (stats regA)) (records regB)"
      using Suc.prems(2) by (simp add: highest_revision_le)
    have "set ?push \<subseteq> set (records regA)"
      by (auto simp: entries_after_revision_def Let_def std.srt_set dest: in_set_takeD)
    then show "list_all (\<lambda>r. revision r \<le> highest_revision (stats regA)) ?push"
      using highest_revision_ge [of _ regA] by (auto simp: list_all_iff)
  qed simp
  ultimately obtain nodeB where "sync_rounds lib clocks (peer_transport pb libB now proto) client peer n
      (identity, regA, env, i1, r1, e1) = (identity, regA, env, nodeB)"
    using Suc.IH [of r1 i1 e1] by (auto simp: highest_revision_le)
  then show ?case
    by (cases nodeB) (simp add: sync_round [OF assms(1) Suc.prems(1)] nothing_newer [OF Suc.prems(2)] leased_def acc)
qed simp

text \<open>
  Property C38: a heartbeat cuts a signed record off from synchronisation.  Take a stored record whose
  signature is valid, and a heartbeat that is accepted with another revision than the stored one.  The
  text that the signature covers contains the revision, so the new record has another signed text with
  the old signature.  Either this signature happens to be good for both texts under the same key, which
  a signature scheme is made to exclude, or the stored record is invalid from then on, and a node
  with an identity service refuses it whenever it is merged.
\<close>

theorem heartbeat_invalidates_signature:
  fixes reg :: "'e AgentRegistry" and other :: "'f AgentRegistry"
  assumes "verify_agent_signature (Some so) r = Valid"
    and "find_record aid reg = Some r" and "refresh_heartbeat aid t n reg = (True, reg')" and "n \<noteq> revision r"
  shows "\<exists>r'. find_record aid reg' = Some r' \<and>
     canonical_agent_payload r' \<noteq> canonical_agent_payload r \<and> signature_hex r' = signature_hex r \<and>
     (if crypto_sign_verify_detached so (decode_hex (signature_hex r)) (bytes_of_string (canonical_agent_payload r'))
           (decode_hex (public_key_hex r)) = 0
      then crypto_sign_verify_detached so (decode_hex (signature_hex r)) (bytes_of_string (canonical_agent_payload r))
             (decode_hex (public_key_hex r)) = 0
      else verify_agent_signature (Some so) r' = Invalid \<and>
           merge (Some so) [r'] (Some svc) other env 0 = (0, Some svc, other, env))"
proof -
  let ?r = "r\<lparr>expires_at := t, revision := n\<rparr>"
  have stored: "find_record aid reg' = Some ?r"
    using lookup_refresh_heartbeat [of aid t n reg aid] refresh_heartbeat_accepts [of aid t n reg] assms(2,3)
    by (simp add: find_record_lookup)
  have payload: "canonical_agent_payload ?r \<noteq> canonical_agent_payload r"
    using assms(4) by (auto simp: canonical_agent_payload_def)
  have good: "crypto_sign_verify_detached so (decode_hex (signature_hex r))
      (bytes_of_string (canonical_agent_payload r)) (decode_hex (public_key_hex r)) = 0"
    using assms(1) by (simp add: verify_agent_signature_Valid_iff)
  have bad: "verify_agent_signature (Some so) ?r = Invalid"
    if "crypto_sign_verify_detached so (decode_hex (signature_hex r)) (bytes_of_string (canonical_agent_payload ?r))
          (decode_hex (public_key_hex r)) \<noteq> 0"
    using assms(1) that by (auto simp: verify_agent_signature_def Let_def split: if_splits)
  then have "merge (Some so) [?r] (Some svc) other env 0 = (0, Some svc, other, env)"
    if "crypto_sign_verify_detached so (decode_hex (signature_hex r)) (bytes_of_string (canonical_agent_payload ?r))
          (decode_hex (public_key_hex r)) \<noteq> 0"
    using that by (simp add: verify_and_register_def)
  with stored payload good bad show ?thesis by (intro exI [of _ ?r]) simp
qed

lemma sendable_sample: "sendable (sample_record ''a'' n t)"
  by (simp add: sendable_def line_safe_def sample_record_def no_space_def is_space_def)

theorem sync_with_honest_peer_witness:
  "\<not> isl (fst (sync_with_peer None (\<lambda>_. 0)
     (peer_transport None None 0 \<lparr>proto_lifecycle = default_LifecycleConfig, proto_trust = default_TrustConfig\<rparr>)
     \<lparr>max_entries_per_round = 64\<rparr> \<lparr>peer_host = ''h'', peer_control_port = 1\<rparr> None
     (new_AgentRegistry :: unit AgentRegistry) ()
     (None, \<lparr>records = [sample_record ''a'' 3 0], on_upsert = None\<rparr> :: unit AgentRegistry, ())))"
proof -
  have "list_all sendable (records (new_AgentRegistry :: unit AgentRegistry))"
    "list_all sendable (records (\<lparr>records = [sample_record ''a'' 3 0], on_upsert = None\<rparr> :: unit AgentRegistry))"
    by (simp_all add: new_AgentRegistry_def sendable_sample)
  then show ?thesis
    by (subst sync_with_honest_peer) (simp_all add: case_prod_unfold)
qed

theorem older_records_never_pulled_witness:
  "\<exists>nodeB. sync_rounds None (\<lambda>_ _. 0)
     (peer_transport None None 0 \<lparr>proto_lifecycle = default_LifecycleConfig, proto_trust = default_TrustConfig\<rparr>)
     \<lparr>max_entries_per_round = 64\<rparr> \<lparr>peer_host = ''h'', peer_control_port = 1\<rparr> 7
     (None, \<lparr>records = [sample_record ''a'' 5 0], on_upsert = None\<rparr> :: unit AgentRegistry, (),
      None, \<lparr>records = [sample_record ''b'' 3 0], on_upsert = None\<rparr> :: unit AgentRegistry, ()) =
     (None, \<lparr>records = [sample_record ''a'' 5 0], on_upsert = None\<rparr>, (), nodeB)"
proof -
  have b: "sendable (sample_record ''b'' 3 0)"
    by (simp add: sendable_def line_safe_def sample_record_def no_space_def is_space_def)
  show ?thesis
    by (rule older_records_never_pulled)
      (simp_all add: sendable_sample b stats_def, simp add: sample_record_def)
qed

text \<open>A library that knows one message.\<close>

definition one_message_sodium :: "string \<Rightarrow> sodium" where
  "one_message_sodium m = sample_sodium
     \<lparr>crypto_sign_verify_detached := (\<lambda>sig msg pk. if msg = bytes_of_string m then 0 else -1)\<rparr>"

theorem heartbeat_invalidates_signature_witness:
  "let r = sample_sign 1 (sample_record ''a'' 1 0);
       so = one_message_sodium (canonical_agent_payload r);
       reg = \<lparr>records = [r], on_upsert = None\<rparr> :: unit AgentRegistry
   in \<exists>r'. find_record ''a'' (snd (refresh_heartbeat ''a'' 9 2 reg)) = Some r' \<and>
        verify_agent_signature (Some so) r' = Invalid"
proof -
  let ?r = "sample_sign 1 (sample_record ''a'' 1 0)"
  let ?so = "one_message_sodium (canonical_agent_payload ?r)"
  let ?reg = "\<lparr>records = [?r], on_upsert = None\<rparr> :: unit AgentRegistry"
  have "verify_agent_signature (Some ?so) ?r = Valid"
    using verify_sample_sign [of 1 "sample_record ''a'' 1 0"]
    by (auto simp: verify_agent_signature_Valid_iff one_message_sodium_def sample_sodium_def)
  moreover have f: "find_record ''a'' ?reg = Some ?r"
    by (simp add: find_record_lookup lookup_def sample_sign_def sample_record_def)
  moreover have "fst (refresh_heartbeat ''a'' 9 2 ?reg)"
    using f by (simp add: refresh_heartbeat_accepts find_record_lookup) (simp add: sample_sign_def sample_record_def)
  then have "refresh_heartbeat ''a'' 9 2 ?reg = (True, snd (refresh_heartbeat ''a'' 9 2 ?reg))"
    by (cases "refresh_heartbeat ''a'' 9 2 ?reg") simp
  moreover have "2 \<noteq> revision ?r" by (simp add: sample_sign_def sample_record_def)
  ultimately obtain r' where r': "find_record ''a'' (snd (refresh_heartbeat ''a'' 9 2 ?reg)) = Some r'"
    "canonical_agent_payload r' \<noteq> canonical_agent_payload ?r"
    "if crypto_sign_verify_detached ?so (decode_hex (signature_hex ?r)) (bytes_of_string (canonical_agent_payload r'))
         (decode_hex (public_key_hex ?r)) = 0
     then crypto_sign_verify_detached ?so (decode_hex (signature_hex ?r)) (bytes_of_string (canonical_agent_payload ?r))
         (decode_hex (public_key_hex ?r)) = 0
     else verify_agent_signature (Some ?so) r' = Invalid \<and>
       merge (Some ?so) [r'] (Some new_IdentityService) (new_AgentRegistry :: unit AgentRegistry) () 0 =
         (0, Some new_IdentityService, new_AgentRegistry, ())"
    using heartbeat_invalidates_signature [of ?so ?r "''a''" ?reg 9 2 _ new_IdentityService
        "new_AgentRegistry :: unit AgentRegistry" "()"]
    by blast
  have "bytes_of_string (canonical_agent_payload r') \<noteq> bytes_of_string (canonical_agent_payload ?r)"
    using r'(2) by (metis string_of_bytes_of_string)
  then have "crypto_sign_verify_detached ?so (decode_hex (signature_hex ?r)) (bytes_of_string (canonical_agent_payload r'))
      (decode_hex (public_key_hex ?r)) \<noteq> 0"
    by (simp add: one_message_sodium_def)
  with r' show ?thesis unfolding Let_def by (intro exI [of _ r']) simp
qed

end
