(* ===== verification/Persistence_Service.thy ===== *)
theory Persistence_Service
  imports Secure_Path Byte_Codec
begin

text \<open>
  \<^verbatim>\<open>src/src/beacon_net/persistence_service.cpp\<close>: the write-ahead log, the snapshot and recovery from
  both.  The message class \<^verbatim>\<open>RegistryEntry\<close> is that of \<^verbatim>\<open>src/proto/beaconnode/v1/gossip.proto\<close>; its
  generated codec is the record \<open>entry_codec\<close>.  Files are octet lists; an input stream is the list
  of octets that are still to be read.
\<close>

unbundle bit_operations_syntax

record RegistryEntry =
  re_agent_id :: string
  re_capability :: string
  re_endpoint :: string
  re_timestamp :: u64
  re_public_key :: bytes
  re_signature :: bytes

record entry_codec =
  entry_serialize :: "RegistryEntry \<Rightarrow> bytes option"
  entry_parse :: "bytes \<Rightarrow> RegistryEntry option"

record PersistenceConfig =
  base_dir :: string
  wal_path :: string
  snapshot_path :: string

definition default_PersistenceConfig :: PersistenceConfig where
  "default_PersistenceConfig =
     \<lparr>base_dir = ''.'', wal_path = ''registry.wal'', snapshot_path = ''registry.bin''\<rparr>"

text \<open>The service: its configuration and the path its append handle is open on, if any.\<close>

record PersistenceService =
  pconfig :: PersistenceConfig
  wal_file :: "string option"

section \<open>The checksum\<close>

definition crc_bit :: "u32 \<Rightarrow> u32" where
  "crc_bit crc = (if crc AND 1 \<noteq> 0 then drop_bit 1 crc XOR 0xEDB88320 else drop_bit 1 crc)"

definition crc_octet :: "u8 \<Rightarrow> u32 \<Rightarrow> u32" where
  "crc_octet c crc = (crc_bit ^^ 8) (crc XOR ucast c)"

definition compute_crc32 :: "bytes \<Rightarrow> u32" where
  "compute_crc32 data = NOT (fold crc_octet data 0xFFFFFFFF)"

section \<open>Writing\<close>

text \<open>
  Every operation answers the exception it ends with, if any, beside the state it leaves.
  \<^verbatim>\<open>fopen(path, "ab")\<close> creates the file when it is missing; a failed open leaves a null handle.
\<close>

definition open_wal ::
  "filesystem \<Rightarrow> PersistenceService \<Rightarrow> disk \<Rightarrow> string option \<times> PersistenceService \<times> disk" where
  "open_wal fs svc d =
     (case resolve_secure_path fs (base_dir (pconfig svc)) (wal_path (pconfig svc)) of
        Inl e \<Rightarrow> (Some e, svc, d)
      | Inr path \<Rightarrow>
          if can_open fs path then
            (None, svc\<lparr>wal_file := Some path\<rparr>, d(path \<mapsto> (case d path of None \<Rightarrow> [] | Some bs \<Rightarrow> bs)))
          else (None, svc\<lparr>wal_file := None\<rparr>, d))"

definition new_PersistenceService ::
  "filesystem \<Rightarrow> PersistenceConfig \<Rightarrow> disk \<Rightarrow> string option \<times> PersistenceService \<times> disk" where
  "new_PersistenceService fs config d = open_wal fs \<lparr>pconfig = config, wal_file = None\<rparr> d"

text \<open>The three \<^verbatim>\<open>fwrite\<close> calls; the size is cut to 32 bits before it is used.\<close>

definition frame_entry :: "bytes \<Rightarrow> bytes" where
  "frame_entry serialized =
     (let size = (word_of_nat (length serialized) :: u32)
      in u32_image size @ u32_image (compute_crc32 serialized) @ take (unat size) serialized)"

definition append_entry :: "entry_codec \<Rightarrow> RegistryEntry \<Rightarrow> PersistenceService \<Rightarrow> disk \<Rightarrow> disk" where
  "append_entry codec entry svc d =
     (case wal_file svc of
        None \<Rightarrow> d
      | Some path \<Rightarrow>
          (case entry_serialize codec entry of
             None \<Rightarrow> d
           | Some serialized \<Rightarrow>
               d(path \<mapsto> (case d path of None \<Rightarrow> [] | Some bs \<Rightarrow> bs) @ frame_entry serialized)))"

definition snapshot_image :: "entry_codec \<Rightarrow> RegistryEntry list \<Rightarrow> bytes" where
  "snapshot_image codec entries =
     u32_image (word_of_nat (length entries)) @
     concat (map (\<lambda>e. case entry_serialize codec e of None \<Rightarrow> [] | Some s \<Rightarrow> frame_entry s) entries)"

text \<open>
  \<^verbatim>\<open>create_snapshot\<close>: write the temporary file, rename it over the snapshot, then truncate the log
  and reopen it.  A rename that fails is reported, and the log is truncated all the same.
\<close>

definition create_snapshot ::
  "filesystem \<Rightarrow> entry_codec \<Rightarrow> RegistryEntry list \<Rightarrow> PersistenceService \<Rightarrow> disk
   \<Rightarrow> string option \<times> PersistenceService \<times> disk" where
  "create_snapshot fs codec entries svc d =
     (let svc = svc\<lparr>wal_file := None\<rparr>
      in case resolve_secure_path fs (base_dir (pconfig svc)) (snapshot_path (pconfig svc)) of
           Inl e \<Rightarrow> (Some e, svc, d)
         | Inr snap \<Rightarrow>
             (let tmp = snap @ ''.tmp''
              in if \<not> can_open fs tmp then open_wal fs svc d
                 else
                   (let d = d(tmp \<mapsto> snapshot_image codec entries);
                        d = (if rename_ok fs tmp snap then (d(snap := d tmp))(tmp := None) else d)
                    in case resolve_secure_path fs (base_dir (pconfig svc)) (wal_path (pconfig svc)) of
                         Inl e \<Rightarrow> (Some e, svc, d)
                       | Inr wal \<Rightarrow>
                           (let d = (if can_open fs wal then d(wal \<mapsto> []) else d)
                            in open_wal fs svc d))))"

section \<open>Recovery\<close>

definition MAX_ENTRY_SIZE :: nat where
  "MAX_ENTRY_SIZE = 10 * 1024 * 1024"

definition MAX_SNAPSHOT_RECORDS :: nat where
  "MAX_SNAPSHOT_RECORDS = 1000000"

text \<open>\<^verbatim>\<open>stream.read(p, n)\<close>: \<^const>\<open>None\<close> when fewer octets are left, and then none are left after it.\<close>

definition stream_read :: "nat \<Rightarrow> bytes \<Rightarrow> (bytes \<times> bytes) option" where
  "stream_read n bs = (if n \<le> length bs then Some (take n bs, drop n bs) else None)"

lemma stream_read_shorter: "stream_read n bs = Some (xs, rest) \<Longrightarrow> length bs = n + length rest"
  by (auto simp: stream_read_def split: if_splits)

datatype recover_error =
    Too_many_records u32
  | Entry_too_large u32
  | Trailing_bytes
  | Path_error string

text \<open>
  The loop over the records of the snapshot; the result is what was recovered, the highest
  timestamp, and what is left of the stream (nothing after a short read).
\<close>

primrec read_snapshot ::
  "entry_codec \<Rightarrow> nat \<Rightarrow> bytes \<Rightarrow> RegistryEntry list \<Rightarrow> u64
   \<Rightarrow> recover_error + RegistryEntry list \<times> u64 \<times> bytes" where
  "read_snapshot codec 0 bs acc max_ts = Inr (acc, max_ts, bs)"
| "read_snapshot codec (Suc n) bs acc max_ts =
     (case stream_read 4 bs of
        None \<Rightarrow> Inr (acc, max_ts, [])
      | Some (sz, bs1) \<Rightarrow>
          (let size = u32_of_image sz
           in if unat size > MAX_ENTRY_SIZE then Inl (Entry_too_large size)
              else (case stream_read 4 bs1 of
                      None \<Rightarrow> Inr (acc, max_ts, [])
                    | Some (crc, bs2) \<Rightarrow>
                        (case stream_read (unat size) bs2 of
                           None \<Rightarrow> Inr (acc, max_ts, [])
                         | Some (buffer, bs3) \<Rightarrow>
                             if compute_crc32 buffer \<noteq> u32_of_image crc then
                               read_snapshot codec n bs3 acc max_ts
                             else (case entry_parse codec buffer of
                                     None \<Rightarrow> read_snapshot codec n bs3 acc max_ts
                                   | Some entry \<Rightarrow>
                                       read_snapshot codec n bs3 (acc @ [entry])
                                         (if re_timestamp entry > max_ts then re_timestamp entry else max_ts))))))"

text \<open>The loop over the log, until a read comes up short.\<close>

function replay_wal :: "entry_codec \<Rightarrow> u64 \<Rightarrow> bytes \<Rightarrow> RegistryEntry list \<Rightarrow> RegistryEntry list" where
  "replay_wal codec max_ts bs acc =
     (case stream_read 4 bs of
        None \<Rightarrow> acc
      | Some (sz, bs1) \<Rightarrow>
          (case stream_read 4 bs1 of
             None \<Rightarrow> acc
           | Some (crc, bs2) \<Rightarrow>
               (let size = u32_of_image sz
                in if unat size > MAX_ENTRY_SIZE then replay_wal codec max_ts bs2 acc
                   else (case stream_read (unat size) bs2 of
                           None \<Rightarrow> acc
                         | Some (buffer, bs3) \<Rightarrow>
                             if compute_crc32 buffer \<noteq> u32_of_image crc then replay_wal codec max_ts bs3 acc
                             else (case entry_parse codec buffer of
                                     None \<Rightarrow> replay_wal codec max_ts bs3 acc
                                   | Some entry \<Rightarrow>
                                       if re_timestamp entry \<le> max_ts then replay_wal codec max_ts bs3 acc
                                       else replay_wal codec max_ts bs3 (acc @ [entry]))))))"
  by pat_completeness auto
termination
  by (relation "measure (\<lambda>(_, _, bs, _). length bs)") (auto dest!: stream_read_shorter)

declare replay_wal.simps [simp del]

definition recover_snapshot ::
  "entry_codec \<Rightarrow> bytes \<Rightarrow> recover_error + RegistryEntry list \<times> u64" where
  "recover_snapshot codec bs =
     (let total_records = u32_of_image (take 4 bs)
      in if unat total_records > MAX_SNAPSHOT_RECORDS then Inl (Too_many_records total_records)
         else (case read_snapshot codec (unat total_records) (drop 4 bs) [] 0 of
                 Inl e \<Rightarrow> Inl e
               | Inr (entries, max_ts, rest) \<Rightarrow>
                   if rest \<noteq> [] then Inl Trailing_bytes else Inr (entries, max_ts)))"

definition recover ::
  "filesystem \<Rightarrow> entry_codec \<Rightarrow> PersistenceService \<Rightarrow> disk \<Rightarrow> recover_error + RegistryEntry list" where
  "recover fs codec svc d =
     (case resolve_secure_path fs (base_dir (pconfig svc)) (snapshot_path (pconfig svc)) of
        Inl e \<Rightarrow> Inl (Path_error e)
      | Inr snap \<Rightarrow>
          (case (case d snap of None \<Rightarrow> Inr ([], 0) | Some bs \<Rightarrow> recover_snapshot codec bs) of
             Inl e \<Rightarrow> Inl e
           | Inr (entries, max_ts) \<Rightarrow>
               (case resolve_secure_path fs (base_dir (pconfig svc)) (wal_path (pconfig svc)) of
                  Inl e \<Rightarrow> Inl (Path_error e)
                | Inr wal \<Rightarrow>
                    (case d wal of
                       None \<Rightarrow> Inr entries
                     | Some bs \<Rightarrow> Inr (replay_wal codec max_ts bs entries)))))"

section \<open>The checksum is a bijection of its register\<close>

lemma drop_bit_1_nth: "bit (drop_bit 1 x) n \<longleftrightarrow> bit (x :: u32) (Suc n)"
  by (simp add: bit_drop_bit_eq)

lemma and_1_iff: "(x :: u32) AND 1 \<noteq> 0 \<longleftrightarrow> bit x 0"
  by (simp add: and_one_eq bit_0 odd_iff_mod_2_eq_one)

text \<open>The top bit of the polynomial is set, so the bit shifted out can be read off the result.\<close>

lemma crc_bit_top: "bit (crc_bit x) 31 \<longleftrightarrow> bit x 0"
proof -
  have "\<not> bit x 32" by (auto dest: bit_imp_le_length)
  moreover have "bit (0xEDB88320 :: u32) 31" by (simp add: bit_iff_odd)
  ultimately show ?thesis
    by (simp add: crc_bit_def and_1_iff bit_xor_iff bit_drop_bit_eq)
qed

lemma xor_right_cancel: "a XOR c = b XOR c \<longleftrightarrow> a = (b :: 'a::len word)"
  by (metis bit.xor_self xor.assoc xor.right_neutral)

lemma inj_crc_bit: "inj crc_bit"
proof (rule injI)
  fix x y :: u32
  assume eq: "crc_bit x = crc_bit y"
  then have b0: "bit x 0 = bit y 0" using crc_bit_top by metis
  then have "drop_bit 1 x = drop_bit 1 y"
    using eq by (auto simp: crc_bit_def and_1_iff xor_right_cancel split: if_splits)
  then have "bit x (Suc n) = bit y (Suc n)" for n by (metis drop_bit_1_nth)
  with b0 show "x = y" by (metis bit_eq_iff not0_implies_Suc)
qed

lemma inj_crc_bit_8: "inj (crc_bit ^^ 8)"
  by (rule inj_fn) (rule inj_crc_bit)

lemma inj_crc_octet: "inj (crc_octet c)"
proof (rule injI)
  fix x y
  assume "crc_octet c x = crc_octet c y"
  then have "x XOR ucast c = y XOR ucast c"
    unfolding crc_octet_def by (rule injD [OF inj_crc_bit_8])
  then show "x = y" by (simp only: xor_right_cancel)
qed

lemma ucast_u8_u32_inject: "(ucast (c :: u8) :: u32) = ucast c' \<Longrightarrow> c = c'"
proof (rule bit_word_eqI)
  fix n assume eq: "(ucast c :: u32) = ucast c'" and n: "n < LENGTH(8)"
  have "bit (ucast c :: u32) n = bit c n" "bit (ucast c' :: u32) n = bit c' n"
    using n by (simp_all add: bit_ucast_iff)
  with eq show "bit c n = bit c' n" by simp
qed

lemma crc_octet_octet: "crc_octet c r = crc_octet c' r \<longleftrightarrow> c = c'"
proof
  assume "crc_octet c r = crc_octet c' r"
  then have "r XOR ucast c = r XOR ucast c'"
    unfolding crc_octet_def by (rule injD [OF inj_crc_bit_8])
  then have "(ucast c :: u32) = ucast c'"
    using xor_right_cancel [of "ucast c" r "ucast c'"] by (simp add: xor.commute)
  then show "c = c'" by (rule ucast_u8_u32_inject)
qed simp

lemma inj_fold_crc: "fold crc_octet bs a = fold crc_octet bs b \<longleftrightarrow> a = b"
  by (induction bs arbitrary: a b) (auto dest: injD [OF inj_crc_octet])

lemma crc_one_octet: "compute_crc32 (pre @ c # post) = compute_crc32 (pre @ c' # post) \<longleftrightarrow> c = c'"
  by (simp add: compute_crc32_def inj_fold_crc crc_octet_octet)

section \<open>Entries on the stream\<close>

text \<open>
  What the code relies on of the generated codec, for one entry: it serialises, within the size
  limit, and what was serialised parses back to it.
\<close>

definition storable :: "entry_codec \<Rightarrow> RegistryEntry \<Rightarrow> bool" where
  "storable codec e \<longleftrightarrow>
     (case entry_serialize codec e of
        None \<Rightarrow> False
      | Some bs \<Rightarrow> length bs \<le> MAX_ENTRY_SIZE \<and> entry_parse codec bs = Some e)"

definition entry_frame :: "entry_codec \<Rightarrow> RegistryEntry \<Rightarrow> bytes" where
  "entry_frame codec e = (case entry_serialize codec e of None \<Rightarrow> [] | Some bs \<Rightarrow> frame_entry bs)"

definition log_of :: "entry_codec \<Rightarrow> RegistryEntry list \<Rightarrow> bytes" where
  "log_of codec es = concat (map (entry_frame codec) es)"

lemma log_of_simps [simp]:
  "log_of codec [] = []"
  "log_of codec (e # es) = entry_frame codec e @ log_of codec es"
  "log_of codec (es @ es') = log_of codec es @ log_of codec es'"
  by (simp_all add: log_of_def)

lemma frame_entry_small:
  assumes "length s \<le> MAX_ENTRY_SIZE"
  shows "frame_entry s = u32_image (word_of_nat (length s)) @ u32_image (compute_crc32 s) @ s"
    and "unat (word_of_nat (length s) :: u32) = length s"
proof -
  show "unat (word_of_nat (length s) :: u32) = length s"
    using assms by (simp add: unat_of_nat MAX_ENTRY_SIZE_def)
  then show "frame_entry s = u32_image (word_of_nat (length s)) @ u32_image (compute_crc32 s) @ s"
    by (simp add: frame_entry_def)
qed

lemma stream_read_append [simp]: "length xs = n \<Longrightarrow> stream_read n (xs @ rest) = Some (xs, rest)"
  by (simp add: stream_read_def)

lemma stream_read_4 [simp]: "stream_read 4 (u32_image w @ rest) = Some (u32_image w, rest)"
  by (simp add: le32.enc_length)

lemma storable_frame:
  assumes "storable codec e"
  obtains s where "entry_frame codec e = u32_image (word_of_nat (length s)) @ u32_image (compute_crc32 s) @ s"
    "length s \<le> MAX_ENTRY_SIZE" "entry_parse codec s = Some e"
    "unat (word_of_nat (length s) :: u32) = length s"
  using assms frame_entry_small
  by (auto simp: storable_def entry_frame_def split: option.splits)

text \<open>One complete entry at the front of the log, intact or not.\<close>

lemma replay_framed:
  assumes "length s \<le> MAX_ENTRY_SIZE"
  shows "replay_wal codec m (u32_image (word_of_nat (length s)) @ u32_image crc @ s @ rest) acc =
     (if compute_crc32 s \<noteq> crc then replay_wal codec m rest acc
      else case entry_parse codec s of
             None \<Rightarrow> replay_wal codec m rest acc
           | Some e \<Rightarrow> replay_wal codec m rest (if re_timestamp e \<le> m then acc else acc @ [e]))"
  using assms frame_entry_small(2) [OF assms]
  by (subst replay_wal.simps) (auto simp: le32.dec_enc Let_def split: option.split)

lemma replay_entry:
  "storable codec e \<Longrightarrow>
   replay_wal codec m (entry_frame codec e @ rest) acc =
     replay_wal codec m rest (if re_timestamp e \<le> m then acc else acc @ [e])"
  by (erule storable_frame) (simp add: replay_framed)

lemma replay_log:
  "list_all (storable codec) es \<Longrightarrow>
   replay_wal codec m (log_of codec es @ rest) acc =
     replay_wal codec m rest (acc @ filter (\<lambda>e. m < re_timestamp e) es)"
  by (induction es arbitrary: acc) (auto simp: replay_entry not_less not_le)

text \<open>A log that ends inside an entry: the reader stops there.\<close>

lemma torn_frame:
  assumes "storable codec e" and "k < length (entry_frame codec e)"
  obtains (no_size) "stream_read 4 (take k (entry_frame codec e)) = None"
  | (no_checksum) sz bs where "stream_read 4 (take k (entry_frame codec e)) = Some (sz, bs)" "stream_read 4 bs = None"
  | (no_payload) sz bs crc bs' where "stream_read 4 (take k (entry_frame codec e)) = Some (sz, bs)"
      "stream_read 4 bs = Some (crc, bs')" "unat (u32_of_image sz) \<le> MAX_ENTRY_SIZE"
      "stream_read (unat (u32_of_image sz)) bs' = None"
proof -
  obtain s where f: "entry_frame codec e = u32_image (word_of_nat (length s)) @ u32_image (compute_crc32 s) @ s"
    and s: "length s \<le> MAX_ENTRY_SIZE" "unat (word_of_nat (length s) :: u32) = length s"
    using assms(1) by (rule storable_frame)
  have k: "k < 8 + length s" using assms(2) by (simp add: f le32.enc_length)
  consider "k < 4" | "4 \<le> k \<and> k < 8" | "8 \<le> k" by linarith
  then show ?thesis
  proof cases
    case 1
    then show ?thesis by (intro no_size) (simp add: stream_read_def f le32.enc_length)
  next
    case 2
    then have "take k (entry_frame codec e)
        = u32_image (word_of_nat (length s)) @ take (k - 4) (u32_image (compute_crc32 s) @ s)"
      by (simp add: f le32.enc_length)
    moreover have "stream_read 4 (take (k - 4) (u32_image (compute_crc32 s) @ s)) = None"
      using 2 by (auto simp: stream_read_def le32.enc_length)
    ultimately show ?thesis by (intro no_checksum) simp_all
  next
    case 3
    then have "take k (entry_frame codec e)
        = u32_image (word_of_nat (length s)) @ u32_image (compute_crc32 s) @ take (k - 8) s"
      by (simp add: f le32.enc_length)
    moreover have "stream_read (length s) (take (k - 8) s) = None"
      using k 3 by (auto simp: stream_read_def)
    ultimately show ?thesis
      using s no_payload [of "u32_image (word_of_nat (length s))" "u32_image (compute_crc32 s) @ take (k - 8) s"
          "u32_image (compute_crc32 s)" "take (k - 8) s"]
      by (simp only: stream_read_4 le32.dec_enc)
  qed
qed

lemma replay_torn:
  assumes "storable codec e" and "k < length (entry_frame codec e)"
  shows "replay_wal codec m (take k (entry_frame codec e)) acc = acc"
  using assms by (cases rule: torn_frame) (subst replay_wal.simps, simp add: Let_def)+

text \<open>
  A log in which entries need not parse back: each entry that fits the size limit is passed over or
  recovered, one after the other.  \<^verbatim>\<open>append_entry\<close> does not enforce the limit.
\<close>

definition entry_fits :: "entry_codec \<Rightarrow> RegistryEntry \<Rightarrow> bool" where
  "entry_fits codec e = (case entry_serialize codec e of None \<Rightarrow> True | Some bs \<Rightarrow> length bs \<le> MAX_ENTRY_SIZE)"

definition reads_back :: "entry_codec \<Rightarrow> RegistryEntry \<Rightarrow> RegistryEntry option" where
  "reads_back codec e = Option.bind (entry_serialize codec e) (entry_parse codec)"

lemma reads_back_storable: "storable codec e \<Longrightarrow> reads_back codec e = Some e"
  by (auto simp: storable_def reads_back_def split: option.splits)

lemma replay_fitting:
  assumes "list_all (entry_fits codec) es"
  shows "replay_wal codec m (log_of codec es @ rest) acc =
     replay_wal codec m rest (acc @ filter (\<lambda>e. m < re_timestamp e) (List.map_filter (reads_back codec) es))"
  using assms
proof (induction es arbitrary: acc)
  case (Cons e es)
  show ?case
  proof (cases "entry_serialize codec e")
    case None
    then show ?thesis using Cons by (simp add: entry_frame_def reads_back_def map_filter_simps)
  next
    case (Some s)
    then have s: "length s \<le> MAX_ENTRY_SIZE" using Cons.prems by (simp add: entry_fits_def)
    have "log_of codec (e # es) @ rest =
        u32_image (word_of_nat (length s)) @ u32_image (compute_crc32 s) @ s @ log_of codec es @ rest"
      using frame_entry_small [OF s] by (simp add: entry_frame_def Some)
    then show ?thesis
      using Cons replay_framed [OF s] by (auto simp: Some reads_back_def map_filter_simps not_le split: option.split)
  qed
qed (simp add: map_filter_simps)

text \<open>Whatever follows, what was recovered stays.\<close>

lemma replay_extends: "\<exists>ys. replay_wal codec m bs acc = acc @ ys"
proof (induction codec m bs acc rule: replay_wal.induct)
  case (1 codec m bs acc)
  then show ?case
    by (subst replay_wal.simps) (fastforce simp: Let_def split: option.split prod.split)
qed

lemma replay_keeps: "set acc \<subseteq> set (replay_wal codec m bs acc)"
  using replay_extends [of codec m bs acc] by auto

lemma read_snapshot_log:
  "list_all (storable codec) es \<Longrightarrow>
   read_snapshot codec (length es) (log_of codec es @ rest) acc m =
     Inr (acc @ es, fold (\<lambda>e t. max t (re_timestamp e)) es m, rest)"
proof (induction es arbitrary: acc m)
  case (Cons e es)
  obtain s where f: "entry_frame codec e = u32_image (word_of_nat (length s)) @ u32_image (compute_crc32 s) @ s"
    and s: "length s \<le> MAX_ENTRY_SIZE" "entry_parse codec s = Some e"
      "unat (word_of_nat (length s) :: u32) = length s"
    using Cons.prems storable_frame [of codec e] by auto
  have "max m (re_timestamp e) = (if m < re_timestamp e then re_timestamp e else m)"
    by (auto simp: max_def dest: less_imp_le intro: antisym)
  with Cons f s show ?case by (simp add: le32.dec_enc Let_def)
qed simp

lemma log_of_frames: "(case entry_serialize codec e of None \<Rightarrow> [] | Some s \<Rightarrow> frame_entry s) = entry_frame codec e"
  by (simp add: entry_frame_def)

lemma recover_snapshot_image:
  assumes "list_all (storable codec) es" and "length es \<le> MAX_SNAPSHOT_RECORDS"
  shows "recover_snapshot codec (snapshot_image codec es) =
     Inr (es, fold (\<lambda>e t. max t (re_timestamp e)) es 0)"
proof -
  have "unat (word_of_nat (length es) :: u32) = length es"
    using assms(2) by (simp add: unat_of_nat MAX_SNAPSHOT_RECORDS_def)
  moreover have "snapshot_image codec es = u32_image (word_of_nat (length es)) @ log_of codec es"
    by (simp add: snapshot_image_def log_of_def log_of_frames)
  ultimately show ?thesis
    using read_snapshot_log [OF assms(1), of "[]" "[]" 0] assms(2)
    by (simp add: recover_snapshot_def le32.enc_length le32.dec_enc Let_def)
qed

section \<open>Histories of the log\<close>

lemma replay_prefix:
  "list_all (storable codec) es \<Longrightarrow>
   \<exists>n\<le>length es. replay_wal codec m (take k (log_of codec es)) acc = acc @ filter (\<lambda>e. m < re_timestamp e) (take n es) \<and>
     length (log_of codec (take n es)) \<le> k \<and>
     (n = length es \<or> k < length (log_of codec (take (Suc n) es)))"
proof (induction es arbitrary: k acc)
  case Nil
  show ?case by (subst replay_wal.simps) (simp add: stream_read_def)
next
  case (Cons e es)
  let ?f = "entry_frame codec e" and ?acc = "if re_timestamp e \<le> m then acc else acc @ [e]"
  show ?case
  proof (cases "k < length ?f")
    case True
    with Cons.prems show ?thesis by (intro exI [of _ 0]) (simp add: replay_torn)
  next
    case False
    obtain n where n: "n \<le> length es"
      "replay_wal codec m (take (k - length ?f) (log_of codec es)) ?acc
         = ?acc @ filter (\<lambda>e. m < re_timestamp e) (take n es)"
      "length (log_of codec (take n es)) \<le> k - length ?f"
      "n = length es \<or> k - length ?f < length (log_of codec (take (Suc n) es))"
      using Cons.IH [of "k - length ?f" ?acc] Cons.prems by auto
    have "replay_wal codec m (take k (log_of codec (e # es))) acc
        = acc @ filter (\<lambda>e. m < re_timestamp e) (take (Suc n) (e # es))"
      using False Cons.prems n(2) by (auto simp: replay_entry not_le not_less)
    with False n show ?thesis by (intro exI [of _ "Suc n"]) auto
  qed
qed

text \<open>A service whose two paths resolve to different files and whose log is open.\<close>

definition ready :: "filesystem \<Rightarrow> PersistenceService \<Rightarrow> string \<Rightarrow> string \<Rightarrow> bool" where
  "ready fs svc snap wal \<longleftrightarrow>
     resolve_secure_path fs (base_dir (pconfig svc)) (snapshot_path (pconfig svc)) = Inr snap \<and>
     resolve_secure_path fs (base_dir (pconfig svc)) (wal_path (pconfig svc)) = Inr wal \<and>
     snap \<noteq> wal \<and> snap @ ''.tmp'' \<noteq> wal \<and> wal_file svc = Some wal"

definition append_entries ::
  "entry_codec \<Rightarrow> RegistryEntry list \<Rightarrow> PersistenceService \<Rightarrow> disk \<Rightarrow> disk" where
  "append_entries codec es svc d = fold (\<lambda>e. append_entry codec e svc) es d"

lemma append_entries_disk:
  "\<lbrakk>wal_file svc = Some wal; d wal = Some bs; list_all (storable codec) es\<rbrakk> \<Longrightarrow>
   append_entries codec es svc d = d(wal \<mapsto> bs @ log_of codec es)"
proof (induction es arbitrary: d bs)
  case Nil
  then show ?case by (auto simp: append_entries_def)
next
  case (Cons e es)
  have "append_entry codec e svc d = d(wal \<mapsto> bs @ entry_frame codec e)"
    using Cons.prems by (auto simp: append_entry_def storable_def entry_frame_def split: option.splits)
  then have "append_entries codec (e # es) svc d = append_entries codec es svc (d(wal \<mapsto> bs @ entry_frame codec e))"
    by (simp add: append_entries_def)
  also have "\<dots> = d(wal \<mapsto> bs @ log_of codec (e # es))"
    by (subst Cons.IH [of _ "bs @ entry_frame codec e"]) (use Cons.prems in simp_all)
  finally show ?case .
qed

lemma recover_ready:
  "ready fs svc snap wal \<Longrightarrow> d wal = Some bs \<Longrightarrow>
   recover fs codec svc d =
     (case (case d snap of None \<Rightarrow> Inr ([], 0) | Some b \<Rightarrow> recover_snapshot codec b) of
        Inl e \<Rightarrow> Inl e
      | Inr (entries, max_ts) \<Rightarrow> Inr (replay_wal codec max_ts bs entries))"
  by (auto simp: recover_def ready_def split: sum.split prod.split)

lemma replay_all:
  "list_all (storable codec) es \<Longrightarrow>
   replay_wal codec m (log_of codec es) acc = acc @ filter (\<lambda>e. m < re_timestamp e) es"
  using replay_log [of codec es m "[]" acc]
  by (simp add: replay_wal.simps [of codec m "[]"] stream_read_def)

text \<open>Taking a snapshot when everything succeeds.\<close>

lemma create_snapshot_ready:
  assumes "ready fs svc snap wal" and "can_open fs (snap @ ''.tmp'')" and "can_open fs wal"
    and "rename_ok fs (snap @ ''.tmp'') snap"
  shows "create_snapshot fs codec es svc d =
     (None, svc, d(snap \<mapsto> snapshot_image codec es, snap @ ''.tmp'' := None, wal \<mapsto> []))"
  using assms
  by (auto simp: create_snapshot_def open_wal_def ready_def Let_def fun_eq_iff)

section \<open>Concrete instances\<close>

text \<open>A codec for entries that consist of their timestamp: eight octets, and what is left is the id.\<close>

definition sample_codec :: entry_codec where
  "sample_codec =
     \<lparr>entry_serialize = (\<lambda>e. Some (ucast (re_timestamp e) # bytes_of_string (re_agent_id e))),
      entry_parse = (\<lambda>bs. case bs of
         [] \<Rightarrow> None
       | b # s \<Rightarrow> Some \<lparr>re_agent_id = string_of_bytes s, re_capability = [], re_endpoint = [],
                       re_timestamp = ucast b, re_public_key = [], re_signature = []\<rparr>)\<rparr>"

definition sample_entry :: "string \<Rightarrow> u64 \<Rightarrow> RegistryEntry" where
  "sample_entry aid t =
     \<lparr>re_agent_id = aid, re_capability = [], re_endpoint = [], re_timestamp = t,
      re_public_key = [], re_signature = []\<rparr>"

definition sample_service :: PersistenceService where
  "sample_service = \<lparr>pconfig = default_PersistenceConfig, wal_file = Some ''./registry.wal''\<rparr>"

lemma ready_sample: "ready plain_fs sample_service ''./registry.bin'' ''./registry.wal''"
  by (simp add: ready_def sample_service_def default_PersistenceConfig_def resolve_secure_path_def
      plain_fs_def path_append_def path_escapes_def slash_def)

lemma storable_sample:
  "t \<in> {0, 1, 2, 3} \<Longrightarrow> length aid < 1000 \<Longrightarrow> storable sample_codec (sample_entry aid t)"
  by (auto simp: storable_def sample_codec_def sample_entry_def MAX_ENTRY_SIZE_def)

section \<open>Properties\<close>





text \<open>
  A snapshot whose rename fails loses the log.  The log is truncated although the new
  snapshot is not in place, so that with no earlier snapshot nothing at all is recovered.
\<close>

theorem failed_rename_loses_log:
  assumes "ready fs svc snap wal" and "can_open fs (snap @ ''.tmp'')" and "can_open fs wal"
    and "\<not> rename_ok fs (snap @ ''.tmp'') snap" and "d snap = None"
    and "create_snapshot fs codec es svc d = (err, svc', d')"
  shows "err = None \<and> recover fs codec svc' d' = Inr []"
proof -
  have "snap \<noteq> wal" "snap \<noteq> snap @ ''.tmp''" using assms(1) by (simp_all add: ready_def)
  moreover have cs: "err = None" "svc' = svc"
    and d': "d' = (d(snap @ ''.tmp'' \<mapsto> snapshot_image codec es))(wal \<mapsto> [])"
    using assms(1-4,6)
    by (auto simp: create_snapshot_def open_wal_def ready_def Let_def)
  ultimately have "recover fs codec svc d' = Inr (replay_wal codec 0 [] [])"
    using recover_ready [OF assms(1), of d' "[]" codec] assms(5) by simp
  then show ?thesis by (simp add: cs replay_wal.simps [of codec 0 "[]"] stream_read_def)
qed

theorem failed_rename_loses_log_witness:
  "let fs = plain_fs\<lparr>rename_ok := (\<lambda>_ _. False)\<rparr>
   in case create_snapshot fs sample_codec [sample_entry ''a'' 1] sample_service
        [''./registry.wal'' \<mapsto> log_of sample_codec [sample_entry ''a'' 1]] of
        (err, svc', d') \<Rightarrow> recover fs sample_codec svc' d' = Inr []"
proof -
  let ?fs = "plain_fs\<lparr>rename_ok := (\<lambda>_ _. False)\<rparr>"
    and ?d = "[''./registry.wal'' \<mapsto> log_of sample_codec [sample_entry ''a'' 1]]"
  obtain err svc' d' where c: "create_snapshot ?fs sample_codec [sample_entry ''a'' 1] sample_service ?d = (err, svc', d')"
    by (cases "create_snapshot ?fs sample_codec [sample_entry ''a'' 1] sample_service ?d")
  have "ready ?fs sample_service ''./registry.bin'' ''./registry.wal''"
    by (simp add: ready_def sample_service_def default_PersistenceConfig_def resolve_secure_path_def
        plain_fs_def path_append_def path_escapes_def slash_def)
  from failed_rename_loses_log [OF this _ _ _ _ c] have "recover ?fs sample_codec svc' d' = Inr []"
    by (simp add: plain_fs_def)
  then show ?thesis unfolding Let_def c by simp
qed

text \<open>
  An append that follows a torn entry can be lost although it was written and flushed
  completely.  The reader takes the octets of the new entry for the missing part of the torn one;
  when they are too few, replay stops without recovering anything of either.
\<close>

theorem append_after_torn_tail_lost:
  assumes "storable codec e" and "storable codec e'"
    and "8 \<le> k" and "k + length (entry_frame codec e') < length (entry_frame codec e)"
  shows "replay_wal codec m (take k (entry_frame codec e) @ entry_frame codec e') acc = acc"
proof -
  obtain s where f: "entry_frame codec e = u32_image (word_of_nat (length s)) @ u32_image (compute_crc32 s) @ s"
    and s: "length s \<le> MAX_ENTRY_SIZE" "unat (word_of_nat (length s) :: u32) = length s"
    using assms(1) by (rule storable_frame)
  have "take k (entry_frame codec e) @ entry_frame codec e'
      = u32_image (word_of_nat (length s)) @ u32_image (compute_crc32 s) @ take (k - 8) s @ entry_frame codec e'"
    using assms(3) by (simp add: f le32.enc_length)
  moreover have "stream_read (length s) (take (k - 8) s @ entry_frame codec e') = None"
    using assms(3,4) by (auto simp: stream_read_def f le32.enc_length)
  ultimately show ?thesis
    using s by (subst replay_wal.simps) (simp add: le32.dec_enc Let_def)
qed

theorem append_after_torn_tail_lost_witness:
  "replay_wal sample_codec 0
     (take 8 (entry_frame sample_codec (sample_entry ''long-agent-name'' 1)) @
      entry_frame sample_codec (sample_entry ''b'' 2)) [] = []"
proof (rule append_after_torn_tail_lost)
  show "8 + length (entry_frame sample_codec (sample_entry ''b'' 2))
      < length (entry_frame sample_codec (sample_entry ''long-agent-name'' 1))"
    by (simp add: entry_frame_def sample_codec_def sample_entry_def frame_entry_def le32.enc_length
        bytes_of_string_def)
qed (simp_all add: storable_sample)

text \<open>
  Property C17: damage to one octet of an entry's payload is always noticed, and costs that entry
  only: replay skips it and recovers exactly the entries before and after it.
\<close>

theorem damaged_octet_isolated:
  assumes "list_all (storable codec) (es @ es')" and "length (pre @ c # post) \<le> MAX_ENTRY_SIZE" and "c \<noteq> c'"
  shows "replay_wal codec m
     (log_of codec es @
      (u32_image (word_of_nat (length (pre @ c # post))) @ u32_image (compute_crc32 (pre @ c # post)) @ pre @ c' # post) @
      log_of codec es') []
   = filter (\<lambda>e. m < re_timestamp e) (es @ es')"
proof -
  let ?bad = "pre @ c' # post"
  have len: "length (pre @ c # post) = length ?bad" by simp
  have crc: "compute_crc32 ?bad \<noteq> compute_crc32 (pre @ c # post)"
    using assms(3) crc_one_octet [of pre c' post c] by simp
  have "replay_wal codec m (u32_image (word_of_nat (length ?bad)) @ u32_image (compute_crc32 (pre @ c # post))
      @ ?bad @ log_of codec es') acc = replay_wal codec m (log_of codec es') acc" for acc
    using replay_framed [of ?bad codec m "compute_crc32 (pre @ c # post)" "log_of codec es'"] assms(2) crc len
    by simp
  then show ?thesis
    using assms(1) unfolding len by (simp add: replay_log replay_all)
qed

theorem damaged_octet_isolated_witness:
  "replay_wal sample_codec 0
     (log_of sample_codec [sample_entry ''a'' 1] @
      (u32_image (word_of_nat (length ([2 :: u8] @ 98 # []))) @ u32_image (compute_crc32 ([2] @ 98 # [])) @ [2] @ 99 # []) @
      log_of sample_codec [sample_entry ''c'' 3]) []
   = filter (\<lambda>e. 0 < re_timestamp e) ([sample_entry ''a'' 1] @ [sample_entry ''c'' 3])"
  by (rule damaged_octet_isolated) (simp_all add: storable_sample MAX_ENTRY_SIZE_def)

end
