(* ===== verification/Engine_Main.thy ===== *)
theory Engine_Main
  imports Control_Server Gossip_Service Gossip_Scheduler Reputation Persistence_Service Identity_Store
begin

text \<open>
  \<^verbatim>\<open>src/src/beacon_engine/main.cpp\<close>: the command line, the seed peers, recovery of the registry and the
  callback that logs it, and the maintenance tick.  The upsert callback of the engine's registry
  works on the disk, so the registry here is a \<open>disk AgentRegistry\<close>.
\<close>

section \<open>Command line\<close>

definition parse_port :: "string \<Rightarrow> u16 \<Rightarrow> bool \<times> u16" where
  "parse_port s port =
     (case stoi s of
        Inl _ \<Rightarrow> (False, port)
      | Inr parsed \<Rightarrow>
          if parsed \<le> 0 \<or> parsed > 65535 then (False, port) else (True, word_of_int parsed))"

record options =
  opt_config_path :: string
  opt_run_once :: bool
  opt_config :: BeaconConfig
  opt_seed_nodes :: "string list"

definition default_options :: options where
  "default_options =
     \<lparr>opt_config_path = ''config/beaconnode.example.toml'', opt_run_once = False,
      opt_config = default_config, opt_seed_nodes = []\<rparr>"

definition set_node :: "(NodeConfig \<Rightarrow> NodeConfig) \<Rightarrow> options \<Rightarrow> options" where
  "set_node f opts = opts\<lparr>opt_config := (opt_config opts)\<lparr>cfg_node := f (cfg_node (opt_config opts))\<rparr>\<rparr>"

definition print_usage :: string where
  "print_usage =
     ''beacon-engine [--config <path>] [--node-id <id>] [--listen-port <port>] '' @
     ''[--control-port <port>] [--seed-node <host:port>] [--require-signatures] [--once]'' @ nl"

text \<open>The loop over the arguments; \<^const>\<open>Inl\<close> is an early return with what was printed before it.\<close>

record early_exit =
  exit_status :: int
  exit_stdout :: string
  exit_stderr :: string

definition unknown_argument :: "string \<Rightarrow> early_exit" where
  "unknown_argument arg =
     \<lparr>exit_status = 2, exit_stdout = print_usage, exit_stderr = ''unknown argument: '' @ arg @ nl\<rparr>"

definition invalid_port :: "string \<Rightarrow> early_exit" where
  "invalid_port which = \<lparr>exit_status = 2, exit_stdout = [], exit_stderr = ''invalid '' @ which @ '' port'' @ nl\<rparr>"

fun parse_args :: "string list \<Rightarrow> options \<Rightarrow> early_exit + options" where
  "parse_args [] opts = Inr opts"
| "parse_args (arg # args) opts =
     (if arg = ''--help'' then Inl \<lparr>exit_status = 0, exit_stdout = print_usage, exit_stderr = []\<rparr>
      else if arg = ''--once'' then parse_args args (opts\<lparr>opt_run_once := True\<rparr>)
      else if arg = ''--require-signatures'' then
        parse_args args (opts\<lparr>opt_config := (opt_config opts)\<lparr>cfg_trust :=
          (cfg_trust (opt_config opts))\<lparr>require_signatures := True\<rparr>\<rparr>\<rparr>)
      else case args of
        [] \<Rightarrow> Inl (unknown_argument arg)
      | value # rest \<Rightarrow>
          if arg = ''--config'' then parse_args rest (opts\<lparr>opt_config_path := value\<rparr>)
          else if arg = ''--node-id'' then parse_args rest (set_node (\<lambda>n. n\<lparr>cfg_node_id := value\<rparr>) opts)
          else if arg = ''--listen-port'' then
            (let (ok, port) = parse_port value (cfg_listen_port (cfg_node (opt_config opts)))
             in if \<not> ok then Inl (invalid_port ''listen'') else parse_args rest (set_node (\<lambda>n. n\<lparr>cfg_listen_port := port\<rparr>) opts))
          else if arg = ''--control-port'' then
            (let (ok, port) = parse_port value (control_port (cfg_node (opt_config opts)))
             in if \<not> ok then Inl (invalid_port ''control'') else parse_args rest (set_node (\<lambda>n. n\<lparr>control_port := port\<rparr>) opts))
          else if arg = ''--seed-node'' then
            parse_args rest (opts\<lparr>opt_seed_nodes := opt_seed_nodes opts @ [value]\<rparr>)
          else Inl (unknown_argument arg))"

text \<open>A seed \<^verbatim>\<open>host:port\<close>; the port is cut to 16 bits, and text that is no number keeps the default.\<close>

definition seed_peer :: "NodeConfig \<Rightarrow> string \<Rightarrow> GossipPeer" where
  "seed_peer config seed =
     (case find_char (CHR '':'') seed of
        None \<Rightarrow>
          \<lparr>gp_node_id = [], gp_host = seed, gp_listen_port = cfg_listen_port config,
           gp_control_port = control_port config\<rparr>
      | Some colon \<Rightarrow>
          (let port = (case stoi (drop (colon + 1) seed) of
                         Inl _ \<Rightarrow> control_port config
                       | Inr n \<Rightarrow> word_of_int n)
           in \<lparr>gp_node_id = [], gp_host = substr 0 colon seed,
               gp_listen_port = (if port > 0 then port - 1 else 43170), gp_control_port = port\<rparr>))"

definition add_seeds :: "NodeConfig \<Rightarrow> string list \<Rightarrow> GossipService \<Rightarrow> GossipService" where
  "add_seeds config seeds svc = fold (\<lambda>seed. add_peer (seed_peer config seed)) seeds svc"

section \<open>Recovery and the log\<close>

text \<open>The record restored from an entry; its expiry is the instant of its construction.\<close>

definition record_of_entry :: "time_point \<Rightarrow> RegistryEntry \<Rightarrow> AgentRecord" where
  "record_of_entry now entry =
     (new_AgentRecord now)
       \<lparr>agent_id := re_agent_id entry,
        node_id := re_capability entry,
        endpoint := re_endpoint entry,
        revision := re_timestamp entry,
        public_key_hex := encode_hex (re_public_key entry),
        signature_hex := encode_hex (re_signature entry)\<rparr>"

definition entry_of_record :: "AgentRecord \<Rightarrow> RegistryEntry" where
  "entry_of_record r =
     \<lparr>re_agent_id = agent_id r, re_capability = node_id r, re_endpoint = endpoint r,
      re_timestamp = revision r, re_public_key = decode_hex (public_key_hex r),
      re_signature = decode_hex (signature_hex r)\<rparr>"

definition persist_record :: "entry_codec \<Rightarrow> PersistenceService \<Rightarrow> AgentRecord \<Rightarrow> disk \<Rightarrow> disk" where
  "persist_record codec svc r d = append_entry codec (entry_of_record r) svc d"

text \<open>
  The engine's start as far as the registry is concerned.  The records are constructed one after
  the other, each reading the clock, then \<^verbatim>\<open>load_from_persistence\<close> reads it at \<open>now\<close>.  \<^const>\<open>Inl\<close> is
  an exception that ends the program.
\<close>

definition restore_records :: "(nat \<Rightarrow> time_point) \<Rightarrow> RegistryEntry list \<Rightarrow> AgentRecord list" where
  "restore_records clock entries = map (\<lambda>(i, e). record_of_entry (clock i) e) (enumerate 0 entries)"

definition start_registry ::
  "filesystem \<Rightarrow> entry_codec \<Rightarrow> (nat \<Rightarrow> time_point) \<Rightarrow> time_point \<Rightarrow> disk
   \<Rightarrow> (recover_error + disk AgentRegistry) \<times> disk" where
  "start_registry fs codec clock now d =
     (case new_PersistenceService fs default_PersistenceConfig d of
        (Some e, _, d') \<Rightarrow> (Inl (Path_error e), d')
      | (None, svc, d') \<Rightarrow>
          (case recover fs codec svc d' of
             Inl e \<Rightarrow> (Inl e, d')
           | Inr recovered \<Rightarrow>
               (let reg = (if recovered = [] then new_AgentRegistry
                           else load_from_persistence now (restore_records clock recovered) new_AgentRegistry)
                in (Inr (set_upsert_callback (Some (persist_record codec svc)) reg), d'))))"

section \<open>The tick\<close>

record tick_report =
  tick_stats :: RegistryStats
  tick_push :: nat
  tick_purged :: nat
  tick_accepts_self :: bool
  tick_trusted :: nat
  tick_stats_line :: string

text \<open>One iteration of the maintenance loop: what it prints and the registry after it.\<close>

definition tick ::
  "sodium option \<Rightarrow> time_point \<Rightarrow> BeaconConfig \<Rightarrow> ReputationEngine \<Rightarrow> IdentityService \<Rightarrow> 'e AgentRegistry \<Rightarrow> 'e
   \<Rightarrow> tick_report \<times> 'e AgentRegistry" where
  "tick lib now config reputation identity reg env =
     (let (purged, reg') = purge_expired now reg;
          st = stats reg';
          push = select_push_entries (list_records reg') (new_GossipScheduler (cfg_gossip config));
          proto = new_ControlProtocol (cfg_lifecycle config) (cfg_trust config);
          (line, _, reg'', _) = handle_line lib now proto ''STATS'' (Some identity) reg' env
      in (\<lparr>tick_stats = st, tick_push = length push, tick_purged = purged,
           tick_accepts_self = accepts_peer (cfg_node_id (cfg_node config)) reputation,
           tick_trusted = trusted_agents identity, tick_stats_line = line\<rparr>, reg''))"

section \<open>Restarts\<close>

text \<open>
  What the log keeps of a record: not the metadata and the lease; key and signature come back as the
  lower-case text of the octets they decode to, which is the empty text when they do not decode.
\<close>

definition persistent_part :: "AgentRecord \<Rightarrow> AgentRecord" where
  "persistent_part r = r\<lparr>metadata := [], expires_at := 0\<rparr>"

definition restored_part :: "AgentRecord \<Rightarrow> AgentRecord" where
  "restored_part r =
     r\<lparr>metadata := [], expires_at := 0, public_key_hex := encode_hex (decode_hex (public_key_hex r)),
       signature_hex := encode_hex (decode_hex (signature_hex r))\<rparr>"

lemma restored_part_canonical: "canonical_hex r \<Longrightarrow> restored_part r = persistent_part r"
  by (simp add: restored_part_def persistent_part_def canonical_hex_def)

lemma persistent_part_restored: "persistent_part (record_of_entry t (entry_of_record r)) = restored_part r"
  by (simp add: persistent_part_def restored_part_def record_of_entry_def entry_of_record_def new_AgentRecord_def)

lemma restored_fields [simp]:
  "agent_id (record_of_entry t (entry_of_record r)) = agent_id r"
  "revision (record_of_entry t (entry_of_record r)) = revision r"
  "expires_at (record_of_entry t e) = t"
  by (simp_all add: record_of_entry_def entry_of_record_def new_AgentRecord_def)

definition engine_service :: "string \<Rightarrow> PersistenceService" where
  "engine_service wal = \<lparr>pconfig = default_PersistenceConfig, wal_file = Some wal\<rparr>"

lemma start_registry_replays:
  assumes "ready fs (engine_service wal) snap wal" and "can_open fs wal" and "d snap = None"
    and "(case d wal of None \<Rightarrow> [] | Some bs \<Rightarrow> bs) = bs"
  shows "start_registry fs codec clock now d =
     (Inr (set_upsert_callback (Some (persist_record codec (engine_service wal)))
        (load_from_persistence now (restore_records clock (replay_wal codec 0 bs [])) new_AgentRegistry)),
      d(wal \<mapsto> bs))"
proof -
  let ?svc = "engine_service wal" and ?d = "d(wal \<mapsto> bs)"
  have new: "new_PersistenceService fs default_PersistenceConfig d = (None, ?svc, ?d)"
    using assms(1,2,4) by (simp add: new_PersistenceService_def open_wal_def ready_def engine_service_def)
  have "snap \<noteq> wal" using assms(1) by (simp add: ready_def)
  then have rec: "recover fs codec ?svc ?d = Inr (replay_wal codec 0 bs [])"
    using recover_ready [OF assms(1), of ?d bs codec] assms(3) by simp
  have "load_from_persistence now (restore_records clock []) new_AgentRegistry = (new_AgentRegistry :: disk AgentRegistry)"
    by (simp add: load_from_persistence_def restore_records_def Let_def)
  then show ?thesis by (simp add: start_registry_def new rec)
qed

lemma start_registry_ready:
  assumes "ready fs (engine_service wal) snap wal" and "can_open fs wal" and "d snap = None"
    and "list_all (storable codec) es" and "list_all (\<lambda>e. 0 < re_timestamp e) es"
    and "(case d wal of None \<Rightarrow> [] | Some bs \<Rightarrow> bs) = log_of codec es"
  shows "start_registry fs codec clock now d =
     (Inr (set_upsert_callback (Some (persist_record codec (engine_service wal)))
        (load_from_persistence now (restore_records clock es) new_AgentRegistry)),
      d(wal \<mapsto> log_of codec es))"
proof -
  have "replay_wal codec 0 (log_of codec es) [] = es"
    using replay_all [OF assms(4)] assms(5) by (auto simp: list_all_iff filter_id_conv)
  then show ?thesis using start_registry_replays [OF assms(1-3,6)] by simp
qed

lemma logged_upserts:
  assumes "list_all (\<lambda>r. storable codec (entry_of_record r)) rs" and "d wal = Some bs"
  shows "fold (\<lambda>r. persist_record codec (engine_service wal) r) rs d =
     d(wal \<mapsto> bs @ log_of codec (map entry_of_record rs))"
proof -
  have "fold (\<lambda>r. persist_record codec (engine_service wal) r) rs d
      = append_entries codec (map entry_of_record rs) (engine_service wal) d"
    unfolding append_entries_def
    by (induction rs arbitrary: d) (simp_all add: persist_record_def)
  also have "\<dots> = d(wal \<mapsto> bs @ log_of codec (map entry_of_record rs))"
    by (rule append_entries_disk) (use assms in \<open>simp_all add: engine_service_def list_all_iff\<close>)
  finally show ?thesis .
qed

text \<open>The records a series of upserts accepts, and what is stored after it.\<close>

lemma set_accepted_of: "set (accepted_of rs base) \<subseteq> set rs"
proof (induction rs arbitrary: base)
  case (Cons r rs)
  show ?case using Cons.IH [of "snd (upsert_records r base)"] by auto
qed simp

lemma in_restore_records:
  "x \<in> set (restore_records clock es) \<longleftrightarrow> (\<exists>i<length es. x = record_of_entry (clock i) (es ! i))"
  by (fastforce simp: restore_records_def enumerate_eq_zip in_set_conv_nth)

lemma accepted_of_stored:
  "lookup (rr.put_all rs base) aid = Some e \<Longrightarrow> lookup base aid = Some e \<or> e \<in> set (accepted_of rs base) \<and> agent_id e = aid"
proof (induction rs arbitrary: base)
  case (Cons r rs)
  then show ?case
    using Cons.IH [of "snd (upsert_records r base)"]
    by (auto simp: lookup_upsert_records upsert_records_accepts split: if_splits)
qed simp

lemma accepted_of_below:
  "r \<in> set (accepted_of rs base) \<Longrightarrow>
   \<exists>e. lookup (rr.put_all rs base) (agent_id r) = Some e \<and> revision r \<le> revision e"
proof (induction rs arbitrary: base)
  case (Cons q rs)
  show ?case
  proof (cases "r = q \<and> fst (upsert_records q base)")
    case True
    then have "lookup (snd (upsert_records q base)) (agent_id r) = Some r"
      by (simp add: lookup_upsert_records upsert_records_accepts)
    from rr.put_all_mono [OF this, of rs] show ?thesis by simp
  next
    case False
    then have "r \<in> set (accepted_of rs (snd (upsert_records q base)))"
      using Cons.prems by (auto split: if_splits)
    from Cons.IH [OF this] show ?thesis by simp
  qed
qed simp

lemma restored_from:
  assumes "x \<in> set (restore_records clock (map entry_of_record acc))"
  shows "\<exists>t. \<exists>r\<in>set acc. x = record_of_entry t (entry_of_record r)"
proof -
  obtain i where "i < length acc" "x = record_of_entry (clock i) (entry_of_record (acc ! i))"
    using assms by (auto simp: in_restore_records)
  then show ?thesis using nth_mem by blast
qed

lemma restored_member:
  assumes "r \<in> set acc"
  shows "\<exists>t. record_of_entry t (entry_of_record r) \<in> set (restore_records clock (map entry_of_record acc))"
proof -
  obtain i where i: "i < length acc" "r = acc ! i" using assms by (auto simp: in_set_conv_nth)
  then have "record_of_entry (clock i) (entry_of_record r) \<in> set (restore_records clock (map entry_of_record acc))"
    unfolding in_restore_records by (intro exI [of _ i]) simp
  then show ?thesis by blast
qed

lemma restored_lookup:
  assumes "conflict_free (set rs)" and acc: "set acc = set (accepted_of rs [])"
  shows "rel_option (\<lambda>a b. restored_part a = persistent_part b)
     (lookup (rr.put_all rs []) aid)
     (find_record aid (load_from_persistence now (restore_records clock (map entry_of_record acc))
        (new_AgentRegistry :: disk AgentRegistry)))"
proof -
  let ?new = "restore_records clock (map entry_of_record acc)"
  let ?l = "lookup (load_records (now + hours (24 * 365)) ?new []) aid"
  have f: "find_record aid (load_from_persistence now ?new (new_AgentRegistry :: disk AgentRegistry)) = ?l"
    by (simp add: find_record_lookup load_from_persistence_def new_AgentRegistry_def Let_def)
  note new = restored_from [of _ clock acc] and cover = restored_member [of _ acc clock]
  have sub: "set acc \<subseteq> set rs" unfolding acc by (rule set_accepted_of)
  show ?thesis
  proof (cases "lookup (rr.put_all rs []) aid")
    case None
    have "?l = None"
    proof (rule ccontr)
      assume "?l \<noteq> None"
      then obtain b where b: "?l = Some b" by blast
      obtain x where "x \<in> set ?new" "agent_id x = aid"
        using load_records_lookup_cases [OF b] by auto
      then obtain r where "r \<in> set acc" "agent_id r = aid" using new [of x] by auto
      with accepted_of_below [of r rs "[]"] None show False by (auto simp: acc)
    qed
    with None show ?thesis by (simp add: f)
  next
    case (Some e)
    then have e: "e \<in> set acc" "agent_id e = aid"
      using accepted_of_stored [of rs "[]" aid e] by (auto simp: acc)
    obtain t0 where x: "record_of_entry t0 (entry_of_record e) \<in> set ?new"
      using cover [OF e(1)] by blast
    obtain b where b: "?l = Some b" "revision e \<le> revision b"
      using load_records_covers [OF x, of "now + hours (24 * 365)" "[]"] e(2) by auto
    obtain x where x: "x \<in> set ?new" "agent_id x = aid" "b = x \<or> b = x\<lparr>expires_at := now + hours (24 * 365)\<rparr>"
      using load_records_lookup_cases [OF b(1)] by auto
    obtain t r where r0: "r \<in> set acc" "x = record_of_entry t (entry_of_record r)" using new [OF x(1)] by blast
    then have r: "r \<in> set acc" "agent_id r = aid" "revision b = revision r"
      "persistent_part b = persistent_part (record_of_entry t (entry_of_record r))"
      using x(2,3) by (auto simp: persistent_part_def)
    have "r \<in> set (accepted_of rs [])" using r(1) by (simp only: acc)
    from accepted_of_below [OF this] Some r(2) have "revision r \<le> revision e" by simp
    moreover have "revision e \<le> revision r" using b(2) r(3) by (simp only:)
    ultimately have "revision r = revision e" by (rule antisym)
    moreover have "r \<in> set rs" "e \<in> set rs" using sub r(1) e(1) by blast+
    ultimately have "r = e" using conflict_freeD [OF assms(1)] r(2) e(2) by simp
    then have "restored_part e = persistent_part b"
      using r(4) persistent_part_restored [of t r] by simp
    then show ?thesis unfolding f Some b(1) by simp
  qed
qed

section \<open>The tick leaves the purged registry\<close>

lemma tick_alt:
  "tick lib now config reputation identity reg env =
     (\<lparr>tick_stats = stats (snd (purge_expired now reg)),
       tick_push = length (select_push_entries (records (snd (purge_expired now reg)))
                     (new_GossipScheduler (cfg_gossip config))),
       tick_purged = fst (purge_expired now reg),
       tick_accepts_self = accepts_peer (cfg_node_id (cfg_node config)) reputation,
       tick_trusted = trusted_agents identity,
       tick_stats_line =
         ''OK active_agents='' @ to_string (active_agents (stats (snd (purge_expired now reg)))) @
         '' highest_revision='' @ to_string (unat (highest_revision (stats (snd (purge_expired now reg))))) @ nl\<rparr>,
      snd (purge_expired now reg))"
  by (simp add: tick_def handle_line_def parse_stats new_ControlCommand_def list_records_def
      case_prod_unfold Let_def)

section \<open>Numbers on the command line\<close>

lemma to_string_hd: "is_digit (hd (to_string n))"
  by (rule to_string_digits [of _ n]) (rule hd_in_set, simp)

lemma stoi_to_string:
  "stoi (to_string n) = (if n < 2 ^ 31 then Inr (int n) else Inl Errc_result_out_of_range)"
proof -
  let ?s = "to_string n"
  have d: "is_digit (hd ?s)" by (rule to_string_hd)
  then have "\<not> is_space (hd ?s)" by (rule is_digit_not_space)
  then have "dropWhile is_space ?s = ?s" by (cases ?s) simp_all
  moreover have "hd ?s \<noteq> CHR ''-''" "hd ?s \<noteq> CHR ''+''" using d by (auto simp: is_digit_def)
  ultimately show ?thesis
    by (simp add: stoi_def takeWhile_to_string digits_value_to_string Let_def)
qed

lemma parse_port_to_string:
  "parse_port (to_string n) port = (if 0 < n \<and> n \<le> 65535 then (True, word_of_nat n) else (False, port))"
  by (auto simp: parse_port_def stoi_to_string)

definition ports_set :: "options \<Rightarrow> bool" where
  "ports_set opts \<longleftrightarrow> cfg_listen_port (cfg_node (opt_config opts)) \<noteq> 0 \<and>
     control_port (cfg_node (opt_config opts)) \<noteq> 0"

lemma ports_set_updates [simp]:
  "ports_set (opts\<lparr>opt_run_once := b\<rparr>) = ports_set opts"
  "ports_set (opts\<lparr>opt_config_path := p\<rparr>) = ports_set opts"
  "ports_set (opts\<lparr>opt_seed_nodes := ss\<rparr>) = ports_set opts"
  "ports_set (opts\<lparr>opt_config := (opt_config opts)\<lparr>cfg_trust := t\<rparr>\<rparr>) = ports_set opts"
  "ports_set (set_node (\<lambda>n. n\<lparr>cfg_node_id := i\<rparr>) opts) = ports_set opts"
  by (simp_all add: ports_set_def set_node_def)

lemma parse_port_nonzero:
  assumes "parse_port s p = (True, q)"
  shows "q \<noteq> 0"
proof -
  obtain n where n: "0 < n" "n \<le> 65535" "q = word_of_int n"
    using assms by (fastforce simp: parse_port_def not_le not_less split: sum.splits if_splits)
  then have "uint q = n" by (simp add: unsigned_of_int take_bit_int_eq_self)
  with n(1) show ?thesis by auto
qed

lemma parse_args_ports: "parse_args args opts0 = Inr opts \<Longrightarrow> ports_set opts0 \<Longrightarrow> ports_set opts"
proof (induction args arbitrary: opts0 rule: length_induct)
  case (1 args)
  have IH: "parse_args ys o1 = Inr opts \<Longrightarrow> ports_set o1 \<Longrightarrow> ports_set opts"
    if "length ys < length args" for ys o1 using "1.IH" that by blast
  have listen: "ports_set (set_node (\<lambda>n. n\<lparr>cfg_listen_port := q\<rparr>) opts0)"
    and control: "ports_set (set_node (\<lambda>n. n\<lparr>control_port := q\<rparr>) opts0)" if "q \<noteq> 0" for q
    using that "1.prems"(2) by (simp_all add: ports_set_def set_node_def)
  show ?case
  proof (cases args)
    case (Cons arg rest)
    note step = "1.prems"(1) [unfolded Cons parse_args.simps(2)]
    show ?thesis
    proof (cases rest)
      case Nil
      have "parse_args [] o1 = Inr opts \<Longrightarrow> ports_set o1 \<Longrightarrow> ports_set opts" for o1 by simp
      with step "1.prems"(2) show ?thesis
        by (auto simp: Nil split: if_splits)
    next
      case (Cons val more)
      have len: "length rest < length args" "length more < length args"
        using Cons \<open>args = arg # rest\<close> by simp_all
      show ?thesis
        using step [unfolded Cons list.case Let_def] IH [OF len(1), unfolded Cons] IH [OF len(2)]
          listen control parse_port_nonzero "1.prems"(2)
        by (auto simp del: parse_args.simps split: if_splits prod.splits)
    qed
  qed (use "1.prems" in simp)
qed

section \<open>Properties\<close>

text \<open>
  Property C4: the registry survives a restart, for records with positive revisions.  Start on a disk
  without log and snapshot, merge any batch, with or without an identity service, and start again on
  the disk that was left.  Suppose that the records the identity check admits have positive revisions,
  can be stored in the log (at most \<^verbatim>\<open>MAX_ENTRY_SIZE\<close> octets that protobuf reads back), and that no two
  of them of one agent have the same revision or different keys.  Then recovery succeeds and the new
  registry knows exactly the same agents, each with the same node, endpoint and revision, and with its
  key and signature in lower case, or empty where they are not hexadecimal.  The metadata and the lease
  are not part of what is kept.
\<close>

theorem registry_survives_restart:
  assumes "ready fs (engine_service wal) snap wal" and "can_open fs wal" and "d snap = None" and "d wal = None"
    and "conflict_free (set (admitted lib rs identity))"
    and "list_all (\<lambda>r. 0 < revision r \<and> storable codec (entry_of_record r)) (admitted lib rs identity)"
  shows "case start_registry fs codec clock now d of (Inl _, _) \<Rightarrow> False | (Inr reg0, d0) \<Rightarrow>
     (case merge lib rs identity reg0 d0 0 of (_, _, reg1, d1) \<Rightarrow>
       (case start_registry fs codec clock' now' d1 of (Inl _, _) \<Rightarrow> False | (Inr reg2, _) \<Rightarrow>
          (\<forall>aid. rel_option (\<lambda>a b. restored_part a = persistent_part b)
             (find_record aid reg1) (find_record aid reg2))))"
proof -
  let ?cb = "persist_record codec (engine_service wal)" and ?rs = "admitted lib rs identity"
  let ?acc = "accepted_of ?rs []"
  let ?es = "map entry_of_record ?acc"
  have sub: "set ?acc \<subseteq> set ?rs" by (rule set_accepted_of)
  then have acc: "list_all (\<lambda>r. storable codec (entry_of_record r)) ?acc"
    and es: "list_all (storable codec) ?es" "list_all (\<lambda>e. 0 < re_timestamp e) ?es"
    using assms(6) by (auto simp: list_all_iff entry_of_record_def)
  have start: "start_registry fs codec clock now d =
      (Inr \<lparr>records = [], on_upsert = Some ?cb\<rparr>, d(wal \<mapsto> []))"
    using start_registry_ready [of fs wal snap d codec "[]"] assms(1-4)
    by (simp add: load_from_persistence_def restore_records_def set_upsert_callback_def
        new_AgentRegistry_def Let_def)
  have "fold (\<lambda>r. notify_upsert r \<lparr>records = [], on_upsert = Some ?cb\<rparr>) ?acc (d(wal \<mapsto> []))
      = fold ?cb ?acc (d(wal \<mapsto> []))"
    by (rule fold_cong) (simp_all add: notify_upsert_def fun_eq_iff)
  also have "\<dots> = d(wal \<mapsto> log_of codec ?es)"
    using logged_upserts [OF acc, of "d(wal \<mapsto> [])" wal "[]"] by simp
  finally have run: "merge lib rs identity \<lparr>records = [], on_upsert = Some ?cb\<rparr> (d(wal \<mapsto> [])) 0 =
      (length ?acc, map_option (ident.check_all lib rs) identity, \<lparr>records = rr.put_all ?rs [], on_upsert = Some ?cb\<rparr>, d(wal \<mapsto> log_of codec ?es))"
    by (simp add: merge_alt)
  have snap: "(d(wal \<mapsto> log_of codec ?es)) snap = None"
    using assms(1,3) by (auto simp: ready_def)
  have restart: "start_registry fs codec clock' now' (d(wal \<mapsto> log_of codec ?es)) =
      (Inr (set_upsert_callback (Some ?cb)
         (load_from_persistence now' (restore_records clock' ?es) new_AgentRegistry)),
       d(wal \<mapsto> log_of codec ?es))"
    using start_registry_ready [of fs wal snap "d(wal \<mapsto> log_of codec ?es)" codec ?es] assms(1,2) snap es
    by simp
  show ?thesis
    using restored_lookup [OF assms(5) refl, of _ now' clock']
    by (simp add: start run restart find_record_lookup set_upsert_callback_def)
qed

text \<open>A codec that knows one entry.\<close>

definition echo_codec :: "RegistryEntry \<Rightarrow> entry_codec" where
  "echo_codec e = \<lparr>entry_serialize = (\<lambda>_. Some [1]), entry_parse = (\<lambda>_. Some e)\<rparr>"

lemma storable_echo: "storable (echo_codec e) e"
  by (simp add: storable_def echo_codec_def MAX_ENTRY_SIZE_def)

lemma ready_engine_sample: "ready plain_fs (engine_service ''./registry.wal'') ''./registry.bin'' ''./registry.wal''"
  using ready_sample by (simp add: engine_service_def sample_service_def)

theorem registry_survives_restart_witness:
  "let codec = echo_codec (entry_of_record (sample_record ''a'' 1 0))
   in case start_registry plain_fs codec (\<lambda>_. 0) 0 Map.empty of (Inl _, _) \<Rightarrow> False | (Inr reg0, d0) \<Rightarrow>
     (case merge None [sample_record ''a'' 1 0] (Some new_IdentityService) reg0 d0 0 of (_, _, reg1, d1) \<Rightarrow>
       (case start_registry plain_fs codec (\<lambda>_. 9) 9 d1 of (Inl _, _) \<Rightarrow> False | (Inr reg2, _) \<Rightarrow>
          (\<forall>aid. rel_option (\<lambda>a b. restored_part a = persistent_part b)
             (find_record aid reg1) (find_record aid reg2))))"
proof -
  let ?codec = "echo_codec (entry_of_record (sample_record ''a'' 1 0))"
  have "verify_agent_signature None (sample_record ''a'' 1 0) = Missing"
    by (simp add: verify_agent_signature_Missing sample_record_def)
  then have adm: "admitted None [sample_record ''a'' 1 0] (Some new_IdentityService) = [sample_record ''a'' 1 0]"
    by (simp add: verify_and_register_status)
  have "list_all (\<lambda>r. 0 < revision r \<and> storable ?codec (entry_of_record r)) [sample_record ''a'' 1 0]"
    by (simp add: storable_echo) (simp add: sample_record_def)
  moreover have "conflict_free (set [sample_record ''a'' 1 0])"
    by (simp add: conflict_free_def key_compatible_def)
  moreover have "can_open plain_fs ''./registry.wal''" by (simp add: plain_fs_def)
  ultimately show ?thesis
    unfolding Let_def by (intro registry_survives_restart [OF ready_engine_sample]) (simp_all add: adm del: admitted.simps)
qed

text \<open>
  What a tick reports.  After a tick no stored record has expired; the figures it
  prints and the answer to its own \<^verbatim>\<open>STATS\<close> command describe the registry it leaves, and what was
  there before is accounted for.
\<close>

theorem tick_report_accurate:
  fixes reg :: "'e AgentRegistry"
  shows "case tick lib now config reputation identity reg env of (report, reg') \<Rightarrow>
     records reg' = filter (\<lambda>r. now < expires_at r) (records reg) \<and>
     tick_purged report + active_agents (tick_stats report) = length (records reg) \<and>
     active_agents (tick_stats report) = length (records reg') \<and>
     tick_push report \<le> min (length (records reg')) (unat (max_registry_items_per_round (cfg_gossip config))) \<and>
     tick_stats_line report = ''OK active_agents='' @ to_string (length (records reg')) @
       '' highest_revision='' @ to_string (unat (highest_revision (tick_stats report))) @ nl"
  using sum_length_filter_compl [of "\<lambda>r. now < expires_at r" "records reg"]
  by (simp add: tick_alt records_purge_expired fst_purge_expired stats_def not_less
      select_push_entries_alt new_GossipScheduler_def std.srt_length)

text \<open>
  Port numbers.  On the command line exactly the numbers from 1 to 65535 are taken; a
  seed accepts every number that fits an \<^verbatim>\<open>int\<close> and keeps its low 16 bits, so that port 65537 means
  port 1.
\<close>

theorem port_arguments:
  assumes "CHR '':'' \<notin> set host"
  shows "parse_port (to_string n) port = (if 0 < n \<and> n \<le> 65535 then (True, word_of_nat n) else (False, port)) \<and>
     gp_host (seed_peer config (host @ '':'' @ to_string n)) = host \<and>
     gp_control_port (seed_peer config (host @ '':'' @ to_string n)) =
       (if n < 2 ^ 31 then word_of_nat (n mod 65536) else control_port config)"
proof -
  note f = find_char_append [OF assms, of "to_string n"]
  have w: "(word_of_nat n :: u16) = word_of_nat (n mod 65536)"
    by (simp add: word_of_nat_eq_iff take_bit_eq_mod)
  show ?thesis
    by (simp add: parse_port_to_string seed_peer_def f stoi_to_string substr_def Let_def w [symmetric])
qed

theorem port_arguments_witness:
  "gp_control_port (seed_peer default_NodeConfig (''h'' @ '':'' @ to_string 65537)) = 1"
  using port_arguments [of "''h''" 65537 0 default_NodeConfig] by simp

text \<open>
  An engine that gets past its arguments has two usable ports, whatever the arguments
  were.
\<close>

theorem parsed_ports_nonzero:
  assumes "parse_args args default_options = Inr opts"
  shows "cfg_listen_port (cfg_node (opt_config opts)) \<noteq> 0 \<and> control_port (cfg_node (opt_config opts)) \<noteq> 0"
proof -
  have "ports_set default_options" by (simp add: ports_set_def default_options_def default_config_defs)
  then show ?thesis using parse_args_ports [OF assms] by (simp add: ports_set_def)
qed

theorem parsed_ports_nonzero_witness:
  "case parse_args [''--once'', ''--listen-port'', ''1''] default_options of
     Inl _ \<Rightarrow> False | Inr opts \<Rightarrow> cfg_listen_port (cfg_node (opt_config opts)) \<noteq> 0"
proof -
  have "to_string 1 = ''1''" by (simp add: to_string_eval)
  then have p: "parse_port ''1'' q = (True, 1)" for q using parse_port_to_string [of 1 q] by simp
  obtain opts where a: "parse_args [''--once'', ''--listen-port'', ''1''] default_options = Inr opts"
    by (simp add: p)
  with parsed_ports_nonzero [OF a] show ?thesis by simp
qed

end
