(* ===== verification/Concurrent_Upserts.thy ===== *)
theory Concurrent_Upserts
  imports Engine_Main
begin

text \<open>
  \<^verbatim>\<open>AgentRegistry::upsert\<close> called from several threads (the control server and the gossip service
  share the registry).  It holds the mutex while it changes the records and releases it before it
  calls the callback, so other threads may run in between and the log may be written in another
  order than the registry was changed.
\<close>

section \<open>Two steps\<close>

record writers =
  wr_registry :: "disk AgentRegistry"
  wr_pending :: "AgentRecord multiset"
  wr_disk :: disk

text \<open>
  \<^const>\<open>wr_pending\<close> holds the records of the threads that are between the unlock and the callback.
  The records offered come from \<open>R\<close>.
\<close>

inductive upsert_step :: "AgentRecord set \<Rightarrow> writers \<Rightarrow> writers \<Rightarrow> bool" for R where
  locked_part: "\<lbrakk>r \<in> R; upsert_records r (records reg) = (ok, rs)\<rbrakk>
    \<Longrightarrow> upsert_step R \<lparr>wr_registry = reg, wr_pending = P, wr_disk = d\<rparr>
          \<lparr>wr_registry = reg\<lparr>records := rs\<rparr>, wr_pending = (if ok then add_mset r P else P), wr_disk = d\<rparr>"
| callback_part: "r \<in># P
    \<Longrightarrow> upsert_step R \<lparr>wr_registry = reg, wr_pending = P, wr_disk = d\<rparr>
          \<lparr>wr_registry = reg, wr_pending = P - {#r#}, wr_disk = notify_upsert r reg d\<rparr>"

text \<open>One thread alone performs \<^const>\<open>upsert\<close>.\<close>

lemma upsert_two_steps:
  assumes "r \<in> R" and "upsert r reg d = (ok, reg', d')"
  shows "(upsert_step R)\<^sup>*\<^sup>* \<lparr>wr_registry = reg, wr_pending = {#}, wr_disk = d\<rparr>
     \<lparr>wr_registry = reg', wr_pending = {#}, wr_disk = d'\<rparr>"
proof -
  obtain acc rs where u: "upsert_records r (records reg) = (acc, rs)" by (cases "upsert_records r (records reg)")
  note first = locked_part [OF assms(1) u, of "{#}" d]
  show ?thesis
  proof (cases acc)
    case True
    have "upsert_step R \<lparr>wr_registry = reg\<lparr>records := rs\<rparr>, wr_pending = {#r#}, wr_disk = d\<rparr>
        \<lparr>wr_registry = reg\<lparr>records := rs\<rparr>, wr_pending = {#}, wr_disk = notify_upsert r (reg\<lparr>records := rs\<rparr>) d\<rparr>"
      using callback_part [of r "{#r#}" R "reg\<lparr>records := rs\<rparr>" d] by simp
    with first show ?thesis using assms(2) True u by (auto simp: upsert_def)
  next
    case False
    with first show ?thesis using assms(2) u by (auto simp: upsert_def)
  qed
qed

section \<open>What the log contains\<close>

lemma put_all_snoc: "rr.put_all (rs @ [r]) base = snd (upsert_records r (rr.put_all rs base))"
  by (induction rs arbitrary: base) simp_all

lemma accepted_of_snoc:
  "accepted_of (rs @ [r]) base =
     accepted_of rs base @ (if fst (upsert_records r (rr.put_all rs base)) then [r] else [])"
  by (induction rs arbitrary: base) simp_all

text \<open>
  The records offered so far in the order of the locked parts, and the records logged so far in
  the order of the callbacks.
\<close>

definition writers_inv ::
  "entry_codec \<Rightarrow> string \<Rightarrow> AgentRecord set \<Rightarrow> disk \<Rightarrow> AgentRecord list \<Rightarrow> AgentRecord list \<Rightarrow> writers \<Rightarrow> bool" where
  "writers_inv codec wal R d0 offered logged w \<longleftrightarrow>
     set offered \<subseteq> R \<and>
     wr_registry w = \<lparr>records = rr.put_all offered [],
       on_upsert = Some (persist_record codec (engine_service wal))\<rparr> \<and>
     mset logged + wr_pending w = mset (accepted_of offered []) \<and>
     wr_disk w = d0(wal \<mapsto> log_of codec (map entry_of_record logged))"

lemma writers_inv_step:
  assumes "upsert_step R w w'" and "writers_inv codec wal R d0 offered logged w"
    and "\<forall>r\<in>R. storable codec (entry_of_record r)"
  shows "\<exists>offered' logged'. writers_inv codec wal R d0 offered' logged' w'"
  using assms(1)
proof cases
  case (locked_part r reg ok rs P d)
  then have u: "upsert_records r (rr.put_all offered []) = (ok, rs)"
    using assms(2) by (simp add: writers_inv_def)
  have "writers_inv codec wal R d0 (offered @ [r]) logged w'"
    using assms(2) locked_part u by (auto simp: writers_inv_def put_all_snoc accepted_of_snoc)
  then show ?thesis by blast
next
  case (callback_part r P reg d)
  have acc: "mset logged + P = mset (accepted_of offered [])" "set offered \<subseteq> R"
    using assms(2) callback_part by (simp_all add: writers_inv_def)
  then have "r \<in> set (accepted_of offered [])"
    using callback_part(3) by (metis set_mset_mset union_iff)
  then have "storable codec (entry_of_record r)"
    using acc(2) set_accepted_of assms(3) by blast
  then have "persist_record codec (engine_service wal) r (d0(wal \<mapsto> log_of codec (map entry_of_record logged)))
      = d0(wal \<mapsto> log_of codec (map entry_of_record (logged @ [r])))"
    using logged_upserts [of codec "[r]" "d0(wal \<mapsto> log_of codec (map entry_of_record logged))" wal
        "log_of codec (map entry_of_record logged)"]
    by (simp add: log_of_def)
  moreover have "add_mset r (mset (accepted_of offered []) - {#r#}) = mset (accepted_of offered [])"
    using \<open>r \<in> set (accepted_of offered [])\<close> by simp
  ultimately have "writers_inv codec wal R d0 offered (logged @ [r]) w'"
    using assms(2) callback_part by (auto simp: writers_inv_def notify_upsert_def)
  then show ?thesis by blast
qed

lemma writers_inv_run:
  assumes "(upsert_step R)\<^sup>*\<^sup>* w w'" and "writers_inv codec wal R d0 [] [] w"
    and "\<forall>r\<in>R. storable codec (entry_of_record r)"
  shows "\<exists>offered logged. writers_inv codec wal R d0 offered logged w'"
  using assms(1)
proof (induction rule: rtranclp_induct)
  case base
  then show ?case using assms(2) by blast
next
  case (step w1 w2)
  then show ?case using writers_inv_step [OF step(2) _ assms(3)] by blast
qed

section \<open>Property\<close>

text \<open>
  The registry survives a restart however its writers interleave.  Threads that offer
  records with positive revisions that determine them may overtake each other between the registry
  and the log; once every callback has run, a restart recovers exactly the agents of the registry,
  each with its node, endpoint and revision, and with its key and signature in lower case.
\<close>

theorem concurrent_upserts_recovered:
  assumes "ready fs (engine_service wal) snap wal" and "can_open fs wal" and "d snap = None" and "d wal = None"
    and "conflict_free R" and "\<forall>r\<in>R. 0 < revision r \<and> storable codec (entry_of_record r)"
    and "start_registry fs codec clock now d = (Inr reg0, d0)"
    and "(upsert_step R)\<^sup>*\<^sup>* \<lparr>wr_registry = reg0, wr_pending = {#}, wr_disk = d0\<rparr>
           \<lparr>wr_registry = reg, wr_pending = {#}, wr_disk = d1\<rparr>"
  shows "case start_registry fs codec clock' now' d1 of (Inl _, _) \<Rightarrow> False | (Inr reg2, _) \<Rightarrow>
     (\<forall>aid. rel_option (\<lambda>a b. restored_part a = persistent_part b) (find_record aid reg) (find_record aid reg2))"
proof -
  let ?cb = "persist_record codec (engine_service wal)"
  have "(Inr reg0, d0) = (Inr \<lparr>records = [], on_upsert = Some ?cb\<rparr>, d(wal \<mapsto> []))"
    using start_registry_ready [of fs wal snap d codec "[]" clock now] assms(1-4,7)
    by (simp add: load_from_persistence_def restore_records_def set_upsert_callback_def
        new_AgentRegistry_def Let_def)
  then have "writers_inv codec wal R d [] [] \<lparr>wr_registry = reg0, wr_pending = {#}, wr_disk = d0\<rparr>"
    by (simp add: writers_inv_def)
  then obtain offered logged where
    inv: "writers_inv codec wal R d offered logged \<lparr>wr_registry = reg, wr_pending = {#}, wr_disk = d1\<rparr>"
    using writers_inv_run [OF assms(8)] assms(6) by blast
  then have reg: "reg = \<lparr>records = rr.put_all offered [], on_upsert = Some ?cb\<rparr>"
    and d1: "d1 = d(wal \<mapsto> log_of codec (map entry_of_record logged))" and R: "set offered \<subseteq> R"
    and "mset logged = mset (accepted_of offered [])"
    by (simp_all add: writers_inv_def)
  then have logged: "set logged = set (accepted_of offered [])" by (metis set_mset_mset)
  then have "set logged \<subseteq> R" using R set_accepted_of by blast
  then have es: "list_all (storable codec) (map entry_of_record logged)"
    "list_all (\<lambda>e. 0 < re_timestamp e) (map entry_of_record logged)"
    using assms(6) by (auto simp: list_all_iff entry_of_record_def)
  have "d1 snap = None" using assms(1,3) by (auto simp: ready_def d1)
  then have restart: "start_registry fs codec clock' now' d1 =
      (Inr (set_upsert_callback (Some ?cb)
         (load_from_persistence now' (restore_records clock' (map entry_of_record logged)) new_AgentRegistry)), d1)"
    using start_registry_ready [OF assms(1,2) _ es, of d1] by (simp add: d1)
  have "conflict_free (set offered)" using assms(5) R by (rule conflict_free_subset)
  from restored_lookup [OF this logged, of _ now' clock'] show ?thesis
    by (simp add: restart reg find_record_lookup set_upsert_callback_def)
qed

theorem concurrent_upserts_recovered_witness:
  "case start_registry plain_fs (echo_codec (entry_of_record (sample_record ''a'' 1 0))) (\<lambda>_. 0) 0 Map.empty of
     (Inl _, _) \<Rightarrow> False
   | (Inr reg0, d0) \<Rightarrow>
       (case upsert (sample_record ''a'' 1 0) reg0 d0 of (ok, reg, d1) \<Rightarrow>
          (case start_registry plain_fs (echo_codec (entry_of_record (sample_record ''a'' 1 0))) (\<lambda>_. 9) 9 d1 of
             (Inl _, _) \<Rightarrow> False
           | (Inr reg2, _) \<Rightarrow>
               (\<forall>aid. rel_option (\<lambda>a b. restored_part a = persistent_part b)
                  (find_record aid reg) (find_record aid reg2))))"
proof -
  let ?r = "sample_record ''a'' 1 0"
  let ?codec = "echo_codec (entry_of_record ?r)"
  have op: "can_open plain_fs ''./registry.wal''" by (simp add: plain_fs_def)
  obtain reg0 d0 where s: "start_registry plain_fs ?codec (\<lambda>_. 0) 0 Map.empty = (Inr reg0, d0)"
    using start_registry_ready [OF ready_engine_sample op, of Map.empty ?codec "[]" "\<lambda>_. 0" 0] by simp
  obtain ok reg d1 where u: "upsert ?r reg0 d0 = (ok, reg, d1)" by (cases "upsert ?r reg0 d0")
  have "conflict_free {?r}" by (simp add: conflict_free_def key_compatible_def)
  moreover have "\<forall>r\<in>{?r}. 0 < revision r \<and> storable ?codec (entry_of_record r)"
    by (simp add: storable_echo) (simp add: sample_record_def)
  ultimately show ?thesis
    using concurrent_upserts_recovered [OF ready_engine_sample op _ _ _ _ s upsert_two_steps [OF _ u]]
    by (simp add: s u)
qed

end
