(* ===== verification/Recovery_Report.thy ===== *)
theory Recovery_Report
  imports Persistence_Service
begin

text \<open>
  What \<^verbatim>\<open>PersistenceService::recover\<close> in \<^verbatim>\<open>src/src/beacon_net/persistence_service.cpp\<close> tells the operator: the lines
  on standard output and standard error, with the counters of dropped entries, which are 32-bit
  words.  The walk over the log is the one of \<^const>\<open>replay_wal\<close>.
\<close>

section \<open>The counters\<close>

record replay_counters =
  corruption_dropped :: u32
  timeline_dropped :: u32
  replay_errors :: "string list"

definition no_drops :: replay_counters where
  "no_drops = \<lparr>corruption_dropped = 0, timeline_dropped = 0, replay_errors = []\<rparr>"

definition oversize_line :: "u32 \<Rightarrow> string" where
  "oversize_line n = ''[Persistence] WAL entry size '' @ to_string (unat n) @ '' exceeds limit; dropping.'' @ [newline]"

function count_drops :: "entry_codec \<Rightarrow> u64 \<Rightarrow> bytes \<Rightarrow> replay_counters \<Rightarrow> replay_counters" where
  "count_drops codec max_ts bs c =
     (case stream_read 4 bs of
        None \<Rightarrow> c
      | Some (sz, bs1) \<Rightarrow>
          (case stream_read 4 bs1 of
             None \<Rightarrow> c
           | Some (crc, bs2) \<Rightarrow>
               (let size = u32_of_image sz
                in if unat size > MAX_ENTRY_SIZE then
                     count_drops codec max_ts bs2
                       (c\<lparr>corruption_dropped := corruption_dropped c + 1,
                          replay_errors := replay_errors c @ [oversize_line size]\<rparr>)
                   else (case stream_read (unat size) bs2 of
                           None \<Rightarrow> c
                         | Some (buffer, bs3) \<Rightarrow>
                             if compute_crc32 buffer \<noteq> u32_of_image crc then
                               count_drops codec max_ts bs3 (c\<lparr>corruption_dropped := corruption_dropped c + 1\<rparr>)
                             else (case entry_parse codec buffer of
                                     None \<Rightarrow> count_drops codec max_ts bs3 c
                                   | Some entry \<Rightarrow>
                                       if re_timestamp entry \<le> max_ts then
                                         count_drops codec max_ts bs3 (c\<lparr>timeline_dropped := timeline_dropped c + 1\<rparr>)
                                       else count_drops codec max_ts bs3 c)))))"
  by pat_completeness auto
termination
  by (relation "measure (\<lambda>(_, _, bs, _). length bs)") (auto dest!: stream_read_shorter)

declare count_drops.simps [simp del]

text \<open>The warnings of the loop over the snapshot, also when an exception ends it.\<close>

primrec snapshot_warnings :: "entry_codec \<Rightarrow> nat \<Rightarrow> bytes \<Rightarrow> string list" where
  "snapshot_warnings codec 0 bs = []"
| "snapshot_warnings codec (Suc n) bs =
     (case stream_read 4 bs of
        None \<Rightarrow> []
      | Some (sz, bs1) \<Rightarrow>
          if unat (u32_of_image sz) > MAX_ENTRY_SIZE then []
          else (case stream_read 4 bs1 of
                  None \<Rightarrow> []
                | Some (crc, bs2) \<Rightarrow>
                    (case stream_read (unat (u32_of_image sz)) bs2 of
                       None \<Rightarrow> []
                     | Some (buffer, bs3) \<Rightarrow>
                         if compute_crc32 buffer \<noteq> u32_of_image crc then
                           (''[Persistence] Snapshot entry CRC mismatch; skipping.'' @ [newline]) #
                           snapshot_warnings codec n bs3
                         else snapshot_warnings codec n bs3)))"

section \<open>What is printed\<close>

definition snapshot_line :: "nat \<Rightarrow> string" where
  "snapshot_line n = ''[Persistence] Snapshot recovered: '' @ to_string n @ '' entries.'' @ [newline]"

definition replay_line :: "replay_counters \<Rightarrow> string" where
  "replay_line c =
     ''[Persistence] WAL replay done. (corrupt-dropped='' @ to_string (unat (corruption_dropped c)) @
     '', stale-dropped='' @ to_string (unat (timeline_dropped c)) @ '')'' @ [newline]"

definition snapshot_output :: "entry_codec \<Rightarrow> bytes \<Rightarrow> string list \<times> string list" where
  "snapshot_output codec bs =
     (let total = unat (u32_of_image (take 4 bs));
          warnings = (if total > MAX_SNAPSHOT_RECORDS then [] else snapshot_warnings codec total (drop 4 bs))
      in ((case recover_snapshot codec bs of Inl _ \<Rightarrow> [] | Inr (entries, _) \<Rightarrow> [snapshot_line (length entries)]), warnings))"

text \<open>Standard output and standard error of \<^verbatim>\<open>recover\<close>, up to the exception where there is one.\<close>

definition recover_output ::
  "filesystem \<Rightarrow> entry_codec \<Rightarrow> PersistenceService \<Rightarrow> disk \<Rightarrow> string list \<times> string list" where
  "recover_output fs codec svc d =
     (case resolve_secure_path fs (base_dir (pconfig svc)) (snapshot_path (pconfig svc)) of
        Inl _ \<Rightarrow> ([], [])
      | Inr snap \<Rightarrow>
          (let (out, err) = (case d snap of None \<Rightarrow> ([], []) | Some bs \<Rightarrow> snapshot_output codec bs)
           in case (case d snap of None \<Rightarrow> Inr ([], 0) | Some bs \<Rightarrow> recover_snapshot codec bs) of
                Inl _ \<Rightarrow> (out, err)
              | Inr (_, max_ts) \<Rightarrow>
                  (case resolve_secure_path fs (base_dir (pconfig svc)) (wal_path (pconfig svc)) of
                     Inl _ \<Rightarrow> (out, err)
                   | Inr wal \<Rightarrow>
                       (case d wal of
                          None \<Rightarrow> (out, err)
                        | Some bs \<Rightarrow>
                            (let c = count_drops codec max_ts bs no_drops
                             in (out @ [replay_line c], err @ replay_errors c))))))"

section \<open>Counting\<close>

lemma count_framed:
  assumes "length s \<le> MAX_ENTRY_SIZE"
  shows "count_drops codec m (u32_image (word_of_nat (length s)) @ u32_image crc @ s @ rest) c =
     (if compute_crc32 s \<noteq> crc then count_drops codec m rest (c\<lparr>corruption_dropped := corruption_dropped c + 1\<rparr>)
      else case entry_parse codec s of
             None \<Rightarrow> count_drops codec m rest c
           | Some e \<Rightarrow> count_drops codec m rest
               (if re_timestamp e \<le> m then c\<lparr>timeline_dropped := timeline_dropped c + 1\<rparr> else c))"
  using assms frame_entry_small(2) [OF assms]
  by (subst count_drops.simps) (auto simp: le32.dec_enc Let_def split: option.split)

lemma count_entry:
  "storable codec e \<Longrightarrow>
   count_drops codec m (entry_frame codec e @ rest) c =
     count_drops codec m rest (if re_timestamp e \<le> m then c\<lparr>timeline_dropped := timeline_dropped c + 1\<rparr> else c)"
  by (erule storable_frame) (simp add: count_framed)

lemma count_log:
  "list_all (storable codec) es \<Longrightarrow>
   count_drops codec m (log_of codec es @ rest) c =
     count_drops codec m rest
       (c\<lparr>timeline_dropped := timeline_dropped c + word_of_nat (length (filter (\<lambda>e. re_timestamp e \<le> m) es))\<rparr>)"
  by (induction es arbitrary: c) (auto simp: count_entry algebra_simps)

text \<open>A log that ends inside an entry ends the count.\<close>

lemma count_torn:
  assumes "storable codec e" and "k < length (entry_frame codec e)"
  shows "count_drops codec m (take k (entry_frame codec e)) c = c"
  using assms by (cases rule: torn_frame) (subst count_drops.simps, simp add: Let_def)+

section \<open>Property\<close>

text \<open>
  The report of a recovery counts damage and stale entries, and leaves out what was cut off.  For
  a log with one damaged octet in the payload of an entry, intact entries around it and an
  incomplete entry at its end, exactly one corrupt entry is reported, and as many stale ones as
  there are entries at or below the highest timestamp of the snapshot, modulo the 32-bit counter;
  the incomplete entry is lost and does not appear in the report.
\<close>

theorem replay_report_exact:
  assumes "list_all (storable codec) (es @ es')" and "length (pre @ c # post) \<le> MAX_ENTRY_SIZE" and "c \<noteq> c'"
    and "storable codec e" and "k < length (entry_frame codec e)"
  shows "count_drops codec m
     (log_of codec es @
      (u32_image (word_of_nat (length (pre @ c # post))) @ u32_image (compute_crc32 (pre @ c # post)) @ pre @ c' # post) @
      log_of codec es' @ take k (entry_frame codec e)) no_drops
   = \<lparr>corruption_dropped = 1,
      timeline_dropped = word_of_nat (length (filter (\<lambda>e. re_timestamp e \<le> m) (es @ es'))), replay_errors = []\<rparr>"
proof -
  let ?bad = "pre @ c' # post"
  have len: "length (pre @ c # post) = length ?bad" by simp
  have crc: "compute_crc32 ?bad \<noteq> compute_crc32 (pre @ c # post)"
    using assms(3) crc_one_octet [of pre c' post c] by simp
  have "count_drops codec m (u32_image (word_of_nat (length ?bad)) @ u32_image (compute_crc32 (pre @ c # post)) @ ?bad @ rest) r
      = count_drops codec m rest (r\<lparr>corruption_dropped := corruption_dropped r + 1\<rparr>)" for rest r
    using count_framed [of ?bad codec m "compute_crc32 (pre @ c # post)" rest r] assms(2) crc len by simp
  then show ?thesis
    using assms(1) unfolding len by (simp add: count_log count_torn [OF assms(4,5)] no_drops_def)
qed

theorem replay_report_exact_witness:
  "count_drops sample_codec 0
     (log_of sample_codec [sample_entry ''a'' 1] @
      (u32_image (word_of_nat (length ([2 :: u8] @ 98 # []))) @ u32_image (compute_crc32 ([2] @ 98 # [])) @ [2] @ 99 # []) @
      log_of sample_codec [sample_entry ''c'' 3] @ take 1 (entry_frame sample_codec (sample_entry ''b'' 2))) no_drops
   = \<lparr>corruption_dropped = 1, timeline_dropped = word_of_nat (length (filter (\<lambda>e. re_timestamp e \<le> 0)
        ([sample_entry ''a'' 1] @ [sample_entry ''c'' 3]))), replay_errors = []\<rparr>"
proof (rule replay_report_exact)
  show "1 < length (entry_frame sample_codec (sample_entry ''b'' 2))"
    by (simp add: entry_frame_def sample_codec_def frame_entry_def le32.enc_length Let_def)
qed (simp_all add: storable_sample MAX_ENTRY_SIZE_def)

end
