(* ===== verification/Engine_Run.thy ===== *)
theory Engine_Run
  imports Engine_Main Peer_Handshake Recovery_Report "HOL-Library.Monad_Syntax"
begin

text \<open>
  \<^verbatim>\<open>src/src/beacon_engine/main.cpp\<close>, the function \<^verbatim>\<open>main\<close> as a whole: the arguments, the start of the
  components on one file system, the text it prints, and the maintenance loop, which ends only with
  \<^verbatim>\<open>--once\<close>.  The build is the full one (protobuf and networking).
\<close>

section \<open>Start\<close>

datatype startup_error = Persistence_failed recover_error | Identity_failed string

record engine =
  eng_options :: options
  eng_registry :: "disk AgentRegistry"
  eng_identity :: NodeIdentity
  eng_trust :: IdentityService
  eng_gossip :: GossipService
  eng_reputation :: ReputationEngine
  eng_hello :: string
  eng_serving :: bool

text \<open>
  The log and the identity are files of one file system.  The result of
  \<^verbatim>\<open>ensure_sodium_initialized()\<close> is not looked at.
\<close>

definition start_engine ::
  "sodium option \<Rightarrow> nat \<Rightarrow> filesystem \<Rightarrow> entry_codec \<Rightarrow> (nat \<Rightarrow> time_point) \<Rightarrow> time_point \<Rightarrow> options \<Rightarrow> files
   \<Rightarrow> (startup_error + engine) \<times> files" where
  "start_engine lib seed fs codec clock now opts f =
     (let config = opt_config opts; node = cfg_node config;
          _ = ensure_sodium_initialized lib
      in case start_registry fs codec clock now (contents f) of
           (Inl e, d) \<Rightarrow> (Inl (Persistence_failed e), f\<lparr>contents := d\<rparr>)
         | (Inr registry, d) \<Rightarrow>
             (case load_or_create lib seed fs (new_IdentityStore ''.beaconnode/identity.txt'') (cfg_node_id node)
                     (f\<lparr>contents := d\<rparr>) of
                (Inl e, f') \<Rightarrow> (Inl (Identity_failed e), f')
              | (Inr identity, f') \<Rightarrow>
                  (Inr \<lparr>eng_options = opts, eng_registry = registry, eng_identity = identity,
                        eng_trust = new_IdentityService,
                        eng_gossip = add_seeds node (opt_seed_nodes opts) (new_GossipService node (cfg_gossip config)),
                        eng_reputation = new_ReputationEngine (cfg_trust config),
                        eng_hello = encode_peer_hello
                          \<lparr>hello_node_id = cfg_node_id node, listen_port = cfg_listen_port node\<rparr>,
                        eng_serving = (\<not> opt_run_once opts)\<rparr>, f')))"

definition banner :: "engine \<Rightarrow> string" where
  "banner eng =
     (let opts = eng_options eng; config = opt_config opts; node = cfg_node config
      in ''BeaconNode engine starting'' @ nl @
         ''config: '' @ opt_config_path opts @ nl @
         ''node: '' @ cfg_node_id node @ nl @
         ''identity_public_key: '' @ identity_public_key_hex (eng_identity eng) @ nl @
         ''control: '' @ control_host node @ '':'' @ to_string (unat (control_port node)) @ nl @
         ''p2p: '' @ listen_host node @ '':'' @ to_string (unat (cfg_listen_port node)) @ nl @
         ''udp_hello: '' @ eng_hello eng @ nl @
         ''trusted_agents: '' @ to_string (trusted_agents (eng_trust eng)) @ nl @
         ''require_signatures: '' @ (if require_signatures (cfg_trust config) then ''yes'' else ''no'') @ nl)"

definition tick_text :: "tick_report \<Rightarrow> string" where
  "tick_text report =
     ''tick active_agents='' @ to_string (active_agents (tick_stats report)) @
     '' highest_revision='' @ to_string (unat (highest_revision (tick_stats report))) @
     '' gossip_push_entries='' @ to_string (tick_push report) @
     '' purged='' @ to_string (tick_purged report) @
     '' accepts_self='' @ (if tick_accepts_self report then ''1'' else ''0'') @
     '' trusted_agents='' @ to_string (tick_trusted report) @ nl @
     ''control_stats: '' @ tick_stats_line report"

section \<open>The loop\<close>

text \<open>
  Tick number \<open>k\<close> happens at \<open>instants k\<close>; between two ticks the other threads change what they share,
  which the argument \<open>others\<close> says.  A loop that does not end has no result.
\<close>

partial_function (option) main_loop ::
  "sodium option \<Rightarrow> (nat \<Rightarrow> time_point) \<Rightarrow> (nat \<Rightarrow> IdentityService \<times> disk AgentRegistry \<Rightarrow> IdentityService \<times> disk AgentRegistry)
   \<Rightarrow> disk \<Rightarrow> engine \<Rightarrow> nat \<Rightarrow> (string list \<times> engine) option" where
  "main_loop lib instants others d eng k =
     (let (report, reg) = tick lib (instants k) (opt_config (eng_options eng)) (eng_reputation eng)
            (eng_trust eng) (eng_registry eng) d
      in if opt_run_once (eng_options eng) then Some ([tick_text report], eng\<lparr>eng_registry := reg\<rparr>)
         else do {
           let (trust, reg') = others k (eng_trust eng, reg);
           (out, eng') \<leftarrow> main_loop lib instants others d (eng\<lparr>eng_registry := reg', eng_trust := trust\<rparr>) (k + 1);
           Some (tick_text report # out, eng')
         })"

text \<open>What the recovery of the registry prints on standard output.\<close>

definition startup_output :: "filesystem \<Rightarrow> entry_codec \<Rightarrow> disk \<Rightarrow> string list" where
  "startup_output fs codec d =
     (case new_PersistenceService fs default_PersistenceConfig d of
        (Some _, _, _) \<Rightarrow> []
      | (None, svc, d') \<Rightarrow>
          fst (recover_output fs codec svc d') @
          (case recover fs codec svc d' of
             Inl _ \<Rightarrow> []
           | Inr recovered \<Rightarrow>
               if recovered = [] then []
               else [''[Persistence] Recovered '' @ to_string (length recovered) @ '' entries from disk.'' @ nl]))"

text \<open>
  How \<^verbatim>\<open>main\<close> ends: early, because of its arguments; with status 0 and what it printed; with an
  uncaught exception; or never.
\<close>

datatype outcome = Early early_exit | Exit "string list" | Uncaught startup_error | Runs_forever

definition engine_main ::
  "sodium option \<Rightarrow> nat \<Rightarrow> filesystem \<Rightarrow> entry_codec \<Rightarrow> (nat \<Rightarrow> time_point) \<Rightarrow> time_point \<Rightarrow> (nat \<Rightarrow> time_point) \<Rightarrow>
   (nat \<Rightarrow> IdentityService \<times> disk AgentRegistry \<Rightarrow> IdentityService \<times> disk AgentRegistry) \<Rightarrow>
   string list \<Rightarrow> files \<Rightarrow> outcome \<times> files" where
  "engine_main lib seed fs codec clock now instants others args f =
     (case parse_args args default_options of
        Inl early \<Rightarrow> (Early early, f)
      | Inr opts \<Rightarrow>
          (case start_engine lib seed fs codec clock now opts f of
             (Inl e, f') \<Rightarrow> (Uncaught e, f')
           | (Inr eng, f') \<Rightarrow>
               (case main_loop lib instants others (contents f') eng 0 of
                  None \<Rightarrow> (Runs_forever, f')
                | Some (out, _) \<Rightarrow> (Exit (startup_output fs codec (contents f) @ banner eng # out), f'))))"

text \<open>One argument: an early return, or the loop goes on with fewer arguments.\<close>

lemma parse_args_step:
  obtains (usage) "arg = ''--help''" "parse_args (arg # rest) opts = Inl \<lparr>exit_status = 0, exit_stdout = print_usage, exit_stderr = []\<rparr>"
  | (unknown) "parse_args (arg # rest) opts = Inl (unknown_argument arg)"
  | (port) which where "parse_args (arg # rest) opts = Inl (invalid_port which)"
  | (more) rest' opts' where "parse_args (arg # rest) opts = parse_args rest' opts'"
      "length rest' \<le> length rest" "set rest' \<subseteq> set rest"
      "opt_run_once opts' \<Longrightarrow> opt_run_once opts \<or> arg = ''--once''"
proof -
  have keep: "opt_run_once (set_node g opts) = opt_run_once opts" for g by (simp add: set_node_def)
  consider "arg = ''--help''" | "arg = ''--once''" | "arg = ''--require-signatures''"
    | "arg \<noteq> ''--help''" "arg \<noteq> ''--once''" "arg \<noteq> ''--require-signatures''" by blast
  then show ?thesis
  proof cases
    case other: 4
    show ?thesis
    proof (cases rest)
      case Nil
      then show ?thesis using other by (intro unknown) simp
    next
      case (Cons val rest')
      have short: "length rest' \<le> length rest" "set rest' \<subseteq> set rest" using Cons by auto
      have go: thesis if "parse_args (arg # rest) opts = parse_args rest' opts'" "opt_run_once opts' = opt_run_once opts" for opts'
        by (rule more [OF that(1) short]) (simp add: that(2))
      note step = parse_args.simps(2) [of arg rest opts, unfolded Cons list.case]
      consider "arg = ''--config''" | "arg = ''--node-id''" | "arg = ''--listen-port''" | "arg = ''--control-port''"
        | "arg = ''--seed-node''"
        | "arg \<notin> {''--config'', ''--node-id'', ''--listen-port'', ''--control-port'', ''--seed-node''}" by auto
      then show ?thesis
      proof cases
        case 1
        then show ?thesis by (intro go [of "opts\<lparr>opt_config_path := val\<rparr>"]) (simp_all add: step Cons)
      next
        case 2
        then show ?thesis
          by (intro go [of "set_node (\<lambda>n. n\<lparr>cfg_node_id := val\<rparr>) opts"]) (simp_all add: step Cons keep)
      next
        case 3
        then show ?thesis
          using go port [of "''listen''"] by (cases "fst (parse_port val (cfg_listen_port (cfg_node (opt_config opts))))")
            (simp_all add: step Cons keep case_prod_unfold)
      next
        case 4
        then show ?thesis
          using go port [of "''control''"] by (cases "fst (parse_port val (control_port (cfg_node (opt_config opts))))")
            (simp_all add: step Cons keep case_prod_unfold)
      next
        case 5
        then show ?thesis
          by (intro go [of "opts\<lparr>opt_seed_nodes := opt_seed_nodes opts @ [val]\<rparr>"]) (simp_all add: step Cons)
      next
        case 6
        then show ?thesis using other by (intro unknown) (simp add: step Cons)
      qed
    qed
  next
    case 1
    then show ?thesis by (intro usage) simp_all
  next
    case 2
    then show ?thesis by (intro more [of rest "opts\<lparr>opt_run_once := True\<rparr>"]) simp_all
  next
    case 3
    then show ?thesis
      by (intro more [of rest "opts\<lparr>opt_config := (opt_config opts)\<lparr>cfg_trust :=
          (cfg_trust (opt_config opts))\<lparr>require_signatures := True\<rparr>\<rparr>\<rparr>"]) simp_all
  qed
qed

lemma parse_args_early:
  "parse_args args opts = Inl e \<Longrightarrow>
   exit_status e = 0 \<and> exit_stdout e = print_usage \<and> exit_stderr e = [] \<and> ''--help'' \<in> set args \<or>
   exit_status e = 2 \<and> exit_stderr e \<noteq> []"
proof (induction args arbitrary: opts rule: length_induct)
  case (1 args)
  show ?case
  proof (cases args)
    case (Cons arg rest)
    show ?thesis
    proof (cases rule: parse_args_step [of arg rest opts])
      case (more rest' o1)
      then have "parse_args rest' o1 = Inl e" "length rest' < length args" using "1.prems" by (simp_all add: Cons del: parse_args.simps)
      with "1.IH" have "exit_status e = 0 \<and> exit_stdout e = print_usage \<and> exit_stderr e = [] \<and> ''--help'' \<in> set rest' \<or>
          exit_status e = 2 \<and> exit_stderr e \<noteq> []" by blast
      with more(3) show ?thesis unfolding Cons set_simps by blast
    qed (use "1.prems" in \<open>auto simp: Cons unknown_argument_def invalid_port_def simp del: parse_args.simps\<close>)
  qed (use "1.prems" in simp)
qed

lemma parse_args_once:
  "\<lbrakk>parse_args args opts = Inr opts'; opt_run_once opts'\<rbrakk> \<Longrightarrow> opt_run_once opts \<or> ''--once'' \<in> set args"
proof (induction args arbitrary: opts rule: length_induct)
  case (1 args)
  show ?case
  proof (cases args)
    case (Cons arg rest)
    show ?thesis
    proof (cases rule: parse_args_step [of arg rest opts])
      case (more rest' o1)
      then have "parse_args rest' o1 = Inr opts'" "length rest' < length args" using "1.prems"(1) by (simp_all add: Cons del: parse_args.simps)
      with "1.IH" "1.prems"(2) have "opt_run_once o1 \<or> ''--once'' \<in> set rest'" by blast
      with more(3,4) show ?thesis by (auto simp: Cons)
    qed (use "1.prems"(1) in \<open>simp_all add: Cons del: parse_args.simps\<close>)
  qed (use "1.prems" in simp)
qed

section \<open>The end of the loop\<close>

lemma main_loop_once:
  "opt_run_once (eng_options eng) \<Longrightarrow>
   main_loop lib instants others d eng k =
     (case tick lib (instants k) (opt_config (eng_options eng)) (eng_reputation eng) (eng_trust eng)
             (eng_registry eng) d of
        (report, reg) \<Rightarrow> Some ([tick_text report], eng\<lparr>eng_registry := reg\<rparr>))"
  by (simp add: main_loop.simps)

lemma main_loop_returns_once:
  assumes "main_loop lib instants others d eng k = Some y"
  shows "opt_run_once (eng_options eng)"
  by (rule main_loop.raw_induct [where P = "\<lambda>lib instants others d eng k y. opt_run_once (eng_options eng)", OF _ assms])
    (fastforce simp: Let_def bind_eq_Some_conv split: if_splits prod.splits)

section \<open>Leases after a restart\<close>

text \<open>An agent that is known keeps its record or gets one of the later ones unchanged.\<close>

lemma load_records_known:
  "lookup rs aid = Some e \<Longrightarrow>
   lookup (load_records t new rs) aid = Some e \<or>
   (\<exists>r\<in>set new. agent_id r = aid \<and> lookup (load_records t new rs) aid = Some r)"
proof (induction t new rs arbitrary: e rule: load_records.induct)
  case (2 t q new rs)
  let ?rs = "case find_agent (agent_id q) rs of
      None \<Rightarrow> rs @ [q\<lparr>expires_at := t\<rparr>]
    | Some i \<Rightarrow> if revision q > revision (rs ! i)
        then (rs[i := (rs ! i)\<lparr>expires_at := t\<rparr>])[i := q] else rs"
  have "lookup ?rs aid = Some e \<or> agent_id q = aid \<and> lookup ?rs aid = Some q"
    using "2.prems" by (auto simp: lookup_append lookup_update split: option.splits if_splits)
  then show ?case using "2.IH" by fastforce
qed simp

lemma load_records_updated:
  assumes "lookup rs aid = Some e" and "r' \<in> set new" and "agent_id r' = aid" and "revision e < revision r'"
  shows "\<exists>r\<in>set new. agent_id r = aid \<and> lookup (load_records t new rs) aid = Some r"
proof -
  obtain e' where "lookup (load_records t new rs) aid = Some e'" "revision r' \<le> revision e'"
    using load_records_covers [OF assms(2), of t rs] assms(3) by auto
  then have "lookup (load_records t new rs) aid \<noteq> Some e" using assms(4) by auto
  with load_records_known [OF assms(1), of t new] show ?thesis by blast
qed

lemma load_records_append: "load_records t (xs @ ys) rs = load_records t ys (load_records t xs rs)"
  by (induction t xs rs rule: load_records.induct) simp_all

lemma restored_update_raw:
  assumes "aid \<notin> agent_id ` set before" and "agent_id r = aid"
    and "r' \<in> set after" and "agent_id r' = aid" and "revision r < revision r'"
  shows "\<exists>q\<in>set after. lookup (load_records t (before @ r # after) []) aid = Some q"
proof -
  let ?b = "load_records t before []"
  have b: "lookup ?b aid = None"
  proof (rule ccontr)
    assume "lookup ?b aid \<noteq> None"
    then obtain e where "lookup ?b aid = Some e" by blast
    from load_records_lookup_cases [OF this] assms(1) show False by auto
  qed
  then have "find_agent aid ?b = None" by (simp add: lookup_def split: option.splits)
  then have "load_records t (before @ r # after) [] = load_records t after (?b @ [r\<lparr>expires_at := t\<rparr>])"
    by (simp add: load_records_append assms(2))
  moreover have "lookup (?b @ [r\<lparr>expires_at := t\<rparr>]) aid = Some (r\<lparr>expires_at := t\<rparr>)"
    using b assms(2) by (simp add: lookup_append)
  ultimately show ?thesis using load_records_updated [OF _ assms(3,4)] assms(5) by fastforce
qed

lemma restore_records_append:
  "restore_records clock (xs @ ys) = restore_records clock xs @ restore_records (\<lambda>i. clock (i + length xs)) ys"
  by (rule nth_equalityI) (auto simp: restore_records_def nth_append nth_enumerate_eq)

text \<open>A codec that knows two entries.\<close>

definition pair_codec :: "RegistryEntry \<Rightarrow> RegistryEntry \<Rightarrow> entry_codec" where
  "pair_codec e e' =
     \<lparr>entry_serialize = (\<lambda>x. Some [if x = e then 1 else 2]),
      entry_parse = (\<lambda>bs. Some (if bs = [1] then e else e'))\<rparr>"

lemma storable_pair: "e \<noteq> e' \<Longrightarrow> storable (pair_codec e e') e \<and> storable (pair_codec e e') e'"
  by (auto simp: storable_def pair_codec_def MAX_ENTRY_SIZE_def)

text \<open>The files that a start may create: the log, and the identity with its key where there is none.\<close>

definition may_create :: "filesystem \<Rightarrow> files \<Rightarrow> string \<Rightarrow> bool" where
  "may_create fs f p \<longleftrightarrow>
     resolve_secure_path fs (base_dir default_PersistenceConfig) (wal_path default_PersistenceConfig) = Inr p \<and>
       contents f p = None \<or>
     (\<exists>c. store_config fs (new_IdentityStore ''.beaconnode/identity.txt'') = Inr c \<and> contents f c = None \<and>
        p \<in> {c, c @ ''.key''})"

lemma start_registry_files:
  "snd (start_registry fs codec clock now d) p \<noteq> d p \<Longrightarrow>
   resolve_secure_path fs (base_dir default_PersistenceConfig) (wal_path default_PersistenceConfig) = Inr p \<and> d p = None"
  by (auto simp: start_registry_def new_PersistenceService_def open_wal_def Let_def
      split: sum.splits if_splits option.splits)

lemma load_or_create_files:
  "contents (snd (load_or_create lib seed fs st node f)) p \<noteq> contents f p \<Longrightarrow>
   \<exists>c. store_config fs st = Inr c \<and> contents f c = None \<and> p \<in> {c, c @ ''.key''}"
  by (auto simp: load_or_create_def store_config_def write_file_def restrict_file_permissions_def Let_def
      split: sum.splits if_splits option.splits)

lemma start_engine_files:
  assumes "contents (snd (start_engine lib seed fs codec clock now opts f)) p \<noteq> contents f p"
  shows "may_create fs f p"
proof -
  obtain x d where r: "start_registry fs codec clock now (contents f) = (x, d)" by fastforce
  note log = start_registry_files [of fs codec clock now "contents f", unfolded r snd_conv]
  show ?thesis
  proof (cases "d p = contents f p")
    case False
    with log show ?thesis by (simp add: may_create_def)
  next
    case True
    then obtain reg where x: "x = Inr reg"
      using assms r by (cases x) (simp_all add: start_engine_def Let_def)
    let ?l = "load_or_create lib seed fs (new_IdentityStore ''.beaconnode/identity.txt'') (cfg_node_id (cfg_node (opt_config opts)))
      (f\<lparr>contents := d\<rparr>)"
    have "contents (snd (start_engine lib seed fs codec clock now opts f)) = contents (snd ?l)"
      using r x by (auto simp: start_engine_def Let_def split: sum.splits prod.splits)
    then have "contents (snd ?l) p \<noteq> contents (f\<lparr>contents := d\<rparr>) p" using assms True by simp
    from load_or_create_files [OF this] obtain c where c: "store_config fs (new_IdentityStore ''.beaconnode/identity.txt'') = Inr c"
      "d c = None" "p \<in> {c, c @ ''.key''}" by auto
    moreover have "contents f c = None" using log [of c] c(2) by (cases "contents f c") auto
    ultimately show ?thesis by (auto simp: may_create_def)
  qed
qed

section \<open>Properties\<close>

text \<open>
  Property C32: how the program ends, for all arguments.  It returns early exactly where its arguments say
  so, with status 0 and the usage text only where \<^verbatim>\<open>--help\<close> was given, or with status 2 and a message on
  standard error, and then touches no file.  Past its arguments it ends with an exception exactly
  where a component cannot be started.  A program that has started runs for ever, unless \<^verbatim>\<open>--once\<close> was
  given: then it returns with status 0, after printing the report of the recovery, the banner of the
  engine it has started, and the figures of one tick, in which the purged and the remaining agents
  are those of the recovered registry whose lease has and has not run out.  The files it has changed
  by then are at most the log, which it creates where there is none, and the two files of the
  identity where there is no configuration.
\<close>

theorem engine_outcomes:
  "case engine_main lib seed fs codec clock now instants others args f of (result, f') \<Rightarrow>
     (case parse_args args default_options of
        Inl e \<Rightarrow> result = Early e \<and> f' = f \<and>
          (exit_status e = 0 \<and> exit_stdout e = print_usage \<and> exit_stderr e = [] \<and> ''--help'' \<in> set args \<or>
           exit_status e = 2 \<and> exit_stderr e \<noteq> [])
      | Inr opts \<Rightarrow>
          (\<forall>p. contents f' p \<noteq> contents f p \<longrightarrow> may_create fs f p) \<and> (opt_run_once opts \<longrightarrow> ''--once'' \<in> set args) \<and>
          (case start_engine lib seed fs codec clock now opts f of
             (Inl e, f1) \<Rightarrow> result = Uncaught e \<and> f' = f1
           | (Inr eng, f1) \<Rightarrow> f' = f1 \<and>
               (if opt_run_once opts
                then \<exists>report. result = Exit (startup_output fs codec (contents f) @ [banner eng, tick_text report]) \<and>
                  tick_purged report = length (filter (\<lambda>r. expires_at r \<le> instants 0) (records (eng_registry eng))) \<and>
                  active_agents (tick_stats report) = length (filter (\<lambda>r. instants 0 < expires_at r) (records (eng_registry eng))) \<and>
                  tick_trusted report = 0
                else result = Runs_forever)))"
proof (cases "parse_args args default_options")
  case (Inl e)
  then show ?thesis using parse_args_early [OF Inl] by (simp add: engine_main_def)
next
  case (Inr opts)
  obtain r f1 where s: "start_engine lib seed fs codec clock now opts f = (r, f1)" by fastforce
  have files: "\<forall>p. contents f1 p \<noteq> contents f p \<longrightarrow> may_create fs f p"
    using start_engine_files [of lib seed fs codec clock now opts f] s by simp
  have once: "opt_run_once opts \<longrightarrow> ''--once'' \<in> set args"
    using parse_args_once [OF Inr] by (auto simp: default_options_def)
  show ?thesis
  proof (cases r)
    case (Inl e)
    then show ?thesis using Inr s files once by (simp add: engine_main_def)
  next
    case r: (Inr eng)
    have eng: "eng_options eng = opts" "eng_trust eng = new_IdentityService"
      using s r by (auto simp: start_engine_def Let_def split: sum.splits prod.splits)
    show ?thesis
    proof (cases "opt_run_once opts")
      case True
      let ?t = "tick lib (instants 0) (opt_config opts) (eng_reputation eng) (eng_trust eng) (eng_registry eng) (contents f1)"
      have loop: "main_loop lib instants others (contents f1) eng 0 =
          Some ([tick_text (fst ?t)], eng\<lparr>eng_registry := snd ?t\<rparr>)"
        using main_loop_once [of eng] True eng(1) by (simp add: case_prod_unfold)
      have "tick_purged (fst ?t) = length (filter (\<lambda>r. expires_at r \<le> instants 0) (records (eng_registry eng)))"
        "active_agents (tick_stats (fst ?t)) = length (filter (\<lambda>r. instants 0 < expires_at r) (records (eng_registry eng)))"
        "tick_trusted (fst ?t) = 0"
        by (simp_all add: tick_alt fst_purge_expired records_purge_expired stats_def eng(2) trusted_agents_def
            new_IdentityService_def omap_size_def)
      then show ?thesis using Inr s r True files once loop by (auto simp: engine_main_def)
    next
      case False
      then have "main_loop lib instants others (contents f1) eng 0 = None"
        using main_loop_returns_once eng(1) by (metis not_Some_eq)
      then show ?thesis using Inr s r False files by (simp add: engine_main_def)
    qed
  qed
qed

theorem engine_outcomes_witness:
  "let f = \<lparr>contents = Map.empty, mode = (\<lambda>_. 0), umask_mode = 420\<rparr>
   in engine_main None 0 plain_fs sample_codec (\<lambda>_. 0) 0 (\<lambda>_. 0) (\<lambda>_ x. x) [''--once'', ''--help''] f =
        (Early \<lparr>exit_status = 0, exit_stdout = print_usage, exit_stderr = []\<rparr>, f)"
  using engine_outcomes [where lib = None and seed = 0 and fs = plain_fs and codec = sample_codec and clock = "\<lambda>_. 0"
      and now = 0 and instants = "\<lambda>_. 0" and others = "\<lambda>_ x. x" and args = "[''--once'', ''--help'']"
      and f = "\<lparr>contents = Map.empty, mode = (\<lambda>_. 0), umask_mode = 420\<rparr>"]
  unfolding Let_def by (auto split: prod.splits)

text \<open>
  Property C31: \<^verbatim>\<open>main\<close> returns exactly when it is asked to: an engine that has started ends its
  maintenance loop when it was given \<^verbatim>\<open>--once\<close>, after one tick, and otherwise never.
\<close>

theorem main_loop_terminates_iff_once:
  "(case main_loop lib instants others d eng k of
      None \<Rightarrow> \<not> opt_run_once (eng_options eng)
    | Some (out, eng') \<Rightarrow>
        opt_run_once (eng_options eng) \<and> length out = 1 \<and>
        records (eng_registry eng') =
          filter (\<lambda>r. instants k < expires_at r) (records (eng_registry eng)))"
proof (cases "opt_run_once (eng_options eng)")
  case True
  then show ?thesis
    by (simp add: main_loop_once tick_alt records_purge_expired)
next
  case False
  then have "main_loop lib instants others d eng k = None"
    using main_loop_returns_once by (metis not_None_eq)
  with False show ?thesis by simp
qed



text \<open>
  Purging is not remembered.  An agent that registered once and whose record a tick
  purged because its lease had run out is back after the next restart, with the same node,
  endpoint, revision, key and signature and a lease of a year.
\<close>

theorem purged_agents_return:
  assumes "ready fs (engine_service wal) snap wal" and "can_open fs wal" and "d snap = None" and "d wal = None"
    and "canonical_hex r" and "0 < revision r" and "storable codec (entry_of_record r)" and "expires_at r \<le> t"
  shows "case start_registry fs codec clock now d of (Inl _, _) \<Rightarrow> False | (Inr reg0, d0) \<Rightarrow>
     (case upsert r reg0 d0 of (ok, reg1, d1) \<Rightarrow>
        ok \<and> find_record (agent_id r) (snd (tick lib t config reputation identity reg1 d1)) = None \<and>
        (case start_registry fs codec clock' now' d1 of (Inl _, _) \<Rightarrow> False | (Inr reg2, _) \<Rightarrow>
           (case find_record (agent_id r) reg2 of None \<Rightarrow> False | Some q \<Rightarrow>
              persistent_part q = persistent_part r \<and> expires_at q = now' + hours (24 * 365))))"
proof -
  let ?cb = "persist_record codec (engine_service wal)" and ?log = "log_of codec [entry_of_record r]"
  have start: "start_registry fs codec clock now d =
      (Inr \<lparr>records = [], on_upsert = Some ?cb\<rparr>, d(wal \<mapsto> []))"
    using start_registry_ready [of fs wal snap d codec "[]"] assms(1-4)
    by (simp add: load_from_persistence_def restore_records_def set_upsert_callback_def
        new_AgentRegistry_def Let_def)
  have "?cb r (d(wal \<mapsto> [])) = d(wal \<mapsto> ?log)"
    using logged_upserts [of codec "[r]" "d(wal \<mapsto> [])" wal "[]"] assms(7) by simp
  then have up: "upsert r \<lparr>records = [], on_upsert = Some ?cb\<rparr> (d(wal \<mapsto> [])) =
      (True, \<lparr>records = [r], on_upsert = Some ?cb\<rparr>, d(wal \<mapsto> ?log))"
    by (simp add: upsert_def upsert_records_def notify_upsert_def)
  have "(d(wal \<mapsto> ?log)) snap = None" using assms(1,3) by (auto simp: ready_def)
  then have restart: "start_registry fs codec clock' now' (d(wal \<mapsto> ?log)) =
      (Inr (set_upsert_callback (Some ?cb)
         (load_from_persistence now' (restore_records clock' [entry_of_record r]) new_AgentRegistry)), d(wal \<mapsto> ?log))"
    using start_registry_ready [of fs wal snap "d(wal \<mapsto> ?log)" codec "[entry_of_record r]"] assms(1,2,6,7)
    by (simp add: entry_of_record_def)
  have "persistent_part ((record_of_entry t0 (entry_of_record r))\<lparr>expires_at := x\<rparr>) = persistent_part r" for t0 x
    using persistent_part_restored [of t0 r] restored_part_canonical [OF assms(5)] by (simp add: persistent_part_def)
  then show ?thesis
    using assms(8)
    by (simp add: start up restart [simplified] tick_alt records_purge_expired find_record_lookup set_upsert_callback_def
        load_from_persistence_def restore_records_def new_AgentRegistry_def Let_def)
qed

theorem purged_agents_return_witness:
  "case start_registry plain_fs (echo_codec (entry_of_record (sample_record ''a'' 1 0))) (\<lambda>_. 0) 0 Map.empty of
     (Inl _, _) \<Rightarrow> False
   | (Inr reg0, d0) \<Rightarrow>
       (case upsert (sample_record ''a'' 1 0) reg0 d0 of (ok, reg1, d1) \<Rightarrow>
          find_record ''a'' (snd (tick None 5 default_config (new_ReputationEngine default_TrustConfig)
            new_IdentityService reg1 d1)) = None)"
proof -
  let ?r = "sample_record ''a'' 1 0"
  have ids: "agent_id ?r = ''a''" "0 < revision ?r" "expires_at ?r \<le> 5" by (simp_all add: sample_record_def)
  have op: "can_open plain_fs ''./registry.wal''" by (simp add: plain_fs_def)
  show ?thesis
    using purged_agents_return [OF ready_engine_sample op _ _ canonical_hex_unsigned [of "''a''" 1 0] ids(2) storable_echo ids(3),
        where d = Map.empty and clock = "\<lambda>_. 0" and now = 0 and lib = None and config = default_config
          and reputation = "new_ReputationEngine default_TrustConfig" and identity = new_IdentityService]
    unfolding ids(1) by (auto split: prod.splits sum.splits)
qed

text \<open>
  Registrations at revision zero, which is what a registration line without a revision asks
  for, are accepted, stored and written to the log, and gone after the next restart: replay takes the
  revision for a timestamp and drops every entry that is not above the highest of the snapshot, which
  is zero when there is none.
\<close>

theorem revision_zero_lost:
  assumes "ready fs (engine_service wal) snap wal" and "can_open fs wal" and "d snap = None" and "d wal = None"
    and "revision r = 0" and "storable codec (entry_of_record r)"
  shows "case start_registry fs codec clock now d of (Inl _, _) \<Rightarrow> False | (Inr reg0, d0) \<Rightarrow>
     (case upsert r reg0 d0 of (ok, reg1, d1) \<Rightarrow>
        ok \<and> find_record (agent_id r) reg1 = Some r \<and> d1 wal = Some (log_of codec [entry_of_record r]) \<and>
        (case start_registry fs codec clock' now' d1 of (Inl _, _) \<Rightarrow> False | (Inr reg2, _) \<Rightarrow> records reg2 = []))"
proof -
  let ?cb = "persist_record codec (engine_service wal)" and ?log = "log_of codec [entry_of_record r]"
  have start: "start_registry fs codec clock now d =
      (Inr \<lparr>records = [], on_upsert = Some ?cb\<rparr>, d(wal \<mapsto> []))"
    using start_registry_ready [of fs wal snap d codec "[]"] assms(1-4)
    by (simp add: load_from_persistence_def restore_records_def set_upsert_callback_def
        new_AgentRegistry_def Let_def)
  have "?cb r (d(wal \<mapsto> [])) = d(wal \<mapsto> ?log)"
    using logged_upserts [of codec "[r]" "d(wal \<mapsto> [])" wal "[]"] assms(6) by simp
  then have up: "upsert r \<lparr>records = [], on_upsert = Some ?cb\<rparr> (d(wal \<mapsto> [])) =
      (True, \<lparr>records = [r], on_upsert = Some ?cb\<rparr>, d(wal \<mapsto> ?log))"
    by (simp add: upsert_def upsert_records_def notify_upsert_def)
  have "(d(wal \<mapsto> ?log)) snap = None" using assms(1,3) by (auto simp: ready_def)
  moreover have "replay_wal codec 0 ?log [] = []"
    using replay_all [of codec "[entry_of_record r]" 0 "[]"] assms(5,6) by (simp add: entry_of_record_def)
  ultimately have restart: "start_registry fs codec clock' now' (d(wal \<mapsto> ?log)) =
      (Inr \<lparr>records = [], on_upsert = Some ?cb\<rparr>, d(wal \<mapsto> ?log))"
    using start_registry_replays [of fs wal snap "d(wal \<mapsto> ?log)" ?log codec clock' now'] assms(1,2)
    by (simp add: load_from_persistence_def restore_records_def set_upsert_callback_def new_AgentRegistry_def Let_def)
  show ?thesis
    by (simp add: start up restart [simplified] find_record_lookup)
qed

theorem revision_zero_lost_witness:
  "case start_registry plain_fs (echo_codec (entry_of_record (sample_record ''a'' 0 0))) (\<lambda>_. 0) 0 Map.empty of
     (Inl _, _) \<Rightarrow> False
   | (Inr reg0, d0) \<Rightarrow>
       (case upsert (sample_record ''a'' 0 0) reg0 d0 of (ok, reg1, d1) \<Rightarrow>
          find_record ''a'' reg1 = Some (sample_record ''a'' 0 0))"
proof -
  let ?r = "sample_record ''a'' 0 0"
  have ids: "agent_id ?r = ''a''" "revision ?r = 0" by (simp_all add: sample_record_def)
  have op: "can_open plain_fs ''./registry.wal''" by (simp add: plain_fs_def)
  show ?thesis
    using revision_zero_lost [OF ready_engine_sample op _ _ ids(2) storable_echo,
        where d = Map.empty and clock = "\<lambda>_. 0" and now = 0]
    unfolding ids(1) by (auto split: prod.splits sum.splits)
qed

end
