(* ===== verification/Thread_Programs.thy ===== *)
theory Thread_Programs
  imports Engine_Main Control_Server Udp_Handshake
begin

text \<open>
  The work of the engine's threads as sequences of atomic steps.  The registry, the identity service
  and the persistence service each have their own mutex, so a handler such as
  \<^verbatim>\<open>ControlProtocol::handle_line\<close> is not atomic: it takes and releases one lock after the other, and
  other threads run in between.  A program is the tree of the locked sections that a handler still
  has to run; each node carries what is done under the lock and how the handler goes on with the
  answer.  Run alone, a program computes exactly what the handler of the sequential model computes.
\<close>

section \<open>Programs\<close>

datatype 'a prog =
    Return 'a
  | Upsert_locked AgentRecord "bool \<Rightarrow> 'a prog"
  | Call_on_upsert AgentRecord "'a prog"
  | Refresh_heartbeat string time_point u64 "bool \<Rightarrow> 'a prog"
  | Purge_expired time_point "nat \<Rightarrow> 'a prog"
  | Read_stats "RegistryStats \<Rightarrow> 'a prog"
  | Read_list "AgentRecord list \<Rightarrow> 'a prog"
  | Read_after u64 u64 "AgentRecord list \<Rightarrow> 'a prog"
  | Verify_and_register AgentRecord "SignatureStatus \<Rightarrow> 'a prog"
  | Count_trusted "nat \<Rightarrow> 'a prog"
  | Send_tcp SyncPeer string "exchange \<Rightarrow> 'a prog"
  | Send_udp string u16 string "'a prog"

text \<open>What the threads share, and the network they all see.\<close>

record ('e, 'w) shared =
  sh_identity :: IdentityService
  sh_registry :: "'e AgentRegistry"
  sh_env :: 'e
  sh_world :: 'w

record 'w surroundings =
  sur_sodium :: "sodium option"
  sur_protobuf :: "protobuf option"
  sur_net :: "'w transport"
  sur_udp :: "string \<Rightarrow> u16 \<Rightarrow> string \<Rightarrow> 'w \<Rightarrow> 'w"

text \<open>The first locked section of a program; a finished program stays as it is.\<close>

definition perform :: "'w surroundings \<Rightarrow> 'a prog \<Rightarrow> ('e, 'w) shared \<Rightarrow> 'a prog \<times> ('e, 'w) shared" where
  "perform sur p s =
     (case p of
        Return v \<Rightarrow> (p, s)
      | Upsert_locked r k \<Rightarrow>
          (let (ok, rs) = upsert_records r (records (sh_registry s))
           in (k ok, s\<lparr>sh_registry := (sh_registry s)\<lparr>records := rs\<rparr>\<rparr>))
      | Call_on_upsert r q \<Rightarrow> (q, s\<lparr>sh_env := notify_upsert r (sh_registry s) (sh_env s)\<rparr>)
      | Refresh_heartbeat aid t n k \<Rightarrow>
          (let (ok, reg) = refresh_heartbeat aid t n (sh_registry s) in (k ok, s\<lparr>sh_registry := reg\<rparr>))
      | Purge_expired t k \<Rightarrow>
          (let (n, reg) = purge_expired t (sh_registry s) in (k n, s\<lparr>sh_registry := reg\<rparr>))
      | Read_stats k \<Rightarrow> (k (stats (sh_registry s)), s)
      | Read_list k \<Rightarrow> (k (list_records (sh_registry s)), s)
      | Read_after n l k \<Rightarrow> (k (entries_after_revision n l (sh_registry s)), s)
      | Verify_and_register r k \<Rightarrow>
          (let (status, svc) = verify_and_register (sur_sodium sur) r (sh_identity s)
           in (k status, s\<lparr>sh_identity := svc\<rparr>))
      | Count_trusted k \<Rightarrow> (k (trusted_agents (sh_identity s)), s)
      | Send_tcp peer text k \<Rightarrow>
          (let (x, w) = sur_net sur peer text (sh_world s) in (k x, s\<lparr>sh_world := w\<rparr>))
      | Send_udp host port text q \<Rightarrow> (q, s\<lparr>sh_world := sur_udp sur host port text (sh_world s)\<rparr>))"

text \<open>All of a program without interference.\<close>

primrec run_alone :: "'w surroundings \<Rightarrow> 'a prog \<Rightarrow> ('e, 'w) shared \<Rightarrow> 'a \<times> ('e, 'w) shared" where
  "run_alone sur (Return v) s = (v, s)"
| "run_alone sur (Upsert_locked r k) s =
     (let (ok, rs) = upsert_records r (records (sh_registry s))
      in run_alone sur (k ok) (s\<lparr>sh_registry := (sh_registry s)\<lparr>records := rs\<rparr>\<rparr>))"
| "run_alone sur (Call_on_upsert r q) s =
     run_alone sur q (s\<lparr>sh_env := notify_upsert r (sh_registry s) (sh_env s)\<rparr>)"
| "run_alone sur (Refresh_heartbeat aid t n k) s =
     (let (ok, reg) = refresh_heartbeat aid t n (sh_registry s) in run_alone sur (k ok) (s\<lparr>sh_registry := reg\<rparr>))"
| "run_alone sur (Purge_expired t k) s =
     (let (n, reg) = purge_expired t (sh_registry s) in run_alone sur (k n) (s\<lparr>sh_registry := reg\<rparr>))"
| "run_alone sur (Read_stats k) s = run_alone sur (k (stats (sh_registry s))) s"
| "run_alone sur (Read_list k) s = run_alone sur (k (list_records (sh_registry s))) s"
| "run_alone sur (Read_after n l k) s = run_alone sur (k (entries_after_revision n l (sh_registry s))) s"
| "run_alone sur (Verify_and_register r k) s =
     (let (status, svc) = verify_and_register (sur_sodium sur) r (sh_identity s)
      in run_alone sur (k status) (s\<lparr>sh_identity := svc\<rparr>))"
| "run_alone sur (Count_trusted k) s = run_alone sur (k (trusted_agents (sh_identity s))) s"
| "run_alone sur (Send_tcp peer text k) s =
     (let (x, w) = sur_net sur peer text (sh_world s) in run_alone sur (k x) (s\<lparr>sh_world := w\<rparr>))"
| "run_alone sur (Send_udp host port text q) s =
     run_alone sur q (s\<lparr>sh_world := sur_udp sur host port text (sh_world s)\<rparr>)"

primrec and_then :: "'a prog \<Rightarrow> ('a \<Rightarrow> 'b prog) \<Rightarrow> 'b prog" where
  "and_then (Return v) f = f v"
| "and_then (Upsert_locked r k) f = Upsert_locked r (\<lambda>x. and_then (k x) f)"
| "and_then (Call_on_upsert r q) f = Call_on_upsert r (and_then q f)"
| "and_then (Refresh_heartbeat aid t n k) f = Refresh_heartbeat aid t n (\<lambda>x. and_then (k x) f)"
| "and_then (Purge_expired t k) f = Purge_expired t (\<lambda>x. and_then (k x) f)"
| "and_then (Read_stats k) f = Read_stats (\<lambda>x. and_then (k x) f)"
| "and_then (Read_list k) f = Read_list (\<lambda>x. and_then (k x) f)"
| "and_then (Read_after n l k) f = Read_after n l (\<lambda>x. and_then (k x) f)"
| "and_then (Verify_and_register r k) f = Verify_and_register r (\<lambda>x. and_then (k x) f)"
| "and_then (Count_trusted k) f = Count_trusted (\<lambda>x. and_then (k x) f)"
| "and_then (Send_tcp peer text k) f = Send_tcp peer text (\<lambda>x. and_then (k x) f)"
| "and_then (Send_udp host port text q) f = Send_udp host port text (and_then q f)"

lemma run_alone_perform:
  "run_alone sur p s = (case perform sur p s of (p', s') \<Rightarrow> run_alone sur p' s')"
  by (cases p) (simp_all add: perform_def case_prod_unfold Let_def)

text \<open>Induction along the execution of a program.\<close>

lemma prog_step_induct:
  fixes sur :: "'w surroundings" and P :: "'a prog \<Rightarrow> bool"
  assumes "\<And>v. P (Return v)" and "\<And>p. (\<And>s :: ('e, 'w) shared. P (fst (perform sur p s))) \<Longrightarrow> P p"
  shows "P p"
  by (induction p) (rule assms(1), (rule assms(2), simp add: perform_def case_prod_unfold Let_def)+)

lemma run_alone_and_then:
  "run_alone sur (and_then p f) s = (case run_alone sur p s of (v, s') \<Rightarrow> run_alone sur (f v) s')"
  by (induction p arbitrary: s) (simp_all add: case_prod_unfold Let_def)

section \<open>The handlers\<close>

definition upsert_prog :: "AgentRecord \<Rightarrow> bool prog" where
  "upsert_prog r = Upsert_locked r (\<lambda>ok. if ok then Call_on_upsert r (Return True) else Return False)"

text \<open>\<^verbatim>\<open>register_identity\<close>, then the rest.\<close>

definition register_identity_prog :: "AgentRecord \<Rightarrow> 'a prog \<Rightarrow> 'a prog" where
  "register_identity_prog r q =
     (if public_key_hex r = [] then q else Verify_and_register r (\<lambda>_. q))"

definition registration_prog :: "sodium option \<Rightarrow> ControlProtocol \<Rightarrow> string \<Rightarrow> AgentRecord \<Rightarrow> string prog" where
  "registration_prog lib proto done_word r =
     (case signature_rejection (proto_trust proto) (verify_agent_signature lib r) of
        Some reply \<Rightarrow> Return reply
      | None \<Rightarrow>
          and_then (upsert_prog r) (\<lambda>accepted.
            if accepted then register_identity_prog r (Return (''OK message='' @ done_word @ nl))
            else Return (''ERR message=stale_revision'' @ nl)))"

definition line_prog :: "sodium option \<Rightarrow> time_point \<Rightarrow> ControlProtocol \<Rightarrow> string \<Rightarrow> string prog" where
  "line_prog lib now proto line =
     (let command = parse_command now proto line
      in if error command \<noteq> [] then Return (''ERR message='' @ error command @ nl)
         else case action command of
           ControlAction_Register \<Rightarrow> registration_prog lib proto ''registered'' (registration command)
         | ControlAction_Merge \<Rightarrow> registration_prog lib proto ''merged'' (registration command)
         | ControlAction_Heartbeat \<Rightarrow>
             Refresh_heartbeat (cmd_agent_id command)
               (now + milliseconds (heartbeat_ttl (proto_lifecycle proto)))
               (revision (registration command))
               (\<lambda>accepted. Return (if accepted then ''OK message=heartbeat'' @ nl
                                   else ''ERR message=unknown_or_stale_agent'' @ nl))
         | ControlAction_Stats \<Rightarrow>
             Read_stats (\<lambda>st. Return (''OK active_agents='' @ to_string (active_agents st) @
                '' highest_revision='' @ to_string (unat (highest_revision st)) @ nl))
         | ControlAction_List \<Rightarrow>
             Read_list (\<lambda>rs. Return (''OK message=list'' @ nl @ encode_agent_lines rs @ ''END'' @ nl))
         | ControlAction_SyncPull \<Rightarrow>
             Read_after (after_revision command) (limit command)
               (\<lambda>rs. Return (''OK message=sync_pull'' @ nl @ encode_agent_lines rs @ ''END'' @ nl))
         | ControlAction_Unknown \<Rightarrow> Return (''ERR message=unhandled_command'' @ nl))"

text \<open>The registration of a binary request: after the move the identity service sees an empty record.\<close>

definition proto_registration_prog ::
  "sodium option \<Rightarrow> time_point \<Rightarrow> ControlProtocol \<Rightarrow> string \<Rightarrow> AgentRegistration \<Rightarrow> ControlResponse prog" where
  "proto_registration_prog lib now proto done_word body =
     (let r = from_proto now body (proto_lifecycle proto)
      in if agent_id r = [] \<or> node_id r = [] \<or> endpoint r = [] then
           Return (set_status False ''agent_id_node_id_and_endpoint_required'' new_ControlResponse)
         else (case signature_allowed lib r (proto_trust proto) new_ControlResponse of
                 (False, response) \<Rightarrow> Return response
               | (True, response) \<Rightarrow>
                   and_then (upsert_prog r) (\<lambda>accepted.
                     if accepted then
                       Verify_and_register (moved_from r) (\<lambda>_. Return (set_status True done_word response))
                     else Return (set_status False ''stale_revision'' response))))"

definition request_prog ::
  "sodium option \<Rightarrow> time_point \<Rightarrow> ControlProtocol \<Rightarrow> ControlRequest option \<Rightarrow> ControlResponse prog" where
  "request_prog lib now proto request =
     (case request of
        None \<Rightarrow> Return (set_status False ''invalid_protobuf_control_request'' new_ControlResponse)
      | Some (Register_agent body) \<Rightarrow> proto_registration_prog lib now proto ''registered'' body
      | Some (Sync_merge body) \<Rightarrow> proto_registration_prog lib now proto ''merged'' body
      | Some (Heartbeat_request hb) \<Rightarrow>
          Refresh_heartbeat (hb_agent_id hb)
            (now + milliseconds (heartbeat_ttl (proto_lifecycle proto))) (hb_revision hb)
            (\<lambda>accepted. Return (set_status accepted
               (if accepted then ''heartbeat'' else ''unknown_or_stale_agent'') new_ControlResponse))
      | Some (List_agents _ _) \<Rightarrow>
          Read_list (\<lambda>rs. Return (fold add_agent rs (set_status True ''list'' new_ControlResponse)))
      | Some (Sync_pull after n) \<Rightarrow>
          Read_after after (ucast n)
            (\<lambda>rs. Return (fold add_agent rs (set_status True ''sync_pull'' new_ControlResponse)))
      | Some Stats_request \<Rightarrow>
          Read_stats (\<lambda>st. Return (set_status True
            (''active_agents='' @ to_string (active_agents st) @
             '' highest_revision='' @ to_string (unat (highest_revision st))) new_ControlResponse))
      | Some Body_not_set \<Rightarrow> Return (set_status False ''empty_control_request'' new_ControlResponse))"

definition frame_prog ::
  "protobuf \<Rightarrow> sodium option \<Rightarrow> time_point \<Rightarrow> ControlProtocol \<Rightarrow> bytes \<Rightarrow> bytes prog" where
  "frame_prog pb lib now proto frame_bytes =
     (let invalid =
            (case SerializeToString pb (set_status False ''invalid_control_frame'' new_ControlResponse) of
               None \<Rightarrow> Return []
             | Some out \<Rightarrow> Return (encode_frame \<lparr>frame_kind = FrameKind_ControlResponse, payload = out\<rparr>))
      in case decode_frame frame_bytes of
           None \<Rightarrow> invalid
         | Some frame \<Rightarrow>
             if frame_kind frame \<noteq> FrameKind_ControlRequest then invalid
             else
               and_then (request_prog lib now proto
                           (ParseFromArray pb (payload frame) (int_of_size (length (payload frame)))))
                 (\<lambda>response. Return (encode_frame
                    \<lparr>frame_kind = FrameKind_ControlResponse,
                     payload = (case SerializeToString pb response of None \<Rightarrow> [] | Some out \<Rightarrow> out)\<rparr>)))"

text \<open>A session of the control server; \<^const>\<open>None\<close> when an exception ended it.\<close>

definition session_prog ::
  "'w surroundings \<Rightarrow> time_point \<Rightarrow> ControlProtocol \<Rightarrow> connection \<Rightarrow> bytes option prog" where
  "session_prog sur now proto conn =
     (let header = peeked conn
      in if header = [] then Return None
         else if 9 \<le> length header \<and> is_binary_frame_header header then
           (case sur_protobuf sur of
              Some pb \<Rightarrow>
                (let total = 9 + unat (read_u32 header 5)
                 in if length (incoming conn) < total then Return None
                    else and_then (frame_prog pb (sur_sodium sur) now proto (take total (incoming conn)))
                           (\<lambda>response. Return (Some response)))
            | None \<Rightarrow> Return (Some (bytes_of_string (''ERR message=protobuf_control_disabled'' @ nl))))
         else if newline \<notin> set (string_of_bytes (incoming conn)) then Return None
         else and_then (line_prog (sur_sodium sur) now proto
                          (takeWhile (\<lambda>c. c \<noteq> newline) (string_of_bytes (incoming conn))))
                (\<lambda>response. Return (Some (bytes_of_string response))))"

text \<open>\<^verbatim>\<open>AgentRegistry::merge\<close> with an identity service: the locks are taken anew for every record.\<close>

fun merge_prog :: "AgentRecord list \<Rightarrow> nat \<Rightarrow> nat prog" where
  "merge_prog [] accepted = Return accepted"
| "merge_prog (r # rs) accepted =
     Verify_and_register r (\<lambda>status.
       if status \<noteq> Valid \<and> status \<noteq> Missing then merge_prog rs accepted
       else and_then (upsert_prog r) (\<lambda>ok. merge_prog rs (if ok then accepted + 1 else accepted)))"

definition command_prog :: "SyncPeer \<Rightarrow> string \<Rightarrow> (string + string) prog" where
  "command_prog peer command =
     Send_tcp peer (command @ nl) (\<lambda>x. Return
       (case x of
          Connect_error e \<Rightarrow> Inl e
        | Exchange response err \<Rightarrow> (case err of Read_error e \<Rightarrow> Inl e | _ \<Rightarrow> Inr response)))"

fun push_prog :: "SyncPeer \<Rightarrow> AgentRecord list \<Rightarrow> nat \<Rightarrow> (string + nat) prog" where
  "push_prog peer [] n = Return (Inr n)"
| "push_prog peer (entry # entries) n =
     and_then (command_prog peer (encode_merge_command entry)) (\<lambda>x.
       case x of
         Inl e \<Rightarrow> Return (Inl e)
       | Inr response \<Rightarrow> push_prog peer entries (if rfind_at_0 response ''OK'' then n + 1 else n))"

text \<open>
  A synchronisation round: the local revision is read first, and the plan for the push reads the
  registry twice more after the merge.
\<close>

definition sync_prog ::
  "(nat \<Rightarrow> time_point) \<Rightarrow> SyncClient \<Rightarrow> SyncPeer \<Rightarrow> (string + SyncResult) prog" where
  "sync_prog clock client peer =
     Read_stats (\<lambda>local.
       and_then (command_prog peer ''STATS'') (\<lambda>x. case x of
         Inl e \<Rightarrow> Return (Inl e)
       | Inr remote_stats \<Rightarrow>
           and_then (command_prog peer
               (encode_sync_pull_command (highest_revision local) (max_entries_per_round client)))
             (\<lambda>x. case x of
                Inl e \<Rightarrow> Return (Inl e)
              | Inr response \<Rightarrow>
                  and_then (merge_prog (parse_agent_lines clock response) 0) (\<lambda>n.
                    Read_stats (\<lambda>_.
                      Read_after (parse_highest_revision remote_stats) (max_entries_per_round client) (\<lambda>rs.
                        and_then (push_prog peer rs 0) (\<lambda>x. Return
                          (case x of Inl e \<Rightarrow> Inl e | Inr m \<Rightarrow> Inr \<lparr>pulled = n, pushed = m\<rparr>))))))))"

fun gossip_prog ::
  "(nat \<Rightarrow> nat \<Rightarrow> time_point) \<Rightarrow> GossipService \<Rightarrow> GossipPeer list \<Rightarrow> nat list \<Rightarrow> unit prog" where
  "gossip_prog clocks svc current_peers [] = Return ()"
| "gossip_prog clocks svc current_peers (idx # indices) =
     (let peer = current_peers ! idx
      in Send_udp (gp_host peer) (gp_listen_port peer) (heartbeat_text (gs_config svc))
           (and_then
              (sync_prog (clocks idx)
                 (new_SyncClient (max_registry_items_per_round (gs_gossip_config svc)))
                 \<lparr>peer_host = gp_host peer, peer_control_port = gp_control_port peer\<rparr>)
              (\<lambda>_. gossip_prog clocks svc current_peers indices)))"

definition round_prog ::
  "(nat \<Rightarrow> nat \<Rightarrow> time_point) \<Rightarrow> (nat list \<Rightarrow> nat list) \<Rightarrow> GossipService \<Rightarrow> unit prog" where
  "round_prog clocks shuffle svc =
     (let current_peers = peers svc
      in if current_peers = [] then Return ()
         else gossip_prog clocks svc current_peers
                (pick_random_indices shuffle (length current_peers) GOSSIP_FANOUT))"

text \<open>The answer of the handshake responder, and one iteration of the loop of \<^verbatim>\<open>main\<close>.\<close>

definition datagram_prog :: "NodeConfig \<Rightarrow> string \<Rightarrow> string option prog" where
  "datagram_prog config datagram =
     (case decode_peer_hello (take receive_buffer_size datagram) of
        None \<Rightarrow> Return None
      | Some hello \<Rightarrow>
          Read_stats (\<lambda>st. Return (Some (encode_peer_welcome
            \<lparr>welcome_node_id = cfg_node_id config, registry_revision = highest_revision st\<rparr>))))"

definition tick_prog ::
  "sodium option \<Rightarrow> time_point \<Rightarrow> BeaconConfig \<Rightarrow> ReputationEngine \<Rightarrow> tick_report prog" where
  "tick_prog lib now config reputation =
     Purge_expired now (\<lambda>purged. Read_stats (\<lambda>st. Read_list (\<lambda>rs.
       and_then (line_prog lib now
                   (new_ControlProtocol (cfg_lifecycle config) (cfg_trust config)) ''STATS'')
         (\<lambda>line. Count_trusted (\<lambda>trusted. Return
            \<lparr>tick_stats = st, tick_push = length (select_push_entries rs (new_GossipScheduler (cfg_gossip config))),
             tick_purged = purged,
             tick_accepts_self = accepts_peer (cfg_node_id (cfg_node config)) reputation,
             tick_trusted = trusted, tick_stats_line = line\<rparr>)))))"

section \<open>Alone, a program is its handler\<close>

text \<open>
  The shared state as the sequential handlers pass it around, and what a handler's result makes of it.
\<close>

definition put_node ::
  "('e, 'w) shared \<Rightarrow> 'a \<times> IdentityService option \<times> 'e AgentRegistry \<times> 'e \<Rightarrow> 'a \<times> ('e, 'w) shared" where
  "put_node s result =
     (case result of (v, identity, reg, env) \<Rightarrow>
        (v, s\<lparr>sh_identity := the identity, sh_registry := reg, sh_env := env\<rparr>))"

lemma run_upsert:
  "run_alone sur (upsert_prog r) s =
     (case upsert r (sh_registry s) (sh_env s) of (ok, reg, env) \<Rightarrow>
        (ok, s\<lparr>sh_registry := reg, sh_env := env\<rparr>))"
  by (cases s) (auto simp: upsert_prog_def upsert_def Let_def split: prod.split)

lemma run_registration:
  "run_alone sur (registration_prog (sur_sodium sur) proto done_word r) s =
     put_node s (handle_registration (sur_sodium sur) proto done_word r
       (Some (sh_identity s)) (sh_registry s) (sh_env s))"
  by (cases s) (simp add: registration_prog_def handle_registration_def run_alone_and_then run_upsert
      register_identity_prog_def register_identity_def put_node_def case_prod_unfold Let_def
      split: option.split)

lemma run_line:
  "run_alone sur (line_prog (sur_sodium sur) now proto line) s =
     put_node s (handle_line (sur_sodium sur) now proto line (Some (sh_identity s)) (sh_registry s) (sh_env s))"
  by (cases s) (simp add: line_prog_def handle_line_def run_registration
      put_node_def case_prod_unfold Let_def split: ControlAction.split)

lemma run_proto_registration:
  "run_alone sur (proto_registration_prog (sur_sodium sur) now proto done_word body) s =
     put_node s (handle_proto_registration (sur_sodium sur) now proto done_word body
       (Some (sh_identity s)) (sh_registry s) (sh_env s))"
  by (cases s) (simp add: proto_registration_prog_def handle_proto_registration_def run_alone_and_then run_upsert
      put_node_def case_prod_unfold Let_def split: bool.split)

lemma run_request:
  "run_alone sur (request_prog (sur_sodium sur) now proto request) s =
     put_node s (handle_control_request (sur_sodium sur) now proto request
       (Some (sh_identity s)) (sh_registry s) (sh_env s))"
  by (cases s) (simp add: request_prog_def handle_control_request_def run_proto_registration
      put_node_def case_prod_unfold Let_def split: option.split ControlRequest.split)

lemma run_frame:
  "run_alone sur (frame_prog pb (sur_sodium sur) now proto bs) s =
     put_node s (handle_control_frame pb (sur_sodium sur) now proto bs
       (Some (sh_identity s)) (sh_registry s) (sh_env s))"
  by (cases s) (simp add: frame_prog_def handle_control_frame_def handle_control_request_payload_def
      run_alone_and_then run_request put_node_def case_prod_unfold Let_def split: option.split)

lemma run_session:
  "run_alone sur (session_prog sur now proto conn) s =
     put_node s (serve_session (sur_protobuf sur) (sur_sodium sur) now proto conn
       (Some (sh_identity s), sh_registry s, sh_env s))"
  by (cases s) (simp add: session_prog_def serve_session_def run_alone_and_then run_frame run_line
      put_node_def case_prod_unfold Let_def split: option.split)

lemma run_merge:
  "run_alone sur (merge_prog rs n) s =
     put_node s (merge (sur_sodium sur) rs (Some (sh_identity s)) (sh_registry s) (sh_env s) n)"
proof (induction rs arbitrary: n s)
  case Nil
  then show ?case by (cases s) (simp add: put_node_def)
next
  case (Cons r rs)
  then show ?case
    by (cases s) (simp add: run_alone_and_then run_upsert put_node_def case_prod_unfold Let_def)
qed

lemma run_command:
  "run_alone sur (command_prog peer command) s =
     (case send_command (sur_net sur) peer command (sh_world s) of (x, w) \<Rightarrow> (x, s\<lparr>sh_world := w\<rparr>))"
  by (cases s) (simp add: command_prog_def send_command_def case_prod_unfold Let_def
      split: exchange.split read_end.split)

lemma run_push:
  "run_alone sur (push_prog peer entries n) s =
     (case push_loop (sur_net sur) peer entries n (sh_world s) of (x, w) \<Rightarrow> (x, s\<lparr>sh_world := w\<rparr>))"
proof (induction entries arbitrary: n s)
  case Nil
  then show ?case by (cases s) simp
next
  case (Cons e entries)
  then show ?case
    by (cases s) (simp add: run_alone_and_then run_command case_prod_unfold split: sum.split)
qed

text \<open>A round also changes the network.\<close>

definition put_all_node ::
  "'a \<times> IdentityService option \<times> 'e AgentRegistry \<times> 'e \<times> 'w \<Rightarrow> 'a \<times> ('e, 'w) shared" where
  "put_all_node result =
     (case result of (v, identity, reg, env, w) \<Rightarrow>
        (v, \<lparr>sh_identity = the identity, sh_registry = reg, sh_env = env, sh_world = w\<rparr>))"

lemma run_sync:
  "run_alone sur (sync_prog clock client peer) s =
     put_all_node (sync_with_peer (sur_sodium sur) clock (sur_net sur) client peer
       (Some (sh_identity s)) (sh_registry s) (sh_env s) (sh_world s))"
  by (cases s) (simp add: sync_prog_def sync_with_peer_def run_alone_and_then run_command run_merge run_push
      merge_response_def plan_push_pull_def push_entries_to_def put_node_def put_all_node_def
      case_prod_unfold Let_def split: sum.split)

lemma merge_identity_Some: "\<exists>svc'. fst (snd (merge lib rs (Some svc) reg env n)) = Some svc'"
  by (induction rs arbitrary: svc reg env n) (auto simp: case_prod_unfold Let_def)

lemma sync_identity_Some:
  "\<exists>svc'. fst (snd (sync_with_peer lib clock net client peer (Some svc) reg env w)) = Some svc'"
  using merge_identity_Some
  by (auto simp: sync_with_peer_def merge_response_def case_prod_unfold Let_def split: sum.split)

lemma run_gossip:
  "run_alone sur (gossip_prog clocks svc current_peers indices) s =
     put_all_node ((), gossip_loop (sur_sodium sur) clocks (sur_net sur) (sur_udp sur) svc current_peers indices
       (Some (sh_identity s), sh_registry s, sh_env s, sh_world s))"
proof (induction indices arbitrary: s)
  case Nil
  then show ?case by (cases s) (simp add: put_all_node_def)
next
  case (Cons idx indices)
  let ?peer = "current_peers ! idx"
  let ?x = "sync_with_peer (sur_sodium sur) (clocks idx) (sur_net sur)
      \<lparr>max_entries_per_round = max_registry_items_per_round (gs_gossip_config svc)\<rparr>
      \<lparr>peer_host = gp_host ?peer, peer_control_port = gp_control_port ?peer\<rparr>
      (Some (sh_identity s)) (sh_registry s) (sh_env s) (send_udp_heartbeat (sur_udp sur) svc ?peer (sh_world s))"
  obtain v svc' reg' env' w' where "?x = (v, Some svc', reg', env', w')"
    using exE [OF sync_identity_Some] by (metis prod.exhaust_sel)
  then have "sync_with_peer_tcp (sur_sodium sur) (clocks idx) (sur_net sur) svc ?peer
      (Some (sh_identity s), sh_registry s, sh_env s, send_udp_heartbeat (sur_udp sur) svc ?peer (sh_world s))
      = (Some svc', reg', env', w')"
    by (simp add: sync_with_peer_tcp_def)
  then show ?case
    using Cons \<open>?x = _\<close>
    by (simp add: run_alone_and_then run_sync put_all_node_def [of ?x] put_all_node_def [of "(v, Some svc', reg', env', w')"]
        send_udp_heartbeat_def Let_def)
qed

lemma run_tick:
  "run_alone sur (tick_prog (sur_sodium sur) now config reputation) s =
     (case tick (sur_sodium sur) now config reputation (sh_identity s) (sh_registry s) (sh_env s) of
        (report, reg) \<Rightarrow> (report, s\<lparr>sh_registry := reg\<rparr>))"
proof -
  have "line_prog lib now proto ''STATS'' =
      Read_stats (\<lambda>st. Return (''OK active_agents='' @ to_string (active_agents st) @
        '' highest_revision='' @ to_string (unat (highest_revision st)) @ nl))" for lib proto
    by (simp add: line_prog_def parse_stats new_ControlCommand_def)
  then show ?thesis
    by (cases s) (simp add: tick_prog_def tick_alt list_records_def case_prod_unfold Let_def)
qed

section \<open>Property\<close>

text \<open>
  The atomic steps of the engine's threads compose to the handlers.  Without interference
  the session of a connection, a gossip round, an iteration of the maintenance loop and the answer to
  a datagram compute the results and leave the registry, the trusted keys, the log and the network
  that the sequential definitions say.
\<close>

theorem programs_are_handlers:
  fixes s :: "('e, 'w) shared"
  shows "run_alone sur (session_prog sur now proto conn) s =
      put_node s (serve_session (sur_protobuf sur) (sur_sodium sur) now proto conn
        (Some (sh_identity s), sh_registry s, sh_env s))
    \<and> run_alone sur (round_prog clocks shuffle svc) s =
      put_all_node ((), perform_gossip_round (sur_sodium sur) clocks shuffle (sur_net sur) (sur_udp sur) svc
        (Some (sh_identity s), sh_registry s, sh_env s, sh_world s))
    \<and> run_alone sur (tick_prog (sur_sodium sur) now config reputation) s =
      (case tick (sur_sodium sur) now config reputation (sh_identity s) (sh_registry s) (sh_env s) of
         (report, reg) \<Rightarrow> (report, s\<lparr>sh_registry := reg\<rparr>))
    \<and> run_alone sur (datagram_prog node datagram) s = (answer_datagram node (sh_registry s) datagram, s)"
proof -
  have "run_alone sur (round_prog clocks shuffle svc) s =
      put_all_node ((), perform_gossip_round (sur_sodium sur) clocks shuffle (sur_net sur) (sur_udp sur) svc
        (Some (sh_identity s), sh_registry s, sh_env s, sh_world s))"
    by (cases s) (simp add: round_prog_def perform_gossip_round_def run_gossip put_all_node_def Let_def)
  moreover have "run_alone sur (datagram_prog node datagram) s = (answer_datagram node (sh_registry s) datagram, s)"
    by (simp add: datagram_prog_def answer_datagram_def split: option.split)
  ultimately show ?thesis by (simp add: run_session run_tick)
qed

end
