(* ===== verification/Node_Threads.thy ===== *)
theory Node_Threads
  imports Thread_Programs
begin

text \<open>
  The threads of \<^verbatim>\<open>src/src/beacon_engine/main.cpp\<close> on one registry: the maintenance loop of \<^verbatim>\<open>main\<close>, the
  control server, the handshake responder and the gossip service.  Each thread works on one job at a
  time, as a program of atomic steps; the steps of different threads interleave in any order, and the
  network changes by itself in between.
\<close>

section \<open>Jobs\<close>

datatype thread = Main_thread | Control_thread | Handshake_thread | Gossip_thread

datatype job =
    Tick time_point
  | Session time_point connection
  | Datagram string
  | Round "nat \<Rightarrow> nat \<Rightarrow> time_point" "nat list \<Rightarrow> nat list"

datatype job_result = Ticked tick_report | Served "bytes option" | Answered "string option" | Rounded

record engine_setup =
  set_config :: BeaconConfig
  set_reputation :: ReputationEngine
  set_gossip :: GossipService

definition setup_protocol :: "engine_setup \<Rightarrow> ControlProtocol" where
  "setup_protocol st =
     new_ControlProtocol (cfg_lifecycle (set_config st)) (cfg_trust (set_config st))"

fun thread_of :: "job \<Rightarrow> thread" where
  "thread_of (Tick now) = Main_thread"
| "thread_of (Session now conn) = Control_thread"
| "thread_of (Datagram text) = Handshake_thread"
| "thread_of (Round clocks shuffle) = Gossip_thread"

fun job_prog :: "'w surroundings \<Rightarrow> engine_setup \<Rightarrow> job \<Rightarrow> job_result prog" where
  "job_prog sur st (Tick now) =
     and_then (tick_prog (sur_sodium sur) now (set_config st) (set_reputation st)) (\<lambda>report. Return (Ticked report))"
| "job_prog sur st (Session now conn) =
     and_then (session_prog sur now (setup_protocol st) conn) (\<lambda>reply. Return (Served reply))"
| "job_prog sur st (Datagram text) =
     and_then (datagram_prog (cfg_node (set_config st)) text) (\<lambda>reply. Return (Answered reply))"
| "job_prog sur st (Round clocks shuffle) =
     and_then (round_prog clocks shuffle (set_gossip st)) (\<lambda>_. Return Rounded)"

section \<open>Interleavings\<close>

record ('e, 'w) node_run =
  nr_shared :: "('e, 'w) shared"
  nr_running :: "thread \<Rightarrow> (job \<times> job_result prog) option"
  nr_finished :: "(job \<times> job_result) list"

definition set_thread ::
  "thread \<Rightarrow> (job \<times> job_result prog) option \<Rightarrow> ('e, 'w) shared \<Rightarrow> ('e, 'w) node_run \<Rightarrow> ('e, 'w) node_run" where
  "set_thread t x s n = n\<lparr>nr_running := (nr_running n)(t := x), nr_shared := s\<rparr>"

lemma set_thread_simps [simp]:
  "nr_running (set_thread t x s n) = (nr_running n)(t := x)"
  "nr_shared (set_thread t x s n) = s"
  "nr_finished (set_thread t x s n) = nr_finished n"
  "set_thread t x s (set_thread t x' s' n) = set_thread t x s n"
  by (simp_all add: set_thread_def)

lemma set_thread_same: "nr_running n t = x \<Longrightarrow> set_thread t x (nr_shared n) n = n"
  by (cases n) (auto simp: set_thread_def fun_upd_idem)

inductive node_step ::
  "'w surroundings \<Rightarrow> engine_setup \<Rightarrow> ('e, 'w) node_run \<Rightarrow> ('e, 'w) node_run \<Rightarrow> bool" for sur st where
  begins: "nr_running n (thread_of job) = None
    \<Longrightarrow> node_step sur st n (set_thread (thread_of job) (Some (job, job_prog sur st job)) (nr_shared n) n)"
| acts: "\<lbrakk>nr_running n t = Some (job, p); perform sur p (nr_shared n) = (p', s')\<rbrakk>
    \<Longrightarrow> node_step sur st n (set_thread t (Some (job, p')) s' n)"
| ends: "nr_running n t = Some (job, Return out)
    \<Longrightarrow> node_step sur st n (set_thread t None (nr_shared n) n\<lparr>nr_finished := nr_finished n @ [(job, out)]\<rparr>)"
| network: "node_step sur st n (n\<lparr>nr_shared := (nr_shared n)\<lparr>sh_world := w\<rparr>\<rparr>)"

text \<open>A thread that is left alone completes its job.\<close>

lemma acts_then_alone:
  assumes "nr_running n t = Some (job, p)" and "run_alone sur p (nr_shared n) = (out, s')"
    and rest: "\<And>m. \<lbrakk>nr_running m t = Some (job, fst (perform sur p (nr_shared n)));
      run_alone sur (fst (perform sur p (nr_shared n))) (nr_shared m) = (out, s')\<rbrakk>
      \<Longrightarrow> (node_step sur st)\<^sup>*\<^sup>* m (set_thread t (Some (job, Return out)) s' m)"
  shows "(node_step sur st)\<^sup>*\<^sup>* n (set_thread t (Some (job, Return out)) s' n)"
proof -
  obtain p1 s1 where p: "perform sur p (nr_shared n) = (p1, s1)" by (cases "perform sur p (nr_shared n)")
  let ?m = "set_thread t (Some (job, p1)) s1 n"
  have "run_alone sur p1 s1 = (out, s')" using assms(2) run_alone_perform [of sur p "nr_shared n"] by (simp add: p)
  then have "(node_step sur st)\<^sup>*\<^sup>* ?m (set_thread t (Some (job, Return out)) s' ?m)"
    by (intro rest) (simp_all add: p)
  moreover have "node_step sur st n ?m" by (rule acts [OF assms(1) p])
  ultimately show ?thesis by (metis converse_rtranclp_into_rtranclp set_thread_simps(4))
qed

lemma acts_alone:
  fixes n :: "('e, 'w) node_run"
  shows "\<lbrakk>nr_running n t = Some (job, p); run_alone sur p (nr_shared n) = (out, s')\<rbrakk> \<Longrightarrow>
    (node_step sur st)\<^sup>*\<^sup>* n (set_thread t (Some (job, Return out)) s' n)"
proof (induction p arbitrary: n rule: prog_step_induct [where sur = sur and 'e = 'e])
  case (1 v)
  then show ?case using set_thread_same [of n t] by simp
next
  case (2 p)
  show ?case by (rule acts_then_alone [OF "2.prems"]) (rule "2.IH")
qed

lemma job_alone:
  assumes "nr_running n (thread_of job) = None" and "run_alone sur (job_prog sur st job) (nr_shared n) = (out, s')"
  shows "(node_step sur st)\<^sup>*\<^sup>* n
     (set_thread (thread_of job) None s' n\<lparr>nr_finished := nr_finished n @ [(job, out)]\<rparr>)"
proof -
  let ?t = "thread_of job"
  let ?n1 = "set_thread ?t (Some (job, job_prog sur st job)) (nr_shared n) n"
  have "(node_step sur st)\<^sup>*\<^sup>* n ?n1" using begins [OF assms(1)] by (rule r_into_rtranclp)
  also have "(node_step sur st)\<^sup>*\<^sup>* ?n1 (set_thread ?t (Some (job, Return out)) s' n)"
    using acts_alone [of ?n1 ?t job "job_prog sur st job" sur out s' st] assms(2) by simp
  also have "node_step sur st (set_thread ?t (Some (job, Return out)) s' n)
      (set_thread ?t None s' n\<lparr>nr_finished := nr_finished n @ [(job, out)]\<rparr>)"
    using ends [of "set_thread ?t (Some (job, Return out)) s' n" ?t job out sur st] by simp
  finally show ?thesis .
qed

section \<open>What a program keeps to\<close>

text \<open>
  \<open>upholds Q L p\<close>: whatever the other threads do, \<open>p\<close> offers only well-formed records to the registry,
  and when it returns, its result is related by \<open>Q\<close> to the records that were handed to the callback,
  of which \<open>L\<close> were before.
\<close>

primrec upholds :: "('a \<Rightarrow> AgentRecord set \<Rightarrow> bool) \<Rightarrow> AgentRecord set \<Rightarrow> 'a prog \<Rightarrow> bool" where
  "upholds Q L (Return v) = Q v L"
| "upholds Q L (Upsert_locked r k) = (record_wf r \<and> (\<forall>x. upholds Q L (k x)))"
| "upholds Q L (Call_on_upsert r q) = upholds Q (insert r L) q"
| "upholds Q L (Refresh_heartbeat aid t n k) = (\<forall>x. upholds Q L (k x))"
| "upholds Q L (Purge_expired t k) = (\<forall>x. upholds Q L (k x))"
| "upholds Q L (Read_stats k) = (\<forall>x. upholds Q L (k x))"
| "upholds Q L (Read_list k) = (\<forall>x. upholds Q L (k x))"
| "upholds Q L (Read_after n l k) = (\<forall>x. upholds Q L (k x))"
| "upholds Q L (Verify_and_register r k) = (\<forall>x. upholds Q L (k x))"
| "upholds Q L (Count_trusted k) = (\<forall>x. upholds Q L (k x))"
| "upholds Q L (Send_tcp peer text k) = (\<forall>x. upholds Q L (k x))"
| "upholds Q L (Send_udp host port text q) = upholds Q L q"

definition stable :: "('a \<Rightarrow> AgentRecord set \<Rightarrow> bool) \<Rightarrow> bool" where
  "stable Q \<longleftrightarrow> (\<forall>v L L'. Q v L \<longrightarrow> L \<subseteq> L' \<longrightarrow> Q v L')"

lemma stable_True [simp]: "stable (\<lambda>v L. True)"
  by (simp add: stable_def)

lemma upholds_more: "\<lbrakk>upholds Q L p; L \<subseteq> L'; stable Q\<rbrakk> \<Longrightarrow> upholds Q L' p"
proof (induction p arbitrary: L L')
  case (Return v)
  then show ?case by (auto simp: stable_def)
next
  case (Call_on_upsert r q)
  then show ?case using insert_mono [OF Call_on_upsert.prems(2), of r] by auto
qed (simp_all, (blast intro: rangeI)+)

lemma upholds_and_then:
  "upholds Q L (and_then p f) = upholds (\<lambda>v L. upholds Q L (f v)) L p"
  by (induction p arbitrary: L) simp_all

lemma upholds_weaken: "\<lbrakk>upholds Q L p; \<And>v L. Q v L \<Longrightarrow> R v L\<rbrakk> \<Longrightarrow> upholds R L p"
  by (induction p arbitrary: L) auto

lemma upholds_upsert:
  "upholds Q L (upsert_prog r) = (record_wf r \<and> Q True (insert r L) \<and> Q False L)"
  by (auto simp: upsert_prog_def split: if_splits)

lemma upholds_register_identity: "upholds Q L (register_identity_prog r q) = upholds Q L q"
  by (simp add: register_identity_prog_def)

text \<open>A positive answer to a registration is given after the callback.\<close>

definition ok_line :: "string \<Rightarrow> string" where
  "ok_line word = ''OK message='' @ word @ nl"

lemma upholds_registration:
  "record_wf r \<Longrightarrow>
   upholds (\<lambda>reply L. reply \<in> {ok_line ''registered'', ok_line ''merged''} \<longrightarrow> r \<in> L) L
     (registration_prog lib proto word r)"
  by (auto simp: registration_prog_def upholds_and_then upholds_upsert upholds_register_identity
      signature_rejection_def ok_line_def split: option.split if_splits)

lemma upholds_line:
  "upholds (\<lambda>reply L. reply \<in> {ok_line ''registered'', ok_line ''merged''} \<longrightarrow>
       registration (parse_command now proto line) \<in> L) L (line_prog lib now proto line)"
  using upholds_registration [OF record_wf_parse_command [of now proto line]]
  by (auto simp: line_prog_def ok_line_def nl_def Let_def split: ControlAction.split)

text \<open>The record a binary request registers, and the response that confirms it.\<close>

fun requested_record :: "time_point \<Rightarrow> ControlProtocol \<Rightarrow> ControlRequest option \<Rightarrow> AgentRecord option" where
  "requested_record now proto (Some (Register_agent body)) = Some (from_proto now body (proto_lifecycle proto))"
| "requested_record now proto (Some (Sync_merge body)) = Some (from_proto now body (proto_lifecycle proto))"
| "requested_record now proto _ = None"

lemma upholds_proto_registration:
  "upholds (\<lambda>response L. resp_ok response \<longrightarrow> from_proto now body (proto_lifecycle proto) \<in> L) L
     (proto_registration_prog lib now proto word body)"
  by (auto simp: proto_registration_prog_def upholds_and_then upholds_upsert record_wf_from_proto set_status_def
      signature_allowed_def new_ControlResponse_def Let_def split: bool.split if_splits prod.split)

lemma upholds_request:
  "upholds (\<lambda>response L. \<forall>r. requested_record now proto request = Some r \<longrightarrow> resp_ok response \<longrightarrow> r \<in> L) L
     (request_prog lib now proto request)"
  using upholds_proto_registration
  by (auto simp: request_prog_def set_status_def split: option.split ControlRequest.split)

definition response_payload :: "protobuf \<Rightarrow> ControlResponse \<Rightarrow> bytes" where
  "response_payload pb response = (case SerializeToString pb response of None \<Rightarrow> [] | Some out \<Rightarrow> out)"

definition confirmation :: "protobuf \<Rightarrow> string \<Rightarrow> bytes" where
  "confirmation pb word =
     encode_frame \<lparr>frame_kind = FrameKind_ControlResponse,
       payload = response_payload pb (set_status True word new_ControlResponse)\<rparr>"

text \<open>
  What is relied on of the generated codec: a response that does not report success is not
  serialised to the octets of a confirmation.
\<close>

definition tells_success :: "protobuf \<Rightarrow> bool" where
  "tells_success pb \<longleftrightarrow>
     (\<forall>response. \<not> resp_ok response \<longrightarrow>
        response_payload pb response \<noteq> response_payload pb (set_status True ''registered'' new_ControlResponse) \<and>
        response_payload pb response \<noteq> response_payload pb (set_status True ''merged'' new_ControlResponse))"

text \<open>The request in a frame.\<close>

definition framed_request :: "protobuf \<Rightarrow> bytes \<Rightarrow> ControlRequest option" where
  "framed_request pb bs =
     (case decode_frame bs of
        None \<Rightarrow> None
      | Some frame \<Rightarrow>
          if frame_kind frame \<noteq> FrameKind_ControlRequest then None
          else ParseFromArray pb (payload frame) (int_of_size (length (payload frame))))"

lemma encode_frame_payload:
  "encode_frame \<lparr>frame_kind = k, payload = a\<rparr> = encode_frame \<lparr>frame_kind = k, payload = b\<rparr> \<longleftrightarrow> a = b"
  by (auto simp: encode_frame_alt)

lemma upholds_frame:
  assumes "tells_success pb"
  shows "upholds (\<lambda>reply L. reply \<in> {confirmation pb ''registered'', confirmation pb ''merged''} \<longrightarrow>
      (\<forall>r. requested_record now proto (framed_request pb bs) = Some r \<longrightarrow> r \<in> L)) L (frame_prog pb lib now proto bs)"
proof -
  have "upholds (\<lambda>response L.
      encode_frame \<lparr>frame_kind = FrameKind_ControlResponse, payload = response_payload pb response\<rparr>
        \<in> {confirmation pb ''registered'', confirmation pb ''merged''} \<longrightarrow>
      (\<forall>r. requested_record now proto request = Some r \<longrightarrow> r \<in> L)) L (request_prog lib now proto request)" for request
    by (rule upholds_weaken [OF upholds_request])
      (use assms in \<open>auto simp: confirmation_def encode_frame_payload tells_success_def\<close>)
  from this [of "framed_request pb bs"] show ?thesis
    by (auto simp: frame_prog_def framed_request_def upholds_and_then response_payload_def Let_def split: option.split)
qed

lemma upholds_frame_wf: "upholds (\<lambda>_ _. True) L (frame_prog pb lib now proto bs)"
proof -
  have "upholds (\<lambda>_ _. True) L (request_prog lib now proto request)" for request
    by (rule upholds_weaken [OF upholds_request]) simp
  then show ?thesis by (simp add: frame_prog_def upholds_and_then Let_def split: option.split)
qed

section \<open>Acknowledged registrations\<close>

text \<open>The record whose registration a finished job has confirmed to its client.\<close>

definition acknowledged :: "'w surroundings \<Rightarrow> engine_setup \<Rightarrow> job \<Rightarrow> job_result \<Rightarrow> AgentRecord option" where
  "acknowledged sur st job result =
     (case (job, result) of
        (Session now conn, Served (Some reply)) \<Rightarrow>
          (if 9 \<le> length (peeked conn) \<and> is_binary_frame_header (peeked conn) then
             (case sur_protobuf sur of
                None \<Rightarrow> None
              | Some pb \<Rightarrow>
                  if reply \<in> {confirmation pb ''registered'', confirmation pb ''merged''}
                  then requested_record now (setup_protocol st)
                         (framed_request pb (take (9 + unat (read_u32 (peeked conn) 5)) (incoming conn)))
                  else None)
           else if reply \<in> {bytes_of_string (ok_line ''registered''), bytes_of_string (ok_line ''merged'')}
           then Some (registration (parse_command now (setup_protocol st)
                        (takeWhile (\<lambda>c. c \<noteq> newline) (string_of_bytes (incoming conn)))))
           else None)
      | _ \<Rightarrow> None)"

definition job_claim :: "'w surroundings \<Rightarrow> engine_setup \<Rightarrow> job \<Rightarrow> job_result \<Rightarrow> AgentRecord set \<Rightarrow> bool" where
  "job_claim sur st job result L \<longleftrightarrow>
     (pred_option tells_success (sur_protobuf sur) \<longrightarrow> set_option (acknowledged sur st job result) \<subseteq> L)"

lemma stable_job_claim [simp]: "stable (job_claim sur st job)"
  by (auto simp: stable_def job_claim_def)

lemma bytes_of_string_eq [simp]: "bytes_of_string a = bytes_of_string b \<longleftrightarrow> a = b"
  by (metis string_of_bytes_of_string)

lemma upholds_session:
  "upholds (\<lambda>reply L. job_claim sur st (Session now conn) (Served reply) L) L
     (session_prog sur now (setup_protocol st) conn)"
proof -
  let ?proto = "setup_protocol st" and ?line = "takeWhile (\<lambda>c. c \<noteq> newline) (string_of_bytes (incoming conn))"
  have frame: "upholds (\<lambda>reply L. job_claim sur st (Session now conn) (Served (Some reply)) L) L
      (frame_prog pb lib now ?proto (take (9 + unat (read_u32 (peeked conn) 5)) (incoming conn)))"
    if "9 \<le> length (peeked conn) \<and> is_binary_frame_header (peeked conn)" "sur_protobuf sur = Some pb" for pb lib L
  proof (cases "tells_success pb")
    case True
    show ?thesis
      by (rule upholds_weaken [OF upholds_frame [OF True]])
        (use that in \<open>auto simp: job_claim_def acknowledged_def split: option.splits\<close>)
  next
    case False
    then show ?thesis
      using that by (intro upholds_weaken [OF upholds_frame_wf]) (simp add: job_claim_def)
  qed
  have line: "upholds (\<lambda>reply L. job_claim sur st (Session now conn) (Served (Some (bytes_of_string reply))) L) L
      (line_prog lib now ?proto ?line)"
    if "\<not> (9 \<le> length (peeked conn) \<and> is_binary_frame_header (peeked conn))" for lib L
    by (rule upholds_weaken [OF upholds_line])
      (use that in \<open>auto simp: job_claim_def acknowledged_def split: option.splits\<close>)
  show ?thesis
    using frame line
    by (auto simp: session_prog_def upholds_and_then job_claim_def [of _ _ _ "Served None"] acknowledged_def [of _ _ _ "Served None"]
        Let_def split: option.split) (auto simp: job_claim_def acknowledged_def)
qed

lemma upholds_merge: "list_all record_wf rs \<Longrightarrow> upholds (\<lambda>_ _. True) L (merge_prog rs n)"
  by (induction rs arbitrary: n L) (auto simp: upholds_and_then upholds_upsert)

lemma upholds_push: "upholds (\<lambda>_ _. True) L (push_prog peer entries n)"
  by (induction entries arbitrary: n L) (auto simp: upholds_and_then command_prog_def split: sum.split)

lemma upholds_True: "upholds (\<lambda>_ _. True) L p \<Longrightarrow> (\<And>v L. Q v L) \<Longrightarrow> upholds Q L p"
  by (rule upholds_weaken)

lemma upholds_sync: "upholds (\<lambda>_ _. True) L (sync_prog clock client peer)"
proof -
  have "list_all record_wf (parse_agent_lines clock response)" for response
    by (auto simp: list_all_iff parse_agent_lines_def intro: record_wf_parse_lines)
  then have "upholds (\<lambda>n L. \<forall>a b rs. upholds (\<lambda>_ _. True) L (push_prog peer rs 0)) L (merge_prog (parse_agent_lines clock response) 0)"
    for response L
    by (intro upholds_True [OF upholds_merge]) (simp_all add: upholds_push)
  then show ?thesis
    by (auto simp: sync_prog_def upholds_and_then command_prog_def split: sum.split)
qed

lemma upholds_gossip: "upholds (\<lambda>_ _. True) L (gossip_prog clocks svc current_peers indices)"
proof (induction indices arbitrary: L)
  case (Cons i indices)
  have "upholds (\<lambda>_ L. upholds (\<lambda>_ _. True) L (gossip_prog clocks svc current_peers indices)) L (sync_prog clock client peer)"
    for clock client peer
    by (rule upholds_True [OF upholds_sync]) (rule Cons.IH)
  then show ?case by (simp add: upholds_and_then Let_def)
qed simp

lemma upholds_job: "upholds (job_claim sur st job) L (job_prog sur st job)"
proof (cases job)
  case (Session now conn)
  then show ?thesis using upholds_session [of sur st now conn L] by (simp add: upholds_and_then)
next
  case (Tick now)
  have "job_claim sur st (Tick now) (Ticked report) L" for report L
    by (simp add: job_claim_def acknowledged_def)
  then show ?thesis
    using Tick by (auto simp: tick_prog_def upholds_and_then intro: upholds_True [OF upholds_weaken [OF upholds_line]])
next
  case (Datagram msg)
  then show ?thesis
    by (auto simp: datagram_prog_def upholds_and_then job_claim_def acknowledged_def split: option.split)
next
  case (Round clocks shuffle)
  have "job_claim sur st (Round clocks shuffle) Rounded L" for L
    by (simp add: job_claim_def acknowledged_def)
  then show ?thesis
    using Round by (auto simp: round_prog_def upholds_and_then Let_def intro: upholds_True [OF upholds_gossip])
qed

section \<open>What every interleaving keeps\<close>

text \<open>The record a step hands to the callback.\<close>

definition handed :: "'a prog \<Rightarrow> AgentRecord list" where
  "handed p = (case p of Call_on_upsert r q \<Rightarrow> [r] | _ \<Rightarrow> [])"

text \<open>The steps of the node with the records they hand to the callback, and the runs these steps make up.\<close>

inductive node_move ::
  "'w surroundings \<Rightarrow> engine_setup \<Rightarrow> ('e, 'w) node_run \<Rightarrow> AgentRecord list \<Rightarrow> ('e, 'w) node_run \<Rightarrow> bool" for sur st where
  move_begins: "nr_running n (thread_of job) = None
    \<Longrightarrow> node_move sur st n [] (set_thread (thread_of job) (Some (job, job_prog sur st job)) (nr_shared n) n)"
| move_acts: "\<lbrakk>nr_running n t = Some (job, p); perform sur p (nr_shared n) = (p', s')\<rbrakk>
    \<Longrightarrow> node_move sur st n (handed p) (set_thread t (Some (job, p')) s' n)"
| move_ends: "nr_running n t = Some (job, Return out)
    \<Longrightarrow> node_move sur st n [] (set_thread t None (nr_shared n) n\<lparr>nr_finished := nr_finished n @ [(job, out)]\<rparr>)"
| move_network: "node_move sur st n [] (n\<lparr>nr_shared := (nr_shared n)\<lparr>sh_world := w\<rparr>\<rparr>)"

inductive node_moves ::
  "'w surroundings \<Rightarrow> engine_setup \<Rightarrow> ('e, 'w) node_run \<Rightarrow> AgentRecord list \<Rightarrow> ('e, 'w) node_run \<Rightarrow> bool" for sur st n where
  moves_none: "node_moves sur st n [] n"
| moves_more: "\<lbrakk>node_moves sur st n hs n1; node_move sur st n1 hs' n2\<rbrakk> \<Longrightarrow> node_moves sur st n (hs @ hs') n2"

lemma node_step_move: "node_step sur st n n' \<longleftrightarrow> (\<exists>hs. node_move sur st n hs n')"
proof
  assume "node_step sur st n n'"
  then show "\<exists>hs. node_move sur st n hs n'" by cases (auto intro: node_move.intros)
next
  assume "\<exists>hs. node_move sur st n hs n'"
  then obtain hs where "node_move sur st n hs n'" ..
  then show "node_step sur st n n'" by cases (auto intro: node_step.intros)
qed

lemma node_steps_moves: "(node_step sur st)\<^sup>*\<^sup>* n n' \<longleftrightarrow> (\<exists>hs. node_moves sur st n hs n')"
proof
  assume "(node_step sur st)\<^sup>*\<^sup>* n n'"
  then show "\<exists>hs. node_moves sur st n hs n'"
    by (induction rule: rtranclp_induct) (auto simp: node_step_move intro: node_moves.intros)
next
  assume "\<exists>hs. node_moves sur st n hs n'"
  then obtain hs where "node_moves sur st n hs n'" ..
  then show "(node_step sur st)\<^sup>*\<^sup>* n n'"
    by (induction rule: node_moves.induct) (auto simp: node_step_move intro: rtranclp.rtrancl_into_rtrancl)
qed

lemma perform_upholds:
  "upholds Q L p \<Longrightarrow> upholds Q (L \<union> set (handed p)) (fst (perform sur p s))"
  by (cases p) (simp_all add: perform_def handed_def case_prod_unfold Let_def)

lemma perform_registry_wf:
  "\<lbrakk>upholds Q L p; registry_wf (records (sh_registry s))\<rbrakk>
   \<Longrightarrow> registry_wf (records (sh_registry (snd (perform sur p s))))"
  by (cases p) (simp_all add: perform_def case_prod_unfold Let_def registry_wf_upsert_records
      registry_wf_refresh_heartbeat registry_wf_filter records_purge_expired)

lemma perform_identity:
  "identity_wf (sh_identity s) \<Longrightarrow> identity_wf (sh_identity (snd (perform sur p s))) \<and>
   keeps_pins (Some (sh_identity s)) (Some (sh_identity (snd (perform sur p s))))"
  by (cases p) (auto simp: perform_def case_prod_unfold Let_def keeps_pins_def
      identity_wf_verify_and_register pinned_verify_and_register)

lemma perform_env:
  "on_upsert (sh_registry (snd (perform sur p s))) = on_upsert (sh_registry s)"
  "sh_env (snd (perform sur p s)) = fold (\<lambda>r. notify_upsert r (sh_registry s)) (handed p) (sh_env s)"
  by (cases p; auto simp: perform_def handed_def case_prod_unfold Let_def refresh_heartbeat_def purge_expired_def
      split: option.split)+

definition node_sound ::
  "'w surroundings \<Rightarrow> engine_setup \<Rightarrow> AgentRecord list \<Rightarrow> ('e, 'w) node_run \<Rightarrow> bool" where
  "node_sound sur st logged n \<longleftrightarrow>
     registry_wf (records (sh_registry (nr_shared n))) \<and> identity_wf (sh_identity (nr_shared n)) \<and>
     (\<forall>t job p. nr_running n t = Some (job, p) \<longrightarrow> upholds (job_claim sur st job) (set logged) p) \<and>
     (\<forall>job out. (job, out) \<in> set (nr_finished n) \<longrightarrow> job_claim sur st job out (set logged))"

lemma node_sound_step:
  assumes "node_move sur st n hs n'" and "node_sound sur st logged n"
  shows "node_sound sur st (logged @ hs) n' \<and>
     keeps_pins (Some (sh_identity (nr_shared n))) (Some (sh_identity (nr_shared n'))) \<and>
     on_upsert (sh_registry (nr_shared n')) = on_upsert (sh_registry (nr_shared n)) \<and>
     sh_env (nr_shared n') = fold (\<lambda>r. notify_upsert r (sh_registry (nr_shared n))) hs (sh_env (nr_shared n))"
  using assms(1)
proof cases
  case (move_begins job)
  then show ?thesis using assms(2) upholds_job by (auto simp: node_sound_def)
next
  case (move_acts t job p p' s')
  note acts = this
  let ?s = "nr_shared n"
  have p: "upholds (job_claim sur st job) (set logged) p" using acts(3) assms(2) by (simp add: node_sound_def)
  have up: "upholds (job_claim sur st job') (set (logged @ handed p)) q"
    if "(if t' = t then Some (job, p') else nr_running n t') = Some (job', q)" for t' job' q
  proof (cases "t' = t")
    case True
    then show ?thesis using that perform_upholds [OF p, of sur ?s] acts(4) by simp
  next
    case False
    then have "upholds (job_claim sur st job') (set logged) q" using that assms(2) by (simp add: node_sound_def)
    then show ?thesis by (rule upholds_more) simp_all
  qed
  have fin: "job_claim sur st job' out (set (logged @ handed p))" if "(job', out) \<in> set (nr_finished n)" for job' out
    using that assms(2) stable_job_claim [of sur st job'] unfolding node_sound_def stable_def
    by (metis Un_upper1 set_append)
  have "node_sound sur st (logged @ handed p) n'"
    using assms(2) up fin perform_registry_wf [OF p, of ?s sur] perform_identity [of ?s sur p] acts
    unfolding node_sound_def by simp
  then show ?thesis
    using perform_identity [of ?s sur p] perform_env [where sur = sur and p = p and s = ?s] acts assms(2)
    by (simp add: node_sound_def)
next
  case (move_ends t job out)
  then have "upholds (job_claim sur st job) (set logged) (Return out)"
    using assms(2) unfolding node_sound_def by blast
  with move_ends show ?thesis using assms(2) by (auto simp: node_sound_def split: if_splits)
next
  case (move_network w)
  then show ?thesis using assms(2) by (simp add: node_sound_def)
qed

text \<open>The engine after its start: no thread is at work, no key is pinned.\<close>

definition node_start :: "'e AgentRegistry \<Rightarrow> 'e \<Rightarrow> 'w \<Rightarrow> ('e, 'w) node_run" where
  "node_start reg env w =
     \<lparr>nr_shared = \<lparr>sh_identity = new_IdentityService, sh_registry = reg, sh_env = env, sh_world = w\<rparr>,
      nr_running = (\<lambda>_. None), nr_finished = []\<rparr>"

lemma node_sound_start: "registry_wf (records reg) \<Longrightarrow> node_sound sur st [] (node_start reg env w)"
  by (simp add: node_sound_def node_start_def identity_wf_new)

lemma node_sound_run:
  assumes "node_moves sur st n hs n'" and "node_sound sur st logged n"
  shows "node_sound sur st (logged @ hs) n' \<and>
     keeps_pins (Some (sh_identity (nr_shared n))) (Some (sh_identity (nr_shared n'))) \<and>
     on_upsert (sh_registry (nr_shared n')) = on_upsert (sh_registry (nr_shared n)) \<and>
     sh_env (nr_shared n') = fold (\<lambda>r. notify_upsert r (sh_registry (nr_shared n))) hs (sh_env (nr_shared n))"
  using assms(1)
proof (induction rule: node_moves.induct)
  case moves_none
  then show ?case using assms(2) by simp
next
  case (moves_more hs n1 hs' n2)
  then have hs: "node_sound sur st (logged @ hs) n1"
    "keeps_pins (Some (sh_identity (nr_shared n))) (Some (sh_identity (nr_shared n1)))"
    "on_upsert (sh_registry (nr_shared n1)) = on_upsert (sh_registry (nr_shared n))"
    "sh_env (nr_shared n1) = fold (\<lambda>r. notify_upsert r (sh_registry (nr_shared n))) hs (sh_env (nr_shared n))"
    by blast+
  have same: "notify_upsert r (sh_registry (nr_shared n1)) = notify_upsert r (sh_registry (nr_shared n))" for r
    using hs(3) by (simp add: fun_eq_iff notify_upsert_def)
  have hs': "node_sound sur st (logged @ hs @ hs') n2"
    "keeps_pins (Some (sh_identity (nr_shared n1))) (Some (sh_identity (nr_shared n2)))"
    "on_upsert (sh_registry (nr_shared n2)) = on_upsert (sh_registry (nr_shared n1))"
    "sh_env (nr_shared n2) = fold (\<lambda>r. notify_upsert r (sh_registry (nr_shared n))) hs' (sh_env (nr_shared n1))"
    using node_sound_step [OF moves_more(2) hs(1)] by (auto simp: same)
  show ?case using hs hs' by (simp add: keeps_pins_trans [OF hs(2) hs'(2)])
qed

section \<open>One step\<close>

text \<open>What a step does to the record of an agent; only the purge of the maintenance loop removes it.\<close>

lemma perform_lookup:
  assumes "registry_wf (records (sh_registry s))" and "lookup (records (sh_registry s)) aid = Some e"
  shows "case lookup (records (sh_registry (snd (perform sur p s)))) aid of
       Some e' \<Rightarrow> revision e \<le> revision e' \<and> key_compatible e e'
     | None \<Rightarrow> \<exists>t k. p = Purge_expired t k \<and> expires_at e \<le> t"
proof (cases p)
  case (Upsert_locked r k)
  then show ?thesis
    using assms by (auto simp: perform_def case_prod_unfold Let_def lookup_upsert_records supersedes_def key_compatible_def)
next
  case (Refresh_heartbeat aid' t n k)
  then show ?thesis
    using assms
    by (auto simp: perform_def case_prod_unfold Let_def lookup_refresh_heartbeat key_compatible_def split: option.split)
next
  case (Purge_expired t k)
  then show ?thesis
    using assms by (auto simp: perform_def case_prod_unfold Let_def records_purge_expired lookup_filter
        key_compatible_def)
qed (use assms in \<open>simp_all add: perform_def case_prod_unfold Let_def key_compatible_def\<close>)

section \<open>The log of an interleaving\<close>

text \<open>The disk after a crash in the middle of an append, or after whatever else has left octets at the end of the log.\<close>

definition crashed :: "string \<Rightarrow> bytes \<Rightarrow> disk \<Rightarrow> disk" where
  "crashed wal tail d = d(wal := map_option (\<lambda>bs. bs @ tail) (d wal))"

lemma persist_record_log:
  "persist_record codec (engine_service wal) r (d(wal \<mapsto> bs)) = d(wal \<mapsto> bs @ entry_frame codec (entry_of_record r))"
  by (simp add: persist_record_def append_entry_def engine_service_def entry_frame_def split: option.split)

lemma persist_records_log:
  "fold (persist_record codec (engine_service wal)) rs (d(wal \<mapsto> log_of codec es)) =
     d(wal \<mapsto> log_of codec (es @ map entry_of_record rs))"
proof (induction rs arbitrary: es)
  case (Cons r rs)
  have "persist_record codec (engine_service wal) r (d(wal \<mapsto> log_of codec es)) =
      d(wal \<mapsto> log_of codec (es @ [entry_of_record r]))"
    by (simp add: persist_record_log)
  then have "fold (persist_record codec (engine_service wal)) (r # rs) (d(wal \<mapsto> log_of codec es)) =
      fold (persist_record codec (engine_service wal)) rs (d(wal \<mapsto> log_of codec (es @ [entry_of_record r])))"
    by (simp only: fold_simps)
  also have "\<dots> = d(wal \<mapsto> log_of codec ((es @ [entry_of_record r]) @ map entry_of_record rs))" by (rule Cons.IH)
  finally show ?case by (simp only: append_assoc append_Cons append_Nil list.map)
qed simp

lemma record_wf_restored: "list_all record_wf (restore_records clock es)"
  by (auto simp: list_all_iff in_restore_records record_of_entry_def new_AgentRecord_def record_wf_def)

text \<open>An entry of the log is in the registry after a start, at its revision or a later one.\<close>

lemma start_covers_entry:
  assumes "ready fs (engine_service wal) snap wal" and "can_open fs wal" and "d snap = None"
    and "d wal = Some (log_of codec es @ tail)" and "list_all (entry_fits codec) es"
    and "e \<in> set es" and "storable codec e" and "0 < re_timestamp e"
  shows "\<exists>reg d'. start_registry fs codec clock now d = (Inr reg, d') \<and>
     (\<exists>r. find_record (re_agent_id e) reg = Some r \<and> re_timestamp e \<le> revision r)"
proof -
  let ?es = "replay_wal codec 0 (log_of codec es @ tail) []"
  have "e \<in> set (List.map_filter (reads_back codec) es)"
    using assms(6) reads_back_storable [OF assms(7)] by (force simp: map_filter_def)
  then have "e \<in> set ?es"
    using assms(8) replay_keeps [of "filter (\<lambda>e. 0 < re_timestamp e) (List.map_filter (reads_back codec) es)" codec 0 tail]
    by (auto simp: replay_fitting [OF assms(5)])
  then obtain i where i: "i < length ?es" "e = ?es ! i" by (auto simp: in_set_conv_nth)
  then have x: "record_of_entry (clock i) e \<in> set (restore_records clock ?es)"
    unfolding in_restore_records by blast
  have "start_registry fs codec clock now d =
     (Inr (set_upsert_callback (Some (persist_record codec (engine_service wal)))
        (load_from_persistence now (restore_records clock ?es) new_AgentRegistry)), d(wal \<mapsto> log_of codec es @ tail))"
    by (rule start_registry_replays) (use assms(1-4) in simp_all)
  then show ?thesis
    using load_records_covers [OF x, of "now + hours (24 * 365)" "[]"]
    by (simp add: find_record_lookup set_upsert_callback_def load_from_persistence_def new_AgentRegistry_def
        record_of_entry_def Let_def)
qed

lemma started_registry_wf:
  "registry_wf (records (set_upsert_callback cb (load_from_persistence now (restore_records clock es) new_AgentRegistry)))"
  by (simp add: set_upsert_callback_def load_from_persistence_def new_AgentRegistry_def load_records_wf
      record_wf_restored Let_def)

text \<open>A confirmed registration is in the log, and the run has changed nothing else on the disk.\<close>

lemma acknowledged_logged:
  assumes "registry_wf (records reg)" and "on_upsert reg = Some (persist_record codec (engine_service wal))"
    and "node_moves sur st (node_start reg d w) hs n" and "d wal = Some (log_of codec es)"
    and "pred_option tells_success (sur_protobuf sur)"
    and "(job, result) \<in> set (nr_finished n)" and "acknowledged sur st job result = Some r"
  shows "sh_env (nr_shared n) = d(wal \<mapsto> log_of codec (es @ map entry_of_record hs)) \<and> r \<in> set hs"
proof -
  have sound: "node_sound sur st hs n" and env: "sh_env (nr_shared n) = fold (\<lambda>r. notify_upsert r reg) hs d"
    using node_sound_run [OF assms(3) node_sound_start [OF assms(1)]] by (auto simp: node_start_def)
  have "(\<lambda>r. notify_upsert r reg) = persist_record codec (engine_service wal)"
    by (simp add: fun_eq_iff notify_upsert_def assms(2))
  moreover have "d = d(wal \<mapsto> log_of codec es)" using assms(4) by (simp add: fun_upd_idem)
  ultimately have "sh_env (nr_shared n) = d(wal \<mapsto> log_of codec (es @ map entry_of_record hs))"
    using persist_records_log [of codec wal hs d es] by (simp only: env)
  moreover have "job_claim sur st job result (set hs)" using sound assms(6) by (auto simp: node_sound_def)
  then have "r \<in> set hs" using assms(5,7) by (simp add: job_claim_def)
  ultimately show ?thesis by blast
qed

section \<open>Properties\<close>

text \<open>
  Property C5: the registry and the trusted keys under concurrency.  However the steps of the four threads
  interleave, at every moment there is one well-formed record per agent and the trust store is well
  formed.  No single step loses or changes a key pinned in the trust store, lowers the revision of an
  agent in the registry, or replaces the non-empty key of its record by a different non-empty one; an
  update without a key may erase the key of the record, so that a later step can install another.  An
  agent leaves the registry only by a purge at an instant at which its lease has run out.
\<close>

theorem interleaved_threads_safe:
  assumes "registry_wf (records reg)" and "(node_step sur st)\<^sup>*\<^sup>* (node_start reg env w) n" and "node_step sur st n n'"
  shows "registry_wf (records (sh_registry (nr_shared n))) \<and> identity_wf (sh_identity (nr_shared n)) \<and>
     keeps_pins (Some (sh_identity (nr_shared n))) (Some (sh_identity (nr_shared n'))) \<and>
     (\<forall>aid e. find_record aid (sh_registry (nr_shared n)) = Some e \<longrightarrow>
        (case find_record aid (sh_registry (nr_shared n')) of
           Some e' \<Rightarrow> revision e \<le> revision e' \<and> key_compatible e e'
         | None \<Rightarrow> \<exists>t job k now. nr_running n t = Some (job, Purge_expired now k) \<and> expires_at e \<le> now))"
proof -
  obtain logged where "node_moves sur st (node_start reg env w) logged n"
    using assms(2) by (auto simp: node_steps_moves)
  from node_sound_run [OF this node_sound_start [OF assms(1)]] have s: "node_sound sur st logged n" by simp
  obtain hs where move: "node_move sur st n hs n'" using assms(3) by (auto simp: node_step_move)
  from s have wf: "registry_wf (records (sh_registry (nr_shared n)))" "identity_wf (sh_identity (nr_shared n))"
    by (simp_all add: node_sound_def)
  have "keeps_pins (Some (sh_identity (nr_shared n))) (Some (sh_identity (nr_shared n')))"
    using node_sound_step [OF move s] by blast
  moreover have "case find_record aid (sh_registry (nr_shared n')) of
           Some e' \<Rightarrow> revision e \<le> revision e' \<and> key_compatible e e'
         | None \<Rightarrow> \<exists>t job k now. nr_running n t = Some (job, Purge_expired now k) \<and> expires_at e \<le> now"
    if e: "find_record aid (sh_registry (nr_shared n)) = Some e" for aid e
    using assms(3)
  proof cases
    case (acts t job p p' s')
    then show ?thesis
      using perform_lookup [OF wf(1), of aid e p sur] e by (auto simp: find_record_lookup split: option.splits)
  qed (use e in \<open>simp_all add: key_compatible_def\<close>)
  ultimately show ?thesis using wf by blast
qed


text \<open>A node that serves one registration, for the witnesses.\<close>

definition sample_surroundings :: "unit surroundings" where
  "sample_surroundings =
     \<lparr>sur_sodium = None, sur_protobuf = None, sur_net = (\<lambda>_ _ w. (Connect_error ''refused'', w)), sur_udp = (\<lambda>_ _ _ w. w)\<rparr>"

definition sample_setup :: engine_setup where
  "sample_setup =
     \<lparr>set_config = default_config, set_reputation = new_ReputationEngine default_TrustConfig,
      set_gossip = new_GossipService default_NodeConfig default_GossipConfig\<rparr>"

definition sample_line :: string where
  "sample_line = ''REGISTER'' @ blank_prefixed (record_tokens (sample_record ''a'' 1 0))"

definition sample_job :: job where
  "sample_job = Session 0 \<lparr>peeked = take 9 (bytes_of_string (sample_line @ nl)), incoming = bytes_of_string (sample_line @ nl)\<rparr>"

lemma sample_line_parsed:
  "registration (parse_command 0 (setup_protocol sample_setup) sample_line) =
     sample_record ''a'' 1 (milliseconds (heartbeat_ttl (cfg_lifecycle default_config)))"
  "line_safe (sample_record ''a'' 1 0)" "newline \<notin> set sample_line"
proof -
  show safe: "line_safe (sample_record ''a'' 1 0)"
    by (simp add: line_safe_def sample_record_def token_simps is_space_def)
  show "registration (parse_command 0 (setup_protocol sample_setup) sample_line) =
     sample_record ''a'' 1 (milliseconds (heartbeat_ttl (cfg_lifecycle default_config)))"
    using parse_registration_line [OF safe, of "''REGISTER''" ControlAction_Register 0 "setup_protocol sample_setup"]
    by (simp add: sample_line_def setup_protocol_def sample_setup_def sample_record_def)
  show "newline \<notin> set sample_line"
    using agent_line_no_newline [OF safe] by (auto simp: sample_line_def newline_def)
qed

lemma sample_job_runs:
  assumes "records reg = []"
  shows "\<exists>s'. run_alone sample_surroundings (job_prog sample_surroundings sample_setup sample_job)
      (nr_shared (node_start reg env ())) = (Served (Some (bytes_of_string (ok_line ''registered''))), s')"
proof -
  let ?r = "sample_record ''a'' 1 (milliseconds (heartbeat_ttl (cfg_lifecycle default_config)))"
  let ?p = "setup_protocol sample_setup" and ?bs = "bytes_of_string (sample_line @ nl)"
  have x: "sample_line = CHR ''R'' # CHR ''E'' # drop 2 sample_line" by (simp add: sample_line_def)
  have upd: "(sample_record ''a'' 1 0)\<lparr>expires_at := 0 + milliseconds (heartbeat_ttl (proto_lifecycle ?p))\<rparr> = ?r"
    by (simp add: sample_record_def setup_protocol_def sample_setup_def)
  have ne: "node_id (sample_record ''a'' 1 0) \<noteq> []" "endpoint (sample_record ''a'' 1 0) \<noteq> []"
    by (simp_all add: sample_record_def)
  have "fst (handle_line None 0 ?p sample_line i reg env) = ok_line ''registered''" for i
    using handle_register_line [OF sample_line_parsed(2) ne, of None 0 ?p i reg env] assms
    by (simp add: sample_line_def upd handle_registration_def signature_rejection_def upsert_def
        upsert_records_def verify_agent_signature_def ok_line_def sample_record_def setup_protocol_def sample_setup_def
        default_config_def default_TrustConfig_def case_prod_unfold Let_def)
  then have "fst (serve_session None None 0 ?p \<lparr>peeked = take 9 ?bs, incoming = ?bs\<rparr> (i, reg, env))
      = Some (bytes_of_string (ok_line ''registered''))" for i
    using serve_session_line [OF _ _ sample_line_parsed(3) x, of "\<lparr>peeked = take 9 ?bs, incoming = ?bs\<rparr>" None None 0 ?p i reg env]
    by (simp add: connection_wf_def min_def case_prod_unfold)
  then show ?thesis
    by (simp add: sample_job_def run_alone_and_then run_session put_node_def node_start_def
        sample_surroundings_def case_prod_unfold)
qed

definition sample_reply :: job_result where
  "sample_reply = Served (Some (bytes_of_string (ok_line ''registered'')))"

definition sample_registered :: AgentRecord where
  "sample_registered = sample_record ''a'' 1 (milliseconds (heartbeat_ttl (cfg_lifecycle default_config)))"

lemma sample_run:
  assumes "records reg = []"
  shows "\<exists>n. (node_step sample_surroundings sample_setup)\<^sup>*\<^sup>* (node_start reg env ()) n \<and>
     (sample_job, sample_reply) \<in> set (nr_finished n)"
proof -
  obtain s' where "run_alone sample_surroundings (job_prog sample_surroundings sample_setup sample_job)
      (nr_shared (node_start reg env ())) = (sample_reply, s')"
    unfolding sample_reply_def by (rule exE [OF sample_job_runs [OF assms]])
  from job_alone [OF _ this] obtain n where "(node_step sample_surroundings sample_setup)\<^sup>*\<^sup>* (node_start reg env ()) n"
    "nr_finished n = [(sample_job, sample_reply)]"
    by (simp add: node_start_def)
  then show ?thesis by (intro exI [of _ n]) (simp only: list.set insertI1 conj_absorb simp_thms)
qed

lemma sample_acknowledged: "acknowledged sample_surroundings sample_setup sample_job sample_reply = Some sample_registered"
proof -
  let ?conn = "\<lparr>peeked = take 9 (bytes_of_string (sample_line @ nl)), incoming = bytes_of_string (sample_line @ nl)\<rparr>"
  have "\<not> (9 \<le> length (peeked ?conn) \<and> is_binary_frame_header (peeked ?conn))"
    by (rule text_not_binary [of _ "CHR ''R''" "CHR ''E''" "drop 2 (sample_line @ nl)"])
      (simp_all only: connection.simps, simp_all add: connection_wf_def min_def sample_line_def nl_def)
  note plain = this [unfolded connection.simps]
  have "takeWhile (\<lambda>c. c \<noteq> newline) (sample_line @ nl) = sample_line"
    unfolding nl_def using sample_line_parsed(3) by (intro takeWhile_append_stop) auto
  then show ?thesis
    using plain sample_line_parsed(1) by (auto simp: acknowledged_def sample_job_def sample_reply_def sample_registered_def)
qed

definition sample_log_codec :: entry_codec where
  "sample_log_codec = echo_codec (entry_of_record sample_registered)"

lemma sample_log_codec_ok: "entry_fits sample_log_codec e" "storable sample_log_codec (entry_of_record sample_registered)"
  by (simp_all add: sample_log_codec_def entry_fits_def echo_codec_def MAX_ENTRY_SIZE_def storable_def)

lemma sample_registered_simps: "agent_id sample_registered = ''a''" "revision sample_registered = 1"
  by (simp_all add: sample_registered_def sample_record_def)


theorem interleaved_threads_safe_witness:
  "let reg = new_AgentRegistry\<lparr>records := [sample_record ''a'' 1 0]\<rparr> :: unit AgentRegistry; n = node_start reg () ()
   in \<exists>n'. node_step sample_surroundings sample_setup n n' \<and> nr_running n' Main_thread \<noteq> None \<and>
        registry_wf (records (sh_registry (nr_shared n))) \<and>
        keeps_pins (Some (sh_identity (nr_shared n))) (Some (sh_identity (nr_shared n')))"
proof -
  let ?reg = "new_AgentRegistry\<lparr>records := [sample_record ''a'' 1 0]\<rparr> :: unit AgentRegistry"
  let ?n = "node_start ?reg () ()"
  let ?n1 = "set_thread Main_thread (Some (Tick 5, job_prog sample_surroundings sample_setup (Tick 5))) (nr_shared ?n) ?n"
  have wf: "registry_wf (records ?reg)"
    by (simp add: registry_wf_def record_wf_def sample_record_def)
  have "nr_running ?n (thread_of (Tick 5)) = None" by (simp add: node_start_def)
  from begins [OF this] have step: "node_step sample_surroundings sample_setup ?n ?n1" by (simp only: thread_of.simps)
  moreover have "nr_running ?n1 Main_thread \<noteq> None" by (simp del: job_prog.simps)
  ultimately show ?thesis
    using interleaved_threads_safe [OF wf rtranclp.rtrancl_refl step] unfolding Let_def by blast
qed

end
