(* ===== verification/Stdio_Faults.thy ===== *)
theory Stdio_Faults
  imports Persistence_Service "HOL-Library.Multiset"
begin

text \<open>
  \<^verbatim>\<open>src/src/beacon_net/persistence_service.cpp\<close> on a file system that can fail.  The code ignores the
  results of \<^verbatim>\<open>fwrite\<close>, \<^verbatim>\<open>fflush\<close>, \<^verbatim>\<open>fsync\<close> and \<^verbatim>\<open>fclose\<close>, so a full disk or a power loss in between shows up
  only in what the files contain afterwards.  A file table keeps what is durable, the operations that
  the system has accepted and not yet made durable, and the handles that are open.  A power loss
  keeps the durable part and any selection of the pending operations.
\<close>

section \<open>Files\<close>

datatype file_op =
    Touch string
  | Trunc string
  | Extend string bytes
  | Move string string

fun apply_op :: "file_op \<Rightarrow> disk \<Rightarrow> disk" where
  "apply_op (Touch p) d = d(p \<mapsto> (case d p of None \<Rightarrow> [] | Some bs \<Rightarrow> bs))"
| "apply_op (Trunc p) d = d(p \<mapsto> [])"
| "apply_op (Extend p bs) d = d(p \<mapsto> (case d p of None \<Rightarrow> [] | Some old \<Rightarrow> old) @ bs)"
| "apply_op (Move a b) d = (d(b := d a))(a := None)"

fun on_file :: "string \<Rightarrow> file_op \<Rightarrow> bool" where
  "on_file p (Touch q) = (p = q)"
| "on_file p (Trunc q) = (p = q)"
| "on_file p (Extend q bs) = (p = q)"
| "on_file p (Move a b) = False"

text \<open>
  The pending operations up to the last rename of a file, or onto it, and those after it, which are
  about the file that has the name now.
\<close>

fun moves_file :: "string \<Rightarrow> file_op \<Rightarrow> bool" where
  "moves_file p (Move a b) = (p = a \<or> p = b)"
| "moves_file p (Touch q) = False"
| "moves_file p (Trunc q) = False"
| "moves_file p (Extend q bs) = False"

fun until_move :: "string \<Rightarrow> file_op list \<Rightarrow> file_op list" where
  "until_move p [] = []"
| "until_move p (op # ops) = (if list_ex (moves_file p) (op # ops) then op # until_move p ops else [])"

fun since_move :: "string \<Rightarrow> file_op list \<Rightarrow> file_op list" where
  "since_move p [] = []"
| "since_move p (op # ops) = (if list_ex (moves_file p) (op # ops) then since_move p ops else op # ops)"

record file_table =
  ft_durable :: disk
  ft_pending :: "file_op list"
  ft_open :: "string multiset"

definition visible :: "file_table \<Rightarrow> disk" where
  "visible ft = fold apply_op (ft_pending ft) (ft_durable ft)"

definition power_loss :: "file_table \<Rightarrow> disk \<Rightarrow> bool" where
  "power_loss ft d \<longleftrightarrow> d \<in> set (map (\<lambda>ops. fold apply_op ops (ft_durable ft)) (subseqs (ft_pending ft)))"

definition issue :: "file_op list \<Rightarrow> file_table \<Rightarrow> file_table" where
  "issue ops ft = ft\<lparr>ft_pending := ft_pending ft @ ops\<rparr>"

definition open_handle :: "string \<Rightarrow> file_table \<Rightarrow> file_table" where
  "open_handle p ft = ft\<lparr>ft_open := add_mset p (ft_open ft)\<rparr>"

definition close_handle :: "string \<Rightarrow> file_table \<Rightarrow> file_table" where
  "close_handle p ft = ft\<lparr>ft_open := ft_open ft - {#p#}\<rparr>"

text \<open>
  How the calls of one operation come out: how many octets of each \<^verbatim>\<open>fwrite\<close> are written, and whether
  \<^verbatim>\<open>fsync\<close> succeeds.
\<close>

record io_outcome =
  accepts :: "nat \<Rightarrow> nat"
  sync_ok :: bool

definition delivered :: "io_outcome \<Rightarrow> bytes list \<Rightarrow> bytes list" where
  "delivered io chunks = map (\<lambda>(i, c). take (accepts io i) c) (enumerate 0 chunks)"

definition whole :: "io_outcome \<Rightarrow> bytes list \<Rightarrow> bool" where
  "whole io chunks = list_all (\<lambda>(i, c). length c \<le> accepts io i) (enumerate 0 chunks)"

definition complete :: "io_outcome \<Rightarrow> bytes list \<Rightarrow> bool" where
  "complete io chunks \<longleftrightarrow> whole io chunks \<and> sync_ok io"

section \<open>The service\<close>

text \<open>
  \<^verbatim>\<open>flush_handle\<close>: nothing for a null handle, otherwise \<^verbatim>\<open>fsync\<close>, which makes the contents of the file
  durable.  A pending rename of the file is committed with it, together with what precedes the rename,
  and so is the name of a file that is new; journaling file systems do so, and POSIX does not promise
  it.  What is shown of a power loss below starts from a log whose name is on the disk.
\<close>

definition flush_handle :: "io_outcome \<Rightarrow> string option \<Rightarrow> file_table \<Rightarrow> file_table" where
  "flush_handle io fp ft =
     (case fp of
        None \<Rightarrow> ft
      | Some p \<Rightarrow>
          if sync_ok io then
            ft\<lparr>ft_durable := fold apply_op (until_move p (ft_pending ft) @ filter (on_file p) (since_move p (ft_pending ft)))
                 (ft_durable ft),
               ft_pending := filter (\<lambda>op. \<not> on_file p op) (since_move p (ft_pending ft))\<rparr>
          else ft)"

definition io_open_wal ::
  "filesystem \<Rightarrow> PersistenceService \<Rightarrow> file_table \<Rightarrow> string option \<times> PersistenceService \<times> file_table" where
  "io_open_wal fs svc ft =
     (case resolve_secure_path fs (base_dir (pconfig svc)) (wal_path (pconfig svc)) of
        Inl e \<Rightarrow> (Some e, svc, ft)
      | Inr path \<Rightarrow>
          if can_open fs path then
            (None, svc\<lparr>wal_file := Some path\<rparr>, open_handle path (issue [Touch path] ft))
          else (None, svc\<lparr>wal_file := None\<rparr>, ft))"

definition io_new_PersistenceService ::
  "filesystem \<Rightarrow> PersistenceConfig \<Rightarrow> file_table \<Rightarrow> string option \<times> PersistenceService \<times> file_table" where
  "io_new_PersistenceService fs config ft = io_open_wal fs \<lparr>pconfig = config, wal_file = None\<rparr> ft"

text \<open>The destructor.\<close>

definition io_destroy :: "PersistenceService \<Rightarrow> file_table \<Rightarrow> file_table" where
  "io_destroy svc ft = (case wal_file svc of None \<Rightarrow> ft | Some p \<Rightarrow> close_handle p ft)"

definition frame_chunks :: "bytes \<Rightarrow> bytes list" where
  "frame_chunks serialized =
     (let size = (word_of_nat (length serialized) :: u32)
      in [u32_image size, u32_image (compute_crc32 serialized), take (unat size) serialized])"

definition io_append_entry ::
  "entry_codec \<Rightarrow> io_outcome \<Rightarrow> RegistryEntry \<Rightarrow> PersistenceService \<Rightarrow> file_table \<Rightarrow> file_table" where
  "io_append_entry codec io entry svc ft =
     (case wal_file svc of
        None \<Rightarrow> ft
      | Some path \<Rightarrow>
          (case entry_serialize codec entry of
             None \<Rightarrow> ft
           | Some serialized \<Rightarrow>
               flush_handle io (Some path)
                 (issue (map (Extend path) (delivered io (frame_chunks serialized))) ft)))"

definition snapshot_chunks :: "entry_codec \<Rightarrow> RegistryEntry list \<Rightarrow> bytes list" where
  "snapshot_chunks codec entries =
     u32_image (word_of_nat (length entries)) #
     concat (map (\<lambda>e. case entry_serialize codec e of None \<Rightarrow> [] | Some s \<Rightarrow> frame_chunks s) entries)"

definition io_create_snapshot ::
  "filesystem \<Rightarrow> entry_codec \<Rightarrow> io_outcome \<Rightarrow> RegistryEntry list \<Rightarrow> PersistenceService \<Rightarrow> file_table
   \<Rightarrow> string option \<times> PersistenceService \<times> file_table" where
  "io_create_snapshot fs codec io entries svc ft =
     (let ft = io_destroy svc ft;
          svc = svc\<lparr>wal_file := None\<rparr>
      in case resolve_secure_path fs (base_dir (pconfig svc)) (snapshot_path (pconfig svc)) of
           Inl e \<Rightarrow> (Some e, svc, ft)
         | Inr snap \<Rightarrow>
             (let tmp = snap @ ''.tmp''
              in if \<not> can_open fs tmp then io_open_wal fs svc ft
                 else
                   (let ft = open_handle tmp (issue [Trunc tmp] ft);
                        ft = issue (map (Extend tmp) (delivered io (snapshot_chunks codec entries))) ft;
                        ft = close_handle tmp (flush_handle io (Some tmp) ft);
                        ft = (if rename_ok fs tmp snap then issue [Move tmp snap] ft else ft)
                    in case resolve_secure_path fs (base_dir (pconfig svc)) (wal_path (pconfig svc)) of
                         Inl e \<Rightarrow> (Some e, svc, ft)
                       | Inr wal \<Rightarrow>
                           (let ft = (if can_open fs wal
                                      then close_handle wal (open_handle wal (issue [Trunc wal] ft)) else ft)
                            in io_open_wal fs svc ft))))"

section \<open>Writes that succeed\<close>

lemma delivered_whole: "whole io chunks \<Longrightarrow> delivered io chunks = chunks"
proof -
  assume "whole io chunks"
  then have "map (\<lambda>(i, c). take (accepts io i) c) (enumerate 0 chunks) = map snd (enumerate 0 chunks)"
    by (intro map_cong) (auto simp: whole_def list_all_iff)
  then show ?thesis by (simp add: delivered_def)
qed

lemma concat_frame_chunks: "concat (frame_chunks s) = frame_entry s"
  by (simp add: frame_chunks_def frame_entry_def Let_def)

lemma concat_snapshot_chunks: "concat (snapshot_chunks codec es) = snapshot_image codec es"
proof -
  have "concat (case entry_serialize codec e of None \<Rightarrow> [] | Some s \<Rightarrow> frame_chunks s) =
      (case entry_serialize codec e of None \<Rightarrow> [] | Some s \<Rightarrow> frame_entry s)" for e
    by (simp add: concat_frame_chunks split: option.split)
  then have "concat (concat (map (\<lambda>e. case entry_serialize codec e of None \<Rightarrow> [] | Some s \<Rightarrow> frame_chunks s) es)) =
      concat (map (\<lambda>e. case entry_serialize codec e of None \<Rightarrow> [] | Some s \<Rightarrow> frame_entry s) es)"
    by (induction es) simp_all
  then show ?thesis by (simp add: snapshot_chunks_def snapshot_image_def)
qed

lemma fold_extend:
  "fold apply_op (map (Extend p) cs) (d(p \<mapsto> bs)) = d(p \<mapsto> bs @ concat cs)"
  by (induction cs arbitrary: bs) simp_all

lemma fold_extend_some:
  "d p = Some bs \<Longrightarrow> fold apply_op (map (Extend p) cs) d = d(p \<mapsto> bs @ concat cs)"
  using fold_extend [of p cs d bs] by (simp add: fun_upd_idem)

lemma filter_on_file_extend [simp]:
  "filter (on_file p) (map (Extend p) cs) = map (Extend p) cs"
  "filter (\<lambda>op. \<not> on_file p op) (map (Extend p) cs) = []"
  by (induction cs) simp_all

lemma visible_issue [simp]: "visible (issue ops ft) = fold apply_op ops (visible ft)"
  by (simp add: visible_def issue_def)

lemma file_table_simps [simp]:
  "ft_open (issue ops ft) = ft_open ft"
  "ft_durable (issue ops ft) = ft_durable ft"
  "ft_pending (issue ops ft) = ft_pending ft @ ops"
  "ft_open (open_handle p ft) = add_mset p (ft_open ft)"
  "ft_durable (open_handle p ft) = ft_durable ft"
  "ft_pending (open_handle p ft) = ft_pending ft"
  "ft_open (close_handle p ft) = ft_open ft - {#p#}"
  "ft_durable (close_handle p ft) = ft_durable ft"
  "ft_pending (close_handle p ft) = ft_pending ft"
  "ft_open (flush_handle io fp ft) = ft_open ft"
  by (simp_all add: issue_def open_handle_def close_handle_def flush_handle_def split: option.split)

lemma visible_handles [simp]:
  "visible (open_handle p ft) = visible ft" "visible (close_handle p ft) = visible ft"
  by (simp_all add: visible_def)

text \<open>An \<^verbatim>\<open>fsync\<close> changes what is durable, not what the process sees.\<close>

lemma split_at_move:
  "until_move p ops @ since_move p ops = ops" "\<not> list_ex (moves_file p) (since_move p ops)"
  by (induction ops) (auto split: if_splits)

lemma no_move_split:
  "\<not> list_ex (moves_file p) ops \<Longrightarrow> until_move p ops = [] \<and> since_move p ops = ops"
  by (cases ops) auto

lemma extends_no_move [simp]: "\<not> list_ex (moves_file p) (map (Extend q) cs)"
  by (induction cs) simp_all

lemma ops_commute:
  "\<lbrakk>on_file p op; \<not> on_file p op'; \<not> moves_file p op'\<rbrakk> \<Longrightarrow>
   apply_op op (apply_op op' d) = apply_op op' (apply_op op d)"
  by (cases op; cases op') (auto simp: fun_eq_iff)

lemma fold_own_commute:
  "\<lbrakk>list_all (on_file p) ops; \<not> on_file p op'; \<not> moves_file p op'\<rbrakk> \<Longrightarrow>
   fold apply_op ops (apply_op op' d) = apply_op op' (fold apply_op ops d)"
proof (induction ops arbitrary: d)
  case (Cons op ops)
  have "apply_op op (apply_op op' d) = apply_op op' (apply_op op d)"
    by (rule ops_commute [of p]) (use Cons.prems in simp_all)
  with Cons show ?case by simp
qed simp

lemma fold_own_first:
  "\<not> list_ex (moves_file p) ops \<Longrightarrow>
   fold apply_op (filter (\<lambda>op. \<not> on_file p op) ops) (fold apply_op (filter (on_file p) ops) d) = fold apply_op ops d"
proof (induction ops arbitrary: d)
  case (Cons op ops)
  have own: "list_all (on_file p) (filter (on_file p) ops)" by (simp add: list_all_iff)
  have "apply_op op (fold apply_op (filter (on_file p) ops) d) = fold apply_op (filter (on_file p) ops) (apply_op op d)"
    if "\<not> on_file p op" using fold_own_commute [OF own that] Cons.prems by simp
  with Cons show ?case by simp
qed simp

lemma visible_flush [simp]: "visible (flush_handle io fp ft) = visible ft"
proof -
  have "fold apply_op (filter (\<lambda>op. \<not> on_file p op) (since_move p ops))
      (fold apply_op (until_move p ops @ filter (on_file p) (since_move p ops)) d) = fold apply_op ops d" for p ops d
    using fold_own_first [OF split_at_move(2)] fold_append [of apply_op "until_move p ops" "since_move p ops"]
    by (simp add: split_at_move(1))
  then show ?thesis by (simp add: visible_def flush_handle_def split: option.split)
qed

lemma flush_own:
  "\<lbrakk>sync_ok io; list_all (on_file p) (ft_pending ft)\<rbrakk> \<Longrightarrow>
   flush_handle io (Some p) ft = ft\<lparr>ft_durable := visible ft, ft_pending := []\<rparr>"
proof -
  assume a: "sync_ok io" "list_all (on_file p) (ft_pending ft)"
  have "\<not> moves_file p op" if "on_file p op" for op using that by (cases op) simp_all
  then have "\<not> list_ex (moves_file p) (ft_pending ft)" using a(2) by (auto simp: list_all_iff list_ex_iff)
  with no_move_split [OF this] a show ?thesis by (simp add: flush_handle_def visible_def list_all_iff)
qed

text \<open>
  A file table in which at most the opening of the log is pending, as the constructor leaves it; an
  append that is written and flushed leaves it so.
\<close>

definition settled_but :: "string \<Rightarrow> file_table \<Rightarrow> bool" where
  "settled_but wal ft \<longleftrightarrow> ft_pending ft \<in> {[], [Touch wal]}"

lemma append_settled:
  assumes "settled_but wal ft" and "wal_file svc = Some wal" and "ft_durable ft wal = Some bs"
    and "entry_serialize codec e = Some s" and "complete io (frame_chunks s)"
  shows "io_append_entry codec io e svc ft =
     ft\<lparr>ft_durable := (ft_durable ft)(wal \<mapsto> bs @ frame_entry s), ft_pending := []\<rparr>"
proof -
  let ?ft = "issue (map (Extend wal) (frame_chunks s)) ft"
  have own: "list_all (on_file wal) (ft_pending ?ft)" using assms(1) by (auto simp: settled_but_def list_all_iff)
  have "visible ft = ft_durable ft"
    using assms(1,3) by (auto simp: settled_but_def visible_def fun_upd_idem)
  then have "visible ?ft = (ft_durable ft)(wal \<mapsto> bs @ frame_entry s)"
    using fold_extend_some [of "ft_durable ft" wal bs "frame_chunks s"] assms(3) by (simp add: concat_frame_chunks)
  then show ?thesis
    using assms flush_own [OF _ own, of io]
    by (cases ft) (simp add: io_append_entry_def delivered_whole complete_def issue_def)
qed

section \<open>Writes that fail\<close>

text \<open>
  The log begins with \<open>bs\<close> and all that is pending extends it.  Every append keeps this, however its
  calls come out.
\<close>

fun grows :: "string \<Rightarrow> file_op \<Rightarrow> bool" where
  "grows p (Touch q) = (p = q)"
| "grows p (Extend q bs) = (p = q)"
| "grows p (Trunc q) = False"
| "grows p (Move a b) = False"

lemma fold_grows:
  "\<lbrakk>list_all (grows p) ops; d p = Some bs\<rbrakk> \<Longrightarrow> \<exists>tail. fold apply_op ops d = d(p \<mapsto> bs @ tail)"
proof (induction ops arbitrary: d bs)
  case Nil
  then show ?case by (intro exI [of _ "[]"]) (simp add: fun_upd_idem)
next
  case (Cons op ops)
  have "\<exists>t. apply_op op d = d(p \<mapsto> bs @ t)"
  proof (cases op)
    case (Touch q)
    then show ?thesis using Cons.prems by (intro exI [of _ "[]"]) simp
  qed (use Cons.prems in auto)
  then obtain t where t: "apply_op op d = d(p \<mapsto> bs @ t)" ..
  obtain tail where "fold apply_op ops (d(p \<mapsto> bs @ t)) = (d(p \<mapsto> bs @ t))(p \<mapsto> (bs @ t) @ tail)"
    using Cons.IH [of "d(p \<mapsto> bs @ t)" "bs @ t"] Cons.prems(1) by (auto simp: fun_upd_same simp del: fun_upd_apply)
  then show ?case by (intro exI [of _ "t @ tail"]) (simp add: t del: fun_upd_apply)
qed

lemma grows_own: "list_all (grows p) ops \<Longrightarrow> list_all (on_file p) ops"
proof -
  have "grows p op \<Longrightarrow> on_file p op" for op by (cases op) simp_all
  then show "list_all (grows p) ops \<Longrightarrow> list_all (on_file p) ops" by (auto simp: list_all_iff)
qed

definition log_begins :: "string \<Rightarrow> bytes \<Rightarrow> file_table \<Rightarrow> bool" where
  "log_begins wal bs ft \<longleftrightarrow> (\<exists>tail. ft_durable ft wal = Some (bs @ tail)) \<and> list_all (grows wal) (ft_pending ft)"

lemma log_begins_append:
  assumes "log_begins wal bs ft" and "wal_file svc \<in> {None, Some wal}"
  shows "log_begins wal bs (io_append_entry codec io e svc ft) \<and>
     (\<forall>p. p \<noteq> wal \<longrightarrow> ft_durable (io_append_entry codec io e svc ft) p = ft_durable ft p)"
proof (cases "wal_file svc = Some wal \<and> entry_serialize codec e \<noteq> None")
  case True
  then obtain s where s: "entry_serialize codec e = Some s" by blast
  let ?ft = "issue (map (Extend wal) (delivered io (frame_chunks s))) ft"
  have g: "list_all (grows wal) (ft_pending ?ft)" using assms(1) by (auto simp: log_begins_def list_all_iff)
  obtain tail where "ft_durable ?ft wal = Some (bs @ tail)" using assms(1) by (auto simp: log_begins_def)
  from fold_grows [where d = "ft_durable ?ft" and bs = "bs @ tail", OF g this] obtain t where t: "visible ?ft = (ft_durable ft)(wal \<mapsto> bs @ tail @ t)"
    by (auto simp: visible_def simp del: fun_upd_apply)
  have "log_begins wal bs ?ft" using assms(1) g by (simp add: log_begins_def)
  then have "log_begins wal bs (flush_handle io (Some wal) ?ft) \<and>
      (\<forall>p. p \<noteq> wal \<longrightarrow> ft_durable (flush_handle io (Some wal) ?ft) p = ft_durable ft p)"
    using flush_own [OF _ grows_own [OF g], of io] t
    by (cases "sync_ok io") (simp_all add: log_begins_def, simp add: flush_handle_def)
  then show ?thesis using True s by (simp add: io_append_entry_def)
next
  case False
  then show ?thesis using assms by (auto simp: io_append_entry_def split: option.split)
qed

lemma subseqs_subset: "xs \<in> set (subseqs ys) \<Longrightarrow> set xs \<subseteq> set ys"
  using subseqs_powset [of ys] by blast

text \<open>A power loss may keep nothing of what is pending.\<close>

lemma power_loss_of_all: "power_loss ft (ft_durable ft)"
proof -
  have "[] \<in> set (subseqs xs)" for xs :: "file_op list" by (induction xs) (auto simp: Let_def)
  then show ?thesis by (force simp: power_loss_def)
qed

lemma log_begins_power_loss:
  assumes "log_begins wal bs ft" and "power_loss ft d"
  shows "\<exists>tail. d wal = Some (bs @ tail) \<and> (\<forall>p. p \<noteq> wal \<longrightarrow> d p = ft_durable ft p)"
proof -
  obtain tail where t: "ft_durable ft wal = Some (bs @ tail)" "list_all (grows wal) (ft_pending ft)"
    using assms(1) by (auto simp: log_begins_def)
  obtain ops where ops: "ops \<in> set (subseqs (ft_pending ft))" "d = fold apply_op ops (ft_durable ft)"
    using assms(2) by (auto simp: power_loss_def)
  have "list_all (grows wal) ops" using subseqs_subset [OF ops(1)] t(2) by (auto simp: list_all_iff)
  from fold_grows [where d = "ft_durable ft" and bs = "bs @ tail", OF this t(1)] show ?thesis by (auto simp: ops(2))
qed

text \<open>A series of appends, each with its outcome.\<close>

definition io_appends ::
  "entry_codec \<Rightarrow> (io_outcome \<times> RegistryEntry) list \<Rightarrow> PersistenceService \<Rightarrow> file_table \<Rightarrow> file_table" where
  "io_appends codec calls svc ft = fold (\<lambda>(io, e). io_append_entry codec io e svc) calls ft"

definition written :: "entry_codec \<Rightarrow> io_outcome \<times> RegistryEntry \<Rightarrow> bool" where
  "written codec call =
     (case entry_serialize codec (snd call) of None \<Rightarrow> True | Some s \<Rightarrow> complete (fst call) (frame_chunks s))"

lemma log_begins_appends:
  "\<lbrakk>log_begins wal bs ft; wal_file svc \<in> {None, Some wal}\<rbrakk> \<Longrightarrow>
   log_begins wal bs (io_appends codec calls svc ft) \<and>
   (\<forall>p. p \<noteq> wal \<longrightarrow> ft_durable (io_appends codec calls svc ft) p = ft_durable ft p)"
proof (induction calls arbitrary: ft)
  case (Cons c calls)
  let ?ft = "io_append_entry codec (fst c) (snd c) svc ft"
  have "io_appends codec (c # calls) svc ft = io_appends codec calls svc ?ft"
    by (simp add: io_appends_def case_prod_unfold)
  then show ?case
    using Cons.IH [of ?ft] log_begins_append [OF Cons.prems, of codec "fst c" "snd c"] Cons.prems(2) by simp
qed (simp add: io_appends_def)

lemma appends_settled:
  "\<lbrakk>settled_but wal ft; wal_file svc = Some wal; ft_durable ft wal = Some bs; list_all (written codec) calls\<rbrakk> \<Longrightarrow>
   settled_but wal (io_appends codec calls svc ft) \<and>
   ft_durable (io_appends codec calls svc ft) = (ft_durable ft)(wal \<mapsto> bs @ log_of codec (map snd calls))"
proof (induction calls arbitrary: ft bs)
  case Nil
  then show ?case by (auto simp: io_appends_def fun_upd_idem)
next
  case (Cons call calls)
  obtain io e where c: "call = (io, e)" by (cases call)
  let ?ft = "io_append_entry codec io e svc ft"
  have one: "settled_but wal ?ft \<and> ft_durable ?ft = (ft_durable ft)(wal \<mapsto> bs @ entry_frame codec e)"
  proof (cases "entry_serialize codec e")
    case None
    then have "?ft = ft" using Cons.prems(2) by (simp add: io_append_entry_def)
    then show ?thesis
      using Cons.prems None by (simp_all add: entry_frame_def fun_upd_idem)
  next
    case (Some s)
    have "complete io (frame_chunks s)" using Cons.prems(4) Some by (simp add: c written_def)
    from append_settled [OF Cons.prems(1-3) Some this] show ?thesis
      using Some by (simp_all add: settled_but_def entry_frame_def)
  qed
  have "io_appends codec (call # calls) svc ft = io_appends codec calls svc ?ft"
    by (simp add: io_appends_def c)
  then show ?case
    using Cons.prems Cons.IH [of ?ft "bs @ entry_frame codec e"] one by (simp del: fun_upd_apply add: fun_upd_same c)
qed

section \<open>Handles\<close>

definition handles_ok :: "PersistenceService \<Rightarrow> file_table \<Rightarrow> bool" where
  "handles_ok svc ft \<longleftrightarrow> ft_open ft = (case wal_file svc of None \<Rightarrow> {#} | Some p \<Rightarrow> {#p#})"

datatype io_call = Append_call io_outcome RegistryEntry | Snapshot_call io_outcome "RegistryEntry list"

text \<open>The life of a service object between its construction and its destruction.\<close>

fun io_calls ::
  "filesystem \<Rightarrow> entry_codec \<Rightarrow> io_call list \<Rightarrow> PersistenceService \<Rightarrow> file_table
   \<Rightarrow> string option list \<times> PersistenceService \<times> file_table" where
  "io_calls fs codec [] svc ft = ([], svc, ft)"
| "io_calls fs codec (Append_call io e # calls) svc ft =
     (case io_calls fs codec calls svc (io_append_entry codec io e svc ft) of (errs, end) \<Rightarrow> (None # errs, end))"
| "io_calls fs codec (Snapshot_call io es # calls) svc ft =
     (case io_create_snapshot fs codec io es svc ft of (err, svc', ft') \<Rightarrow>
        (case io_calls fs codec calls svc' ft' of (errs, end) \<Rightarrow> (err # errs, end)))"

lemma handles_append: "handles_ok svc ft \<Longrightarrow> handles_ok svc (io_append_entry codec io e svc ft)"
  by (auto simp: handles_ok_def io_append_entry_def split: option.split)

lemma handles_open_wal:
  "\<lbrakk>io_open_wal fs svc ft = (err, svc', ft'); ft_open ft = {#}; wal_file svc = None\<rbrakk> \<Longrightarrow> handles_ok svc' ft'"
  by (auto simp: io_open_wal_def handles_ok_def split: sum.splits if_splits)

lemma handles_destroy: "handles_ok svc ft \<Longrightarrow> ft_open (io_destroy svc ft) = {#}"
  by (auto simp: handles_ok_def io_destroy_def split: option.split)

lemma handles_snapshot:
  "handles_ok svc ft \<Longrightarrow> case io_create_snapshot fs codec io es svc ft of (_, svc', ft') \<Rightarrow> handles_ok svc' ft'"
  using handles_destroy [of svc ft]
  by (auto simp: io_create_snapshot_def Let_def handles_ok_def [of "svc\<lparr>wal_file := None\<rparr>"]
      elim: handles_open_wal split: sum.split)

lemma handles_calls: "handles_ok svc ft \<Longrightarrow> case io_calls fs codec calls svc ft of (_, svc', ft') \<Rightarrow> handles_ok svc' ft'"
proof (induction fs codec calls svc ft rule: io_calls.induct)
  case (3 fs codec io es calls svc ft)
  then show ?case using handles_snapshot [OF "3.prems", of fs codec io es] by (auto split: prod.splits)
qed (auto simp: handles_append split: prod.splits)

section \<open>Snapshots that are cut short\<close>

text \<open>The loop over a snapshot whose octets end early: the entries that are complete, and no error.\<close>

lemma read_snapshot_torn:
  assumes "storable codec e" and "k < length (entry_frame codec e)"
  shows "read_snapshot codec (Suc n) (take k (entry_frame codec e)) acc m = Inr (acc, m, [])"
proof -
  obtain s where f: "entry_frame codec e = u32_image (word_of_nat (length s)) @ u32_image (compute_crc32 s) @ s"
    and s: "length s \<le> MAX_ENTRY_SIZE" "unat (word_of_nat (length s) :: u32) = length s"
    using assms(1) by (rule storable_frame)
  have k: "k < 8 + length s" using assms(2) by (simp add: f le32.enc_length)
  consider "k < 4" | "4 \<le> k \<and> k < 8" | "8 \<le> k" by linarith
  then show ?thesis
  proof cases
    case 1
    then show ?thesis by (simp add: stream_read_def f le32.enc_length)
  next
    case 2
    then have "take k (entry_frame codec e)
        = u32_image (word_of_nat (length s)) @ take (k - 4) (u32_image (compute_crc32 s) @ s)"
      by (simp add: f le32.enc_length)
    moreover have "stream_read 4 (take (k - 4) (u32_image (compute_crc32 s) @ s)) = None"
      using 2 by (auto simp: stream_read_def le32.enc_length)
    ultimately show ?thesis using s by (simp add: le32.dec_enc Let_def)
  next
    case 3
    then have "take k (entry_frame codec e)
        = u32_image (word_of_nat (length s)) @ u32_image (compute_crc32 s) @ take (k - 8) s"
      by (simp add: f le32.enc_length)
    moreover have "stream_read (length s) (take (k - 8) s) = None"
      using k 3 by (auto simp: stream_read_def)
    ultimately show ?thesis using s by (simp add: le32.dec_enc Let_def)
  qed
qed

lemma read_snapshot_prefix:
  assumes "list_all (storable codec) es" and "k < length (log_of codec es)"
  shows "\<exists>n<length es. length (log_of codec (take n es)) \<le> k \<and>
     (\<exists>m'. read_snapshot codec (length es) (take k (log_of codec es)) acc m = Inr (acc @ take n es, m', []))"
  using assms
proof (induction es arbitrary: k acc m)
  case (Cons e es)
  let ?f = "entry_frame codec e"
  have e: "storable codec e" using Cons.prems(1) by simp
  show ?case
  proof (cases "k < length ?f")
    case True
    then have "take k (log_of codec (e # es)) = take k ?f" by simp
    then have "read_snapshot codec (length (e # es)) (take k (log_of codec (e # es))) acc m = Inr (acc @ take 0 (e # es), m, [])"
      using read_snapshot_torn [OF e True, of "length es" acc m] by (simp only: list.size take_0 append_Nil2 add_Suc_right add_0_right)
    then show ?thesis by (intro exI [of _ 0] conjI exI [of _ m]) (simp_all del: read_snapshot.simps)
  next
    case False
    then have k: "take k (log_of codec (e # es)) = ?f @ take (k - length ?f) (log_of codec es)" by simp
    obtain s where f: "?f = u32_image (word_of_nat (length s)) @ u32_image (compute_crc32 s) @ s"
      and s: "length s \<le> MAX_ENTRY_SIZE" "entry_parse codec s = Some e"
        "unat (word_of_nat (length s) :: u32) = length s"
      using e storable_frame [of codec e] by auto
    let ?m = "if re_timestamp e > m then re_timestamp e else m"
    have step: "read_snapshot codec (length (e # es)) (?f @ rest) acc m =
        read_snapshot codec (length es) rest (acc @ [e]) ?m" for rest
      using f s by (simp add: le32.dec_enc Let_def)
    have "k - length ?f < length (log_of codec es)" using Cons.prems(2) False by simp
    then obtain n m' where n: "n < length es" "length (log_of codec (take n es)) \<le> k - length ?f"
      "read_snapshot codec (length es) (take (k - length ?f) (log_of codec es)) (acc @ [e]) ?m =
         Inr ((acc @ [e]) @ take n es, m', [])"
      using Cons.IH [of "k - length ?f" "acc @ [e]" ?m] Cons.prems(1) by auto
    then show ?thesis
      unfolding k step using False by (intro exI [of _ "Suc n"]) auto
  qed
qed simp

lemma recover_snapshot_cut:
  assumes "list_all (storable codec) es" and "length es \<le> MAX_SNAPSHOT_RECORDS"
    and "4 \<le> k" and "k < length (snapshot_image codec es)"
  shows "\<exists>n<length es. length (log_of codec (take n es)) \<le> k - 4 \<and>
     (\<exists>m. recover_snapshot codec (take k (snapshot_image codec es)) = Inr (take n es, m))"
proof -
  have u: "unat (word_of_nat (length es) :: u32) = length es"
    using assms(2) by (simp add: unat_of_nat MAX_SNAPSHOT_RECORDS_def)
  have img: "snapshot_image codec es = u32_image (word_of_nat (length es)) @ log_of codec es"
    by (simp add: snapshot_image_def log_of_def log_of_frames)
  then have t: "take k (snapshot_image codec es) = u32_image (word_of_nat (length es)) @ take (k - 4) (log_of codec es)"
    using assms(3) by (simp add: le32.enc_length)
  have "k - 4 < length (log_of codec es)" using assms(3,4) by (simp add: img le32.enc_length)
  from read_snapshot_prefix [OF assms(1) this, of "[]" 0] show ?thesis
    using u assms(2) by (auto simp: t recover_snapshot_def le32.enc_length le32.dec_enc Let_def)
qed

text \<open>The temporary file after it was written and flushed.\<close>

lemma snapshot_written:
  "visible (flush_handle io (Some tmp) (issue (map (Extend tmp) cs) (open_handle tmp (issue [Trunc tmp] ft))))
     = (visible ft)(tmp \<mapsto> concat cs)"
  using fold_extend [of tmp cs "visible ft" "[]"] by simp

lemma destroy_settled [simp]:
  "ft_pending (io_destroy svc ft) = ft_pending ft" "ft_durable (io_destroy svc ft) = ft_durable ft"
  "visible (io_destroy svc ft) = visible ft"
  by (simp_all add: io_destroy_def split: option.split)

lemma open_wal_visible:
  "io_open_wal fs svc ft = (err, svc', ft') \<Longrightarrow> open_wal fs svc (visible ft) = (err, svc', visible ft')"
  by (auto simp: io_open_wal_def open_wal_def split: sum.splits if_splits)

lemma snapshot_visible:
  assumes "concat (delivered io (snapshot_chunks codec es)) = img"
    and "ready fs svc snap wal" and "can_open fs (snap @ ''.tmp'')" and "can_open fs wal"
    and "rename_ok fs (snap @ ''.tmp'') snap"
    and "io_create_snapshot fs codec io es svc ft = (err, svc', ft')"
  shows "err = None" "svc' = svc"
    and "visible ft' = (visible ft)(snap \<mapsto> img, snap @ ''.tmp'' := None, wal \<mapsto> [])"
proof -
  let ?tmp = "snap @ ''.tmp''"
  let ?ft1 = "close_handle ?tmp (flush_handle io (Some ?tmp)
      (issue (map (Extend ?tmp) (delivered io (snapshot_chunks codec es)))
        (open_handle ?tmp (issue [Trunc ?tmp] (io_destroy svc ft)))))"
  let ?ft2 = "close_handle wal (open_handle wal (issue [Trunc wal] (issue [Move ?tmp snap] ?ft1)))"
  have v1: "visible ?ft1 = (visible ft)(?tmp \<mapsto> img)"
    using snapshot_written [of io ?tmp _ "io_destroy svc ft"] assms(1) by simp
  let ?d = "(visible ft)(snap \<mapsto> img, ?tmp := None, wal \<mapsto> [])"
  have "io_open_wal fs (svc\<lparr>wal_file := None\<rparr>) ?ft2 = (err, svc', ft')"
    using assms(2-6) by (simp add: io_create_snapshot_def ready_def Let_def)
  moreover have "visible ?ft2 = ?d" by (simp only: visible_issue visible_handles(1,2) v1 [simplified visible_handles(2)] fold_simps id_apply apply_op.simps) (auto simp: fun_eq_iff)
  ultimately have "open_wal fs (svc\<lparr>wal_file := None\<rparr>) ?d = (err, svc', visible ft')"
    using open_wal_visible [of fs "svc\<lparr>wal_file := None\<rparr>" ?ft2 err svc' ft'] by (simp only:)
  moreover have "open_wal fs (svc\<lparr>wal_file := None\<rparr>) ?d = (None, svc, ?d)"
    using assms(2,4) by (cases svc) (simp add: open_wal_def ready_def)
  ultimately show "err = None" "svc' = svc" "visible ft' = ?d" by simp_all
qed

lemma opened_log:
  "\<lbrakk>io_new_PersistenceService fs config ft0 = (None, svc, ft); wal_file svc = Some wal\<rbrakk> \<Longrightarrow>
   ft_pending ft = ft_pending ft0 @ [Touch wal] \<and> ft_durable ft = ft_durable ft0"
  by (auto simp: io_new_PersistenceService_def io_open_wal_def split: sum.splits if_splits)

section \<open>The idealised service\<close>

text \<open>The same calls on the service whose every call takes effect at once.\<close>

fun ideal_calls ::
  "filesystem \<Rightarrow> entry_codec \<Rightarrow> io_call list \<Rightarrow> PersistenceService \<Rightarrow> disk
   \<Rightarrow> string option list \<times> PersistenceService \<times> disk" where
  "ideal_calls fs codec [] svc d = ([], svc, d)"
| "ideal_calls fs codec (Append_call io e # calls) svc d =
     (case ideal_calls fs codec calls svc (append_entry codec e svc d) of (errs, end) \<Rightarrow> (None # errs, end))"
| "ideal_calls fs codec (Snapshot_call io es # calls) svc d =
     (case create_snapshot fs codec es svc d of (err, svc', d') \<Rightarrow>
        (case ideal_calls fs codec calls svc' d' of (errs, end) \<Rightarrow> (err # errs, end)))"

fun whole_call :: "entry_codec \<Rightarrow> io_call \<Rightarrow> bool" where
  "whole_call codec (Append_call io e) =
     (case entry_serialize codec e of None \<Rightarrow> True | Some s \<Rightarrow> whole io (frame_chunks s))"
| "whole_call codec (Snapshot_call io es) = whole io (snapshot_chunks codec es)"

lemma append_visible:
  assumes "whole_call codec (Append_call io e)"
  shows "visible (io_append_entry codec io e svc ft) = append_entry codec e svc (visible ft)"
proof -
  have "fold apply_op (map (Extend wal) (frame_chunks s)) d =
      d(wal \<mapsto> (case d wal of None \<Rightarrow> [] | Some bs \<Rightarrow> bs) @ frame_entry s)" for s d wal
    by (simp add: frame_chunks_def frame_entry_def Let_def)
  with assms show ?thesis
    by (simp add: io_append_entry_def append_entry_def delivered_whole split: option.splits)
qed

lemma create_snapshot_visible:
  assumes "whole_call codec (Snapshot_call io es)"
  shows "case io_create_snapshot fs codec io es svc ft of (err, svc', ft') \<Rightarrow>
     create_snapshot fs codec es svc (visible ft) = (err, svc', visible ft')"
proof -
  have img: "concat (delivered io (snapshot_chunks codec es)) = snapshot_image codec es"
    using assms by (simp add: delivered_whole concat_snapshot_chunks)
  have w: "fold apply_op (map (Extend tmp) (delivered io (snapshot_chunks codec es))) ((visible ft)(tmp \<mapsto> [])) =
      (visible ft)(tmp \<mapsto> snapshot_image codec es)" for tmp
    using fold_extend [of tmp _ "visible ft" "[]"] by (simp add: img)
  have open_wal_io: "case io_open_wal fs sv f of (err, svc', ft') \<Rightarrow> open_wal fs sv (visible f) = (err, svc', visible ft')" for sv f
    using open_wal_visible by (auto split: prod.split)
  show ?thesis
    using open_wal_io [of "svc\<lparr>wal_file := None\<rparr>"]
    by (simp add: io_create_snapshot_def create_snapshot_def Let_def w split: sum.split)
      (auto simp: w dest: open_wal_visible split: sum.split prod.split)
qed

lemma calls_visible:
  "list_all (whole_call codec) calls \<Longrightarrow>
   case io_calls fs codec calls svc ft of (errs, svc', ft') \<Rightarrow>
     ideal_calls fs codec calls svc (visible ft) = (errs, svc', visible ft')"
proof (induction fs codec calls svc ft rule: io_calls.induct)
  case (2 fs codec io e calls svc ft)
  then show ?case using append_visible [of codec io e svc ft] by (auto split: prod.splits)
next
  case (3 fs codec io es calls svc ft)
  then show ?case using create_snapshot_visible [of codec io es fs svc ft] by (fastforce split: prod.splits)
qed simp

text \<open>Replay steps over groups of eight octets that look like the header of an oversized entry.\<close>

lemma replay_skips_group:
  "\<lbrakk>length g = 8; MAX_ENTRY_SIZE < unat (u32_of_image (take 4 g))\<rbrakk> \<Longrightarrow>
   replay_wal codec m (g @ rest) acc = replay_wal codec m rest acc"
  by (subst replay_wal.simps) (simp add: stream_read_def Let_def)

lemma replay_skips_groups:
  "list_all (\<lambda>g. length g = 8 \<and> MAX_ENTRY_SIZE < unat (u32_of_image (take 4 g))) gs \<Longrightarrow>
   replay_wal codec m (concat gs @ rest) acc = replay_wal codec m rest acc"
  by (induction gs) (simp_all add: replay_skips_group)

section \<open>Properties\<close>

text \<open>
  Property C12: where every write takes all its octets, the service on files that can fail behaves, as
  far as the process can see, like the idealised service, over its whole life and whatever is still
  pending when it starts: the constructor and then any sequence of appends and snapshots end with the
  same exceptions, the same handle and the same files, whatever paths resolve, open and rename, and
  whether or not \<^verbatim>\<open>fsync\<close> succeeds.  The files are those a process sees, with all pending operations
  applied; what a power loss leaves is not part of this.
\<close>

theorem complete_io_refines:
  assumes "list_all (whole_call codec) calls"
  shows "case io_new_PersistenceService fs config ft of (err, svc, ft1) \<Rightarrow>
     new_PersistenceService fs config (visible ft) = (err, svc, visible ft1) \<and>
     (case io_calls fs codec calls svc ft1 of (errs, svc', ft') \<Rightarrow>
        ideal_calls fs codec calls svc (visible ft1) = (errs, svc', visible ft'))"
proof -
  have "case io_new_PersistenceService fs config ft of (err, svc, ft1) \<Rightarrow>
     new_PersistenceService fs config (visible ft) = (err, svc, visible ft1)"
    using open_wal_visible
    by (auto simp: io_new_PersistenceService_def new_PersistenceService_def split: prod.split)
  then show ?thesis using calls_visible [OF assms] by (auto split: prod.splits)
qed


text \<open>
  No file handle is leaked.  However the calls on a service object come out, exceptions
  included, the handle it remembers is the only one it has open, and after its destruction none is.
\<close>

theorem no_handle_leak:
  assumes "ft_open ft = {#}" and "io_new_PersistenceService fs config ft = (None, svc, ft1)"
    and "io_calls fs codec calls svc ft1 = (errs, svc', ft')"
  shows "ft_open ft' = (case wal_file svc' of None \<Rightarrow> {#} | Some p \<Rightarrow> {#p#}) \<and> ft_open (io_destroy svc' ft') = {#}"
proof -
  have "handles_ok svc ft1"
    using assms(1,2) handles_open_wal [of fs _ ft None svc ft1] by (simp add: io_new_PersistenceService_def)
  then have "handles_ok svc' ft'" using handles_calls [of svc ft1 fs codec calls] assms(3) by simp
  then show ?thesis using handles_destroy by (simp add: handles_ok_def)
qed

text \<open>
  A snapshot on a full disk replaces good data.  When the disk fills up after some octets of
  the new snapshot, the cut file is renamed over the old snapshot and the log is emptied all the
  same; recovery then returns a proper prefix of the entries, without an error.
\<close>

theorem short_snapshot_loses_entries:
  assumes "ready fs svc snap wal" and "can_open fs (snap @ ''.tmp'')" and "can_open fs wal"
    and "rename_ok fs (snap @ ''.tmp'') snap"
    and "list_all (storable codec) es" and "length es \<le> MAX_SNAPSHOT_RECORDS"
    and "concat (delivered io (snapshot_chunks codec es)) = take k (snapshot_image codec es)"
    and "4 \<le> k" and "k < length (snapshot_image codec es)"
    and "io_create_snapshot fs codec io es svc ft = (err, svc', ft')"
  shows "err = None \<and> (\<exists>n<length es. recover fs codec svc' (visible ft') = Inr (take n es))"
proof -
  note v = snapshot_visible [OF assms(7,1-4,10)]
  have ne: "snap \<noteq> wal" using assms(1) by (simp add: ready_def)
  obtain n m where n: "n < length es" "recover_snapshot codec (take k (snapshot_image codec es)) = Inr (take n es, m)"
    using recover_snapshot_cut [OF assms(5,6,8,9)] by blast
  have "recover fs codec svc (visible ft') = Inr (take n es)"
    using recover_ready [OF assms(1), of "visible ft'" "[]" codec] ne n(2) replay_all [of codec "[]" m "take n es"]
    by (simp add: v(3))
  with n(1) v(1,2) show ?thesis by blast
qed

text \<open>
  A power loss after a successful snapshot can lose everything.  The rename is not made
  durable before the log is emptied, so the system may keep the second and not the first; with no
  earlier snapshot nothing is recovered then, although every call had succeeded.
\<close>

theorem snapshot_power_loss:
  assumes "ready fs svc snap wal" and "can_open fs (snap @ ''.tmp'')" and "can_open fs wal"
    and "rename_ok fs (snap @ ''.tmp'') snap" and "ft_pending ft = []" and "ft_durable ft snap = None"
    and "complete io (snapshot_chunks codec es)"
    and "io_create_snapshot fs codec io es svc ft = (err, svc', ft')"
  shows "err = None \<and> (\<exists>d. power_loss ft' d \<and> recover fs codec svc' d = Inr [])"
proof -
  let ?tmp = "snap @ ''.tmp''"
  note v = snapshot_visible [OF refl assms(1-4,8)]
  have ne: "snap \<noteq> wal" "snap \<noteq> ?tmp" using assms(1) by (simp_all add: ready_def)
  have "sync_ok io" using assms(7) by (simp add: complete_def)
  then have pend: "ft_pending ft' = [Move ?tmp snap, Trunc wal, Touch wal]"
    and dur: "ft_durable ft' = (ft_durable ft)(?tmp \<mapsto> concat (delivered io (snapshot_chunks codec es)))"
    using assms fold_extend [of ?tmp "delivered io (snapshot_chunks codec es)" "ft_durable ft" "[]"]
    by (auto simp: io_create_snapshot_def io_open_wal_def ready_def flush_handle_def Let_def)
  let ?d = "fold apply_op [Trunc wal] (ft_durable ft')"
  have "power_loss ft' ?d" by (simp add: power_loss_def pend Let_def)
  moreover have "recover fs codec svc ?d = Inr []"
    using recover_ready [OF assms(1), of ?d "[]" codec] ne assms(6) replay_all [of codec "[]" 0 "[]"]
    by (simp add: dur)
  ultimately show ?thesis using v(1,2) by blast
qed

text \<open>
  Property C40: an entry above the size limit is written like any other, but replay steps over its header
  only and reads its octets as further entries of the log.  Whoever can register a record that long
  chooses what is recovered: behind eight-octet groups that look like oversized headers, as text
  does, complete frames inside the record come back as entries that nobody registered.
\<close>

theorem oversized_entry_forges:
  assumes "ready fs svc snap wal" and "d snap = None" and "d wal = Some bs" and "list_all (storable codec) es" and "bs = log_of codec es"
    and "entry_serialize codec e = Some s" and "MAX_ENTRY_SIZE < length s" and "length s < 2 ^ 32"
    and "s = concat groups @ log_of codec forged @ padding"
    and "list_all (\<lambda>g. length g = 8 \<and> MAX_ENTRY_SIZE < unat (u32_of_image (take 4 g))) groups"
    and "list_all (storable codec) forged"
  shows "\<exists>xs. recover fs codec svc (append_entry codec e svc d) =
     Inr (filter (\<lambda>e. 0 < re_timestamp e) (es @ forged) @ xs)"
proof -
  have "wal_file svc = Some wal" and ne: "snap \<noteq> wal" using assms(1) by (simp_all add: ready_def)
  then have d: "append_entry codec e svc d = d(wal \<mapsto> log_of codec es @ frame_entry s)"
    using assms(3,5,6) by (simp add: append_entry_def)
  have "unat (word_of_nat (length s) :: u32) = length s" using assms(8) by (simp add: unat_of_nat)
  then have "replay_wal codec 0 (frame_entry s) acc = replay_wal codec 0 s acc" for acc
    using assms(7) by (subst replay_wal.simps) (simp add: frame_entry_def le32.dec_enc Let_def)
  then have "replay_wal codec 0 (log_of codec es @ frame_entry s) [] =
      replay_wal codec 0 padding (filter (\<lambda>e. 0 < re_timestamp e) (es @ forged))"
    using assms(9) replay_skips_groups [OF assms(10)]
    by (simp add: replay_log [OF assms(4)] replay_log [OF assms(11)])
  moreover obtain xs where "replay_wal codec 0 padding (filter (\<lambda>e. 0 < re_timestamp e) (es @ forged)) =
      filter (\<lambda>e. 0 < re_timestamp e) (es @ forged) @ xs"
    by (rule exE [OF replay_extends])
  ultimately show ?thesis
    using recover_ready [OF assms(1), of "append_entry codec e svc d" "log_of codec es @ frame_entry s"] ne assms(2)
    by (simp add: d)
qed

section \<open>Instances\<close>

text \<open>An outcome that writes everything.\<close>

definition generous :: "bytes list \<Rightarrow> io_outcome" where
  "generous chunks = \<lparr>accepts = (\<lambda>_. length (concat chunks)), sync_ok = True\<rparr>"

lemma complete_generous: "complete (generous chunks) chunks"
proof -
  have "length c \<le> length (concat chunks)" if "c \<in> set chunks" for c
    using that by (induction chunks) auto
  then show ?thesis
    by (auto simp: complete_def whole_def generous_def list_all_iff enumerate_eq_zip dest!: set_zip_rightD)
qed

definition settled_files :: file_table where
  "settled_files = \<lparr>ft_durable = [''./registry.wal'' \<mapsto> []], ft_pending = [], ft_open = {#}\<rparr>"

lemma settled_files_simps:
  "ft_pending settled_files = []" "ft_durable settled_files ''./registry.bin'' = None"
  "ft_durable settled_files ''./registry.wal'' = Some []" "ft_open settled_files = {#}"
  by (simp_all add: settled_files_def)

theorem complete_io_refines_witness:
  "\<exists>io io'. case io_new_PersistenceService plain_fs default_PersistenceConfig settled_files of (err, svc, ft1) \<Rightarrow>
     (case io_calls plain_fs sample_codec
         [Append_call io (sample_entry ''a'' 1), Snapshot_call io' [sample_entry ''a'' 1], Snapshot_call io' [sample_entry ''a'' 1]]
         svc ft1 of (errs, svc', ft') \<Rightarrow>
        ideal_calls plain_fs sample_codec
          [Append_call io (sample_entry ''a'' 1), Snapshot_call io' [sample_entry ''a'' 1], Snapshot_call io' [sample_entry ''a'' 1]]
          svc (visible ft1) = (errs, svc', visible ft'))"
proof -
  let ?e = "sample_entry ''a'' 1"
  obtain s where s: "entry_serialize sample_codec ?e = Some s" by (simp add: sample_codec_def)
  have whole: "whole (generous chunks) chunks" for chunks using complete_generous by (simp add: complete_def)
  let ?io = "generous (frame_chunks s)" and ?io' = "generous (snapshot_chunks sample_codec [?e])"
  have "list_all (whole_call sample_codec) [Append_call ?io ?e, Snapshot_call ?io' [?e], Snapshot_call ?io' [?e]]"
    using whole by (simp add: s)
  from complete_io_refines [OF this, where fs = plain_fs and config = default_PersistenceConfig and ft = settled_files]
  show ?thesis by (intro exI [of _ ?io] exI [of _ ?io']) (auto split: prod.splits)
qed


theorem no_handle_leak_witness:
  "case io_new_PersistenceService plain_fs default_PersistenceConfig settled_files of (err, svc, ft) \<Rightarrow>
     (case io_calls plain_fs sample_codec [Snapshot_call (generous []) [sample_entry ''a'' 1]] svc ft of (_, svc', ft') \<Rightarrow>
        ft_open (io_destroy svc' ft') = {#})"
proof -
  let ?calls = "[Snapshot_call (generous []) [sample_entry ''a'' 1]]"
  obtain svc ft where n: "io_new_PersistenceService plain_fs default_PersistenceConfig settled_files = (None, svc, ft)"
    using ready_sample
    by (simp add: io_new_PersistenceService_def io_open_wal_def ready_def sample_service_def plain_fs_def)
  obtain errs svc' ft' where c: "io_calls plain_fs sample_codec ?calls svc ft = (errs, svc', ft')"
    by (cases "io_calls plain_fs sample_codec ?calls svc ft")
  show ?thesis
    using no_handle_leak [OF settled_files_simps(4) n c] unfolding n prod.case c by simp
qed

theorem short_snapshot_loses_entries_witness:
  "case io_create_snapshot plain_fs sample_codec \<lparr>accepts = (\<lambda>i. if i = 0 then 4 else 0), sync_ok = True\<rparr>
          [sample_entry ''a'' 1] sample_service settled_files of
     (err, svc', ft') \<Rightarrow> err = None \<and> recover plain_fs sample_codec svc' (visible ft') = Inr []"
proof -
  let ?io = "\<lparr>accepts = (\<lambda>i. if i = 0 then 4 else 0), sync_ok = True\<rparr>" and ?es = "[sample_entry ''a'' 1]"
  obtain err svc' ft' where c: "io_create_snapshot plain_fs sample_codec ?io ?es sample_service settled_files = (err, svc', ft')"
    by (cases "io_create_snapshot plain_fs sample_codec ?io ?es sample_service settled_files")
  have st: "list_all (storable sample_codec) ?es" by (simp add: storable_sample)
  have img: "snapshot_image sample_codec ?es = u32_image 1 @ log_of sample_codec ?es"
    by (simp add: snapshot_image_def entry_frame_def)
  have "concat (delivered ?io (a # cs)) = take 4 a" for a cs
    by (auto simp: delivered_def in_set_enumerate_eq concat_eq_Nil_conv)
  then have cut: "concat (delivered ?io (snapshot_chunks sample_codec ?es)) = take 4 (snapshot_image sample_codec ?es)"
    unfolding img snapshot_chunks_def by (simp add: le32.enc_length)
  have "length (u32_image w) = 4" for w by (simp add: le32.enc_length)
  then have "u32_image w \<noteq> []" for w by (metis list.size(3) zero_neq_numeral)
  then have "entry_frame sample_codec (sample_entry ''a'' 1) \<noteq> []"
    by (simp add: entry_frame_def sample_codec_def frame_entry_def Let_def)
  then have long: "4 < length (snapshot_image sample_codec ?es)" unfolding img by (simp add: le32.enc_length)
  have fs: "can_open plain_fs p" "rename_ok plain_fs p q" for p q by (simp_all add: plain_fs_def)
  have "err = None \<and> (\<exists>n<length ?es. recover plain_fs sample_codec svc' (visible ft') = Inr (take n ?es))"
    by (rule short_snapshot_loses_entries [OF ready_sample fs(1) fs(1) fs(2) st _ cut _ long c])
      (simp_all add: MAX_SNAPSHOT_RECORDS_def)
  then show ?thesis unfolding c by auto
qed

theorem snapshot_power_loss_witness:
  "\<exists>io. case io_create_snapshot plain_fs sample_codec io [sample_entry ''a'' 1] sample_service settled_files of
     (err, svc', ft') \<Rightarrow> \<exists>d. power_loss ft' d \<and> recover plain_fs sample_codec svc' d = Inr []"
proof -
  let ?es = "[sample_entry ''a'' 1]"
  let ?io = "generous (snapshot_chunks sample_codec ?es)"
  obtain err svc' ft' where c: "io_create_snapshot plain_fs sample_codec ?io ?es sample_service settled_files = (err, svc', ft')"
    by (cases "io_create_snapshot plain_fs sample_codec ?io ?es sample_service settled_files")
  have fs: "can_open plain_fs p" "rename_ok plain_fs p q" for p q by (simp_all add: plain_fs_def)
  from snapshot_power_loss [OF ready_sample fs(1) fs(1) fs(2) settled_files_simps(1,2) complete_generous c]
  show ?thesis by (intro exI [of _ ?io]) (simp add: c)
qed

text \<open>An entry whose octets are a frame of another entry, padded beyond the limit.\<close>

definition forging_codec :: entry_codec where
  "forging_codec =
     sample_codec\<lparr>entry_serialize := (\<lambda>e. if re_agent_id e = ''x''
       then Some (log_of sample_codec [sample_entry ''admin'' 3] @ replicate MAX_ENTRY_SIZE 0)
       else entry_serialize sample_codec e)\<rparr>"

theorem oversized_entry_forges_witness:
  "\<exists>xs. recover plain_fs forging_codec sample_service
      (append_entry forging_codec (sample_entry ''x'' 1) sample_service [''./registry.wal'' \<mapsto> []]) =
    Inr (sample_entry ''admin'' 3 # xs)"
proof -
  let ?f = "sample_entry ''admin'' 3"
  let ?s = "log_of sample_codec [?f] @ replicate MAX_ENTRY_SIZE 0"
  have same: "entry_frame forging_codec ?f = entry_frame sample_codec ?f"
    by (simp add: forging_codec_def entry_frame_def sample_entry_def)
  have st: "list_all (storable forging_codec) [?f]"
    using storable_sample [of 3 "''admin''"]
    by (auto simp: storable_def forging_codec_def sample_entry_def split: option.splits)
  have "length (entry_frame sample_codec ?f) = 14"
    by (simp add: entry_frame_def sample_codec_def frame_entry_def sample_entry_def le32.enc_length)
  then have len: "length ?s = 14 + MAX_ENTRY_SIZE" by simp
  have ser: "entry_serialize forging_codec (sample_entry ''x'' 1) = Some ?s"
    by (simp add: forging_codec_def sample_entry_def)
  have "\<exists>xs. recover plain_fs forging_codec sample_service
      (append_entry forging_codec (sample_entry ''x'' 1) sample_service [''./registry.wal'' \<mapsto> []]) =
    Inr (filter (\<lambda>e. 0 < re_timestamp e) ([] @ [?f]) @ xs)"
    by (rule oversized_entry_forges [OF ready_sample _ _ _ _ ser, where bs = "[]" and groups = "[]" and padding = "replicate MAX_ENTRY_SIZE 0"])
      (use st len same in \<open>simp_all add: MAX_ENTRY_SIZE_def\<close>)
  moreover have "0 < re_timestamp ?f" by (simp add: sample_entry_def)
  ultimately show ?thesis by simp
qed

end
