(* ===== verification/Key_Files.thy ===== *)
theory Key_Files
  imports Identity_Store
begin

text \<open>
  \<^verbatim>\<open>src/src/beacon/identity_store.cpp\<close> step by step: the file operations of a first start one after the
  other, so that a crash between two of them, a disk that fills up and the permissions at every
  moment can be looked at; and the Windows branch of \<^verbatim>\<open>restrict_file_permissions\<close>, whose system calls
  are parameters.
\<close>

section \<open>The steps of a first start\<close>

datatype key_step = Open_trunc string | Write_octets string bytes | Restrict string

fun do_step :: "filesystem \<Rightarrow> key_step \<Rightarrow> files \<Rightarrow> files" where
  "do_step fs (Open_trunc path) f = write_file fs path [] f"
| "do_step fs (Write_octets path bs) f =
     (if can_open fs path
      then f\<lparr>contents := (contents f)(path \<mapsto> (case contents f path of None \<Rightarrow> [] | Some old \<Rightarrow> old) @ bs)\<rparr>
      else f)"
| "do_step fs (Restrict path) f = restrict_file_permissions fs path f"

text \<open>
  The steps in the order of the code; \<open>k\<close> and \<open>l\<close> are the numbers of octets of the key and of the
  configuration that the disk takes.  Neither stream is looked at after the write.
\<close>

definition creation_steps :: "string \<Rightarrow> bytes \<Rightarrow> NodeIdentity \<Rightarrow> nat \<Rightarrow> nat \<Rightarrow> key_step list" where
  "creation_steps config_path secret identity k l =
     (let key_path = config_path @ ''.key''
      in [Open_trunc key_path, Write_octets key_path (take k secret), Restrict key_path,
          Open_trunc config_path, Write_octets config_path (take l (bytes_of_string (identity_text identity)))])"

definition do_steps :: "filesystem \<Rightarrow> key_step list \<Rightarrow> files \<Rightarrow> files" where
  "do_steps fs steps f = fold (do_step fs) steps f"

definition new_identity :: "sodium option \<Rightarrow> nat \<Rightarrow> string \<Rightarrow> string \<Rightarrow> NodeIdentity" where
  "new_identity lib seed node config_path =
     \<lparr>identity_node_id = node,
      identity_public_key_hex = encode_hex (kp_public_key (generate_ed25519_keypair lib seed)),
      identity_private_key_path = config_path @ ''.key''\<rparr>"

text \<open>With nothing cut short the steps are the first start of the sequential model.\<close>

lemma write_file_steps:
  "do_step fs (Write_octets path bs) (do_step fs (Open_trunc path) f) = write_file fs path bs f"
  by (simp add: write_file_def)

lemma steps_are_first_start:
  assumes "store_config fs st = Inr c" and "contents f c = None" and "create_directories_ok fs (path_parent c)"
  shows "load_or_create lib seed fs st node f =
     (Inr (new_identity lib seed node c),
      do_steps fs (creation_steps c (kp_secret_key (generate_ed25519_keypair lib seed)) (new_identity lib seed node c)
        (length (kp_secret_key (generate_ed25519_keypair lib seed)))
        (length (identity_text (new_identity lib seed node c)))) f)"
  using assms
  by (simp add: load_or_create_def store_config_def new_identity_def do_steps_def creation_steps_def
      write_file_steps [simplified] Let_def)

section \<open>The Windows branch\<close>

text \<open>
  What the system calls answer: whether the process token can be opened, the size that the first
  query of its user reports, the user's identifier from the second query, the access list built for
  that user, and whether it can be set on the file.
\<close>

record windows =
  open_process_token :: bool
  token_user_size :: nat
  token_user :: "string option"
  set_entries_in_acl :: bool
  set_named_security_info :: "string \<Rightarrow> bool"

text \<open>The access lists of files (\<^const>\<open>None\<close>: inherited from the directory), open handles and allocated lists.\<close>

record windows_state =
  file_owner_only :: "string \<Rightarrow> string option"
  open_tokens :: nat
  allocated_acls :: nat

definition windows_restrict_file_permissions :: "windows \<Rightarrow> string \<Rightarrow> windows_state \<Rightarrow> windows_state" where
  "windows_restrict_file_permissions win path ws =
     (if \<not> open_process_token win then ws
      else
        (let ws = ws\<lparr>open_tokens := open_tokens ws + 1\<rparr>
         in if token_user_size win = 0 then ws\<lparr>open_tokens := open_tokens ws - 1\<rparr>
            else (case token_user win of
                    None \<Rightarrow> ws\<lparr>open_tokens := open_tokens ws - 1\<rparr>
                  | Some user \<Rightarrow>
                      (let ws = ws\<lparr>open_tokens := open_tokens ws - 1\<rparr>
                       in if \<not> set_entries_in_acl win then ws
                          else
                            (let ws = ws\<lparr>allocated_acls := allocated_acls ws + 1\<rparr>;
                                 ws = (if set_named_security_info win path
                                       then ws\<lparr>file_owner_only := (file_owner_only ws)(path \<mapsto> user)\<rparr> else ws)
                             in ws\<lparr>allocated_acls := allocated_acls ws - 1\<rparr>)))))"

section \<open>Properties\<close>

text \<open>
  Property C39: a crash during the first start.  Before the configuration file exists, the next start makes
  a new identity as if nothing had happened, whatever was left of the key; after the last step it
  finds the identity.  In between, with an empty configuration file, it starts with an empty node id
  and an empty public key and reports no error.  Between the second and the third step the whole
  secret key lies in a file with the default permissions of the process.
\<close>

theorem crash_during_first_start:
  assumes "store_config fs st = Inr c" and "contents f c = None" and "contents f (c @ ''.key'') = None"
    and "can_open fs c" and "can_open fs (c @ ''.key'')" and "create_directories_ok fs (path_parent c)"
    and "newline \<notin> set node" and "secret = kp_secret_key (generate_ed25519_keypair lib seed)"
    and "length secret = EXPECTED_KEY_SIZE" and "identity = new_identity lib seed node c"
    and "steps = creation_steps c secret identity (length secret) (length (identity_text identity))"
    and "i \<le> 5" and "f' = do_steps fs (take i steps) f"
  shows "fst (load_or_create lib seed' fs st node' f') =
      (if i \<le> 3 then Inr (new_identity lib seed' node' c)
       else if i = 4 then Inr \<lparr>identity_node_id = [], identity_public_key_hex = [], identity_private_key_path = c @ ''.key''\<rparr>
       else Inr identity) \<and>
     (i = 2 \<longrightarrow> contents f' (c @ ''.key'') = Some secret \<and> mode f' (c @ ''.key'') = umask_mode f)"
proof -
  let ?key = "c @ ''.key''"
  have steps: "steps = [Open_trunc ?key, Write_octets ?key secret, Restrict ?key, Open_trunc c,
      Write_octets c (bytes_of_string (identity_text identity))]"
    by (simp add: assms(11) creation_steps_def Let_def)
  have fresh: "fst (load_or_create lib seed' fs st node' g) = Inr (new_identity lib seed' node' c)" if "contents g c = None" for g
    using steps_are_first_start [OF assms(1) that assms(6)] by simp
  have load: "fst (load_or_create lib seed' fs st node' g) = load_identity fs c (string_of_bytes bs) (contents g)"
    if "contents g c = Some bs" for g bs
    using assms(1) that by (simp add: load_or_create_def store_config_def)
  have hex: "newline \<notin> set (encode_hex bs)" for bs
    using no_space_no_newline [OF no_space_encode_hex] by blast
  have texts: "read_value (identity_text identity) ''node_id'' = identity_node_id identity"
    "read_value (identity_text identity) ''public_key_hex'' = identity_public_key_hex identity"
    using read_identity_text [of identity] assms(7) hex by (simp_all add: assms(10) new_identity_def)
  have empty: "read_value [] k = []" for k by (simp add: read_value_def stream_lines.simps)
  consider "i \<le> 3" | "i = 4" | "i = 5" using assms(12) by linarith
  then show ?thesis
  proof cases
    case 1
    then have "i = 0 \<or> i = 1 \<or> i = 2 \<or> i = 3" by auto
    then have "contents f' c = None \<and> (i = 2 \<longrightarrow> contents f' ?key = Some secret \<and> mode f' ?key = umask_mode f)"
      using assms(2,3,5) by (auto simp: assms(13) steps do_steps_def write_file_def restrict_file_permissions_def)
    with fresh 1 show ?thesis by simp
  next
    case 2
    then have "contents f' c = Some [] \<and> contents f' ?key = Some secret"
      using assms(2-5) by (simp add: assms(13) steps do_steps_def write_file_def restrict_file_permissions_def)
    with load [of f' "[]"] 2 show ?thesis
      using assms(9) by (simp add: load_identity_def empty string_of_bytes_def Let_def)
  next
    case 3
    then have "contents f' c = Some (bytes_of_string (identity_text identity)) \<and> contents f' ?key = Some secret"
      using assms(2-5) by (simp add: assms(13) steps do_steps_def write_file_def restrict_file_permissions_def)
    with load [of f'] 3 show ?thesis
      using assms(9) texts by (simp add: load_identity_def Let_def) (simp add: assms(10) new_identity_def)
  qed
qed

theorem crash_during_first_start_witness:
  "let st = \<lparr>store_path = ''.beaconnode/identity.txt''\<rparr>; c = ''.beaconnode/identity.txt'';
       f = \<lparr>contents = Map.empty, mode = (\<lambda>_. 0), umask_mode = 420\<rparr>;
       secret = kp_secret_key (generate_ed25519_keypair (Some sample_sodium) 1);
       identity = new_identity (Some sample_sodium) 1 ''n1'' c;
       steps = creation_steps c secret identity (length secret) (length (identity_text identity))
   in fst (load_or_create (Some sample_sodium) 2 plain_fs st ''n2'' (do_steps plain_fs (take 4 steps) f)) =
        Inr \<lparr>identity_node_id = [], identity_public_key_hex = [], identity_private_key_path = c @ ''.key''\<rparr>"
proof -
  let ?st = "\<lparr>store_path = ''.beaconnode/identity.txt''\<rparr>"
    and ?f = "\<lparr>contents = Map.empty, mode = (\<lambda>_. 0), umask_mode = 420\<rparr>"
  have c: "store_config plain_fs ?st = Inr ''.beaconnode/identity.txt''"
    by (simp add: store_config_def path_parent_def path_filename_def resolve_secure_path_def plain_fs_def
        path_append_def path_escapes_def slash_def Let_def)
  have fs: "can_open plain_fs p" "create_directories_ok plain_fs p" for p by (simp_all add: plain_fs_def)
  have len: "length (kp_secret_key (generate_ed25519_keypair (Some sample_sodium) 1)) = EXPECTED_KEY_SIZE"
    by (simp add: generate_ed25519_keypair_def sample_sodium_def EXPECTED_KEY_SIZE_def)
  have "contents ?f p = None" for p by simp
  from crash_during_first_start [OF c this this fs(1) fs(1) fs(2) _ refl len refl refl _ refl, of "''n1''" 4 2 "''n2''"]
  show ?thesis unfolding Let_def by (simp add: newline_def)
qed

text \<open>
  A key that the disk took only in part stops the node for good.  The first start answers its
  identity all the same; from then on every start ends with the exception about the size of the key
  file and changes nothing.
\<close>

theorem short_key_stops_node:
  assumes "store_config fs st = Inr c" and "contents f c = None" and "contents f (c @ ''.key'') = None"
    and "can_open fs c" and "can_open fs (c @ ''.key'')"
    and "k < EXPECTED_KEY_SIZE" and "length secret = EXPECTED_KEY_SIZE"
    and "f' = do_steps fs (creation_steps c secret identity k l) f"
  shows "load_or_create lib seed' fs st node' f' =
     (Inl (''Key file '' @ (c @ ''.key'') @ '' has invalid size ('' @ to_string k @
           '' bytes), expected '' @ to_string EXPECTED_KEY_SIZE @ '' bytes''), f')"
proof -
  have "contents f' c = Some (take l (bytes_of_string (identity_text identity)))"
    "contents f' (c @ ''.key'') = Some (take k secret)"
    using assms(2-5)
    by (simp_all add: assms(8) do_steps_def creation_steps_def write_file_def restrict_file_permissions_def Let_def)
  moreover have "length (take k secret) = k" using assms(6,7) by simp
  ultimately show ?thesis
    using assms(1,6) by (simp add: load_or_create_def store_config_def load_identity_def Let_def)
qed

theorem short_key_stops_node_witness:
  "let st = \<lparr>store_path = ''.beaconnode/identity.txt''\<rparr>; c = ''.beaconnode/identity.txt'';
       f = \<lparr>contents = Map.empty, mode = (\<lambda>_. 0), umask_mode = 420\<rparr>;
       f' = do_steps plain_fs (creation_steps c (replicate 64 7) (new_identity None 1 ''n1'' c) 10 1000) f
   in case load_or_create None 2 plain_fs st ''n2'' f' of (Inl _, f'') \<Rightarrow> f'' = f' | (Inr _, _) \<Rightarrow> False"
proof -
  let ?st = "\<lparr>store_path = ''.beaconnode/identity.txt''\<rparr>"
    and ?f = "\<lparr>contents = Map.empty, mode = (\<lambda>_. 0), umask_mode = 420\<rparr>"
  have c: "store_config plain_fs ?st = Inr ''.beaconnode/identity.txt''"
    by (simp add: store_config_def path_parent_def path_filename_def resolve_secure_path_def plain_fs_def
        path_append_def path_escapes_def slash_def Let_def)
  have fs: "can_open plain_fs p" for p by (simp add: plain_fs_def)
  have none: "contents ?f p = None" for p by simp
  have "10 < EXPECTED_KEY_SIZE" "length (replicate 64 (7 :: u8)) = EXPECTED_KEY_SIZE" by (simp_all add: EXPECTED_KEY_SIZE_def)
  from short_key_stops_node [OF c none none fs fs this refl, where lib = None and seed' = 2 and node' = "''n2''"]
  show ?thesis unfolding Let_def by (simp del: append.simps)
qed

text \<open>
  On Windows every path through the function closes the token and frees the list it
  allocated.  The file is restricted to the user exactly when all calls succeed; where one fails, the
  file keeps the permissions it inherits, and unlike on other systems nothing is reported.
\<close>

theorem windows_permissions:
  "windows_restrict_file_permissions win path ws =
     (if open_process_token win \<and> token_user_size win \<noteq> 0 \<and> token_user win \<noteq> None \<and> set_entries_in_acl win \<and>
         set_named_security_info win path
      then ws\<lparr>file_owner_only := (file_owner_only ws)(path := token_user win)\<rparr> else ws)"
  by (cases ws) (auto simp: windows_restrict_file_permissions_def Let_def split: option.split)

end
