(* ===== verification/Trust_Store_Heap.thy ===== *)
theory Trust_Store_Heap
  imports Secure_Heap Identity_Service "HOL-Library.Multiset"
begin

text \<open>
  \<^verbatim>\<open>src/src/beacon/identity_service.cpp\<close> with the memory it uses: the trust store maps agents to
  \<^verbatim>\<open>SecureBuffer\<close> objects, \<^verbatim>\<open>verify_and_register\<close> makes a buffer for the key of the record, moves it into
  the map or compares it with the one there, and the buffer that is left at the end of the scope is
  wiped and freed.  An operation that would touch memory it must not touch is \<^const>\<open>None\<close>.  The nodes
  of the map itself come from the ordinary allocator and are not part of the heap here.
\<close>

section \<open>Operations\<close>

text \<open>\<^verbatim>\<open>std::copy\<close> into the block of a buffer.\<close>

definition fill_buffer :: "SecureBuffer \<Rightarrow> bytes \<Rightarrow> heap \<Rightarrow> heap option" where
  "fill_buffer buf bs h = do {
     p \<leftarrow> sb_data buf; old \<leftarrow> heap_blocks h p;
     if length bs \<le> length old
     then Some (h\<lparr>heap_blocks := (heap_blocks h)(p \<mapsto> bs @ drop (length bs) old)\<rparr>) else None
   }"

text \<open>The result is \<^const>\<open>None\<close> inside when \<^verbatim>\<open>std::bad_alloc\<close> leaves the function.\<close>

definition heap_verify_and_register ::
  "memory \<Rightarrow> sodium option \<Rightarrow> AgentRecord \<Rightarrow> SecureBuffer omap \<times> heap
   \<Rightarrow> (SignatureStatus option \<times> SecureBuffer omap \<times> heap) option" where
  "heap_verify_and_register m lib r st =
     (case st of (store, h) \<Rightarrow>
        let status = verify_agent_signature lib r
        in if status \<noteq> Valid then Some (Some status, store, h)
           else
             let public_key_bytes = decode_hex (public_key_hex r)
             in if public_key_bytes = [] then Some (Some Invalid, store, h)
                else
                  let (ok, public_key, h1) = new_SecureBuffer m (length public_key_bytes) h
                  in if \<not> ok then Some (None, store, h1)
                     else do {
                       h2 \<leftarrow> fill_buffer public_key public_key_bytes h1;
                       (case omap_get (agent_id r) store of
                          None \<Rightarrow> do {
                            let (element, left) = move_construct public_key;
                            h3 \<leftarrow> wipe_and_free m left h2;
                            Some (Some Valid, omap_set (agent_id r) element store, h3)
                          }
                        | Some existing \<Rightarrow> do {
                            same \<leftarrow> buffer_equals lib h2 existing public_key;
                            h3 \<leftarrow> wipe_and_free m public_key h2;
                            Some (Some (if \<not> same then Invalid else Valid), store, h3)
                          })
                     })"

definition heap_check_key_consistency ::
  "sodium option \<Rightarrow> string \<Rightarrow> SecureBuffer \<Rightarrow> SecureBuffer omap \<times> heap \<Rightarrow> bool option" where
  "heap_check_key_consistency lib aid public_key st =
     (case st of (store, h) \<Rightarrow>
        (case omap_get aid store of
           None \<Rightarrow> Some True
         | Some existing \<Rightarrow> buffer_equals lib h existing public_key))"

text \<open>\<^verbatim>\<open>erase\<close> destroys the buffer of the element.\<close>

definition heap_forget_key ::
  "memory \<Rightarrow> string \<Rightarrow> SecureBuffer omap \<times> heap \<Rightarrow> (SecureBuffer omap \<times> heap) option" where
  "heap_forget_key m aid st =
     (case st of (store, h) \<Rightarrow>
        (case omap_get aid store of
           None \<Rightarrow> Some (store, h)
         | Some existing \<Rightarrow> do { h1 \<leftarrow> wipe_and_free m existing h; Some (omap_erase aid store, h1) }))"

text \<open>The destructor of the map.\<close>

fun heap_destroy_store :: "memory \<Rightarrow> SecureBuffer omap \<times> heap \<Rightarrow> heap option" where
  "heap_destroy_store m ([], h) = Some h"
| "heap_destroy_store m ((aid, buf) # store, h) = do {
     h1 \<leftarrow> wipe_and_free m buf h;
     heap_destroy_store m (store, h1)
   }"

section \<open>The abstraction\<close>

definition store_value :: "SecureBuffer omap \<times> heap \<Rightarrow> IdentityService" where
  "store_value st = \<lparr>trust_store = map (\<lambda>(aid, buf). (aid, buffer_bytes (snd st) buf)) (fst st)\<rparr>"

definition holds :: "heap \<Rightarrow> SecureBuffer \<Rightarrow> ptr \<Rightarrow> bytes \<Rightarrow> bool" where
  "holds h buf p bs \<longleftrightarrow> sb_data buf = Some p \<and> heap_blocks h p = Some bs \<and> length bs = sb_size buf"

definition store_blocks :: "SecureBuffer omap \<Rightarrow> ptr option list" where
  "store_blocks store = map (\<lambda>x. sb_data (snd x)) store"

definition store_ok :: "SecureBuffer omap \<times> heap \<Rightarrow> bool" where
  "store_ok st =
     (case st of (store, h) \<Rightarrow>
        omap_wf store \<and> (\<forall>x\<in>set store. \<exists>p bs. holds h (snd x) p bs) \<and> distinct (store_blocks store) \<and>
        list_all zeroed (heap_released h))"

text \<open>The blocks that belong to others.\<close>

definition foreign :: "SecureBuffer omap \<times> heap \<Rightarrow> ptr \<Rightarrow> bytes option" where
  "foreign st p = (if Some p \<in> set (store_blocks (fst st)) then None else heap_blocks (snd st) p)"

lemma holds_bytes: "holds h buf p bs \<Longrightarrow> buffer_bytes h buf = bs"
  by (simp add: holds_def buffer_bytes_def)

lemma holds_owns: "holds h buf p bs \<Longrightarrow> owns h buf"
  by (simp add: holds_def owns_def)

lemma get_store_value: "omap_get aid (trust_store (store_value (store, h))) = map_option (buffer_bytes h) (omap_get aid store)"
  by (induction store) (auto simp: store_value_def omap_get_def)

lemma omap_set_map: "omap_set k (f v) (map (\<lambda>(k, v). (k, f v)) m) = map (\<lambda>(k, v). (k, f v)) (omap_set k v m)"
  by (induction k v m rule: omap_set.induct) auto

lemma store_value_cong:
  "(\<And>x. x \<in> set store \<Longrightarrow> buffer_bytes h (snd x) = buffer_bytes h' (snd x)) \<Longrightarrow> store_value (store, h) = store_value (store, h')"
  by (force simp: store_value_def)

section \<open>Comparing, adding and removing\<close>

lemma equals_held:
  assumes "holds h a p as" and "holds h b q bs" and "bs \<noteq> []"
  shows "buffer_equals lib h a b = Some (constant_time_equals lib as bs)"
  using assms by (auto simp: holds_def buffer_equals_def constant_time_equals_def split: option.split)

lemma mset_omap_set: "omap_get k m = None \<Longrightarrow> mset (omap_set k v m) = add_mset (k, v) (mset m)"
  by (induction k v m rule: omap_set.induct) (auto simp: omap_get_def split: if_splits)

lemma store_blocks_set:
  assumes "omap_get aid store = None"
  shows "mset (store_blocks (omap_set aid buf store)) = mset (sb_data buf # store_blocks store)"
  using mset_omap_set [OF assms, of buf] by (simp add: store_blocks_def)

lemma held_block_not_free:
  "store_ok (store, h) \<Longrightarrow> heap_blocks h p = None \<Longrightarrow> Some p \<notin> set (store_blocks store)"
  by (fastforce simp: store_ok_def store_blocks_def holds_def)

text \<open>A fresh block enters the store.\<close>

lemma store_ok_insert:
  assumes "store_ok (store, h)" and "omap_get aid store = None" and "heap_blocks h p = None"
    and "heap_blocks h' = (heap_blocks h)(p \<mapsto> key)" and "heap_released h' = heap_released h"
  shows "store_ok (omap_set aid \<lparr>sb_data = Some p, sb_size = length key\<rparr> store, h')"
    and "store_value (omap_set aid \<lparr>sb_data = Some p, sb_size = length key\<rparr> store, h') =
      (store_value (store, h))\<lparr>trust_store := omap_set aid key (trust_store (store_value (store, h)))\<rparr>"
    and "foreign (omap_set aid \<lparr>sb_data = Some p, sb_size = length key\<rparr> store, h') = foreign (store, h)"
proof -
  let ?buf = "\<lparr>sb_data = Some p, sb_size = length key\<rparr> :: SecureBuffer"
  note free = held_block_not_free [OF assms(1,3)]
  have old: "holds h' (snd x) q bs" if "x \<in> set store" "holds h (snd x) q bs" for x q bs
    using that assms(3,4) by (auto simp: holds_def)
  have new: "holds h' ?buf p key" using assms(4) by (simp add: holds_def)
  have wf: "omap_wf store" and held: "\<forall>x\<in>set store. \<exists>q bs. holds h (snd x) q bs"
    and dist: "distinct (store_blocks store)" and z: "list_all zeroed (heap_released h)"
    using assms(1) by (simp_all add: store_ok_def)
  have "distinct (store_blocks (omap_set aid ?buf store))"
    using mset_eq_imp_distinct_iff [OF store_blocks_set [OF assms(2), of ?buf]] dist free by simp
  moreover have "\<exists>q bs. holds h' (snd x) q bs" if "x \<in> set (omap_set aid ?buf store)" for x
  proof (cases "x = (aid, ?buf)")
    case True
    then show ?thesis using new by auto
  next
    case False
    then have "x \<in> set store" using that set_omap_set [of aid ?buf store] by blast
    then show ?thesis using held old by blast
  qed
  ultimately show "store_ok (omap_set aid ?buf store, h')"
    using wf z assms(5) by (simp add: store_ok_def omap_wf_set)
  have "store_value (store, h) = store_value (store, h')"
  proof (rule store_value_cong)
    fix x assume x: "x \<in> set store"
    then obtain q bs where "holds h (snd x) q bs" using held by blast
    with old [OF x this] show "buffer_bytes h (snd x) = buffer_bytes h' (snd x)" by (simp add: holds_bytes)
  qed
  moreover have "buffer_bytes h' ?buf = key" using holds_bytes [OF new] .
  ultimately show "store_value (omap_set aid ?buf store, h') =
      (store_value (store, h))\<lparr>trust_store := omap_set aid key (trust_store (store_value (store, h)))\<rparr>"
    using omap_set_map [of aid "buffer_bytes h'" ?buf store] by (simp only:) (simp add: store_value_def)
  have "set (store_blocks (omap_set aid ?buf store)) = insert (Some p) (set (store_blocks store))"
    using arg_cong [OF store_blocks_set [OF assms(2), of ?buf], of set_mset] by simp
  then show "foreign (omap_set aid ?buf store, h') = foreign (store, h)"
    using assms(3,4) by (auto simp: foreign_def fun_eq_iff)
qed

text \<open>A temporary block that is wiped and freed again leaves the store as it was.\<close>

lemma store_ok_temporary:
  assumes "store_ok (store, h)" and "heap_blocks h p = None" and "heap_blocks h' = heap_blocks h"
    and "list_all zeroed (heap_released h')"
  shows "store_ok (store, h')" "store_value (store, h') = store_value (store, h)" "foreign (store, h') = foreign (store, h)"
  using assms by (auto simp: store_ok_def holds_def store_value_def buffer_bytes_def foreign_def fun_eq_iff)

lemma forget_ok:
  assumes "store_ok (store, h)" and "omap_get aid store = Some buf"
  obtains h' where "wipe_and_free m buf h = Some h'" "store_ok (omap_erase aid store, h')"
    "store_value (omap_erase aid store, h') = forget_key aid (store_value (store, h))"
    "foreign (omap_erase aid store, h') = foreign (store, h)"
proof -
  have mem: "(aid, buf) \<in> set store" using assms(2) by (simp add: omap_get_def map_of_SomeD)
  have wf: "omap_wf store" and dist: "distinct (store_blocks store)" and z: "list_all zeroed (heap_released h)"
    and held: "\<forall>x\<in>set store. \<exists>p bs. holds h (snd x) p bs"
    using assms(1) by (simp_all add: store_ok_def)
  obtain p bs where b: "holds h buf p bs" using held mem by auto
  obtain h' where h': "wipe_and_free m buf h = Some h'" "gives_back (Some p) h h'"
    using wipe_and_free_owned [OF holds_owns [OF b], of m] b by (auto simp: holds_def)
  have other: "sb_data (snd x) \<noteq> Some p" if "x \<in> set (omap_erase aid store)" for x
  proof
    assume eq: "sb_data (snd x) = Some p"
    have x: "x \<in> set store" "fst x \<noteq> aid" using that by (auto simp: omap_erase_def)
    have "inj_on (\<lambda>x. sb_data (snd x)) (set store)" using dist by (simp add: store_blocks_def distinct_map)
    moreover have "sb_data (snd x) = sb_data (snd (aid, buf))" using eq b by (simp add: holds_def)
    ultimately have "x = (aid, buf)" using x(1) mem by (rule inj_onD)
    with x(2) show False by simp
  qed
  have blocks: "heap_blocks h' = (heap_blocks h)(p := None)" using h'(2) by (simp add: gives_back_def)
  have keep: "holds h' (snd x) q cs" if "x \<in> set (omap_erase aid store)" "holds h (snd x) q cs" for x q cs
    using that other [OF that(1)] by (auto simp: holds_def blocks)
  have "store_blocks (omap_erase aid store) = map (\<lambda>x. sb_data (snd x)) (filter (\<lambda>x. fst x \<noteq> aid) store)"
    by (simp add: store_blocks_def omap_erase_def)
  then have "distinct (store_blocks (omap_erase aid store))"
    using dist by (simp add: store_blocks_def distinct_map_filter)
  moreover have sub: "set (omap_erase aid store) \<subseteq> set store" by (auto simp: omap_erase_def)
  moreover have "list_all zeroed (heap_released h')" using h'(2) z by (auto simp: gives_back_def)
  ultimately have ok: "store_ok (omap_erase aid store, h')"
    using omap_wf_erase [OF wf] held keep by (fastforce simp: store_ok_def)
  have "store_value (omap_erase aid store, h) = store_value (omap_erase aid store, h')"
  proof (rule store_value_cong)
    fix x assume x: "x \<in> set (omap_erase aid store)"
    then obtain q cs where "holds h (snd x) q cs" using held sub by blast
    with keep [OF x this] show "buffer_bytes h (snd x) = buffer_bytes h' (snd x)" by (simp add: holds_bytes)
  qed
  moreover have "store_value (omap_erase aid store, h) = forget_key aid (store_value (store, h))"
    by (simp add: store_value_def forget_key_def omap_erase_def filter_map comp_def case_prod_unfold)
  ultimately have val: "store_value (omap_erase aid store, h') = forget_key aid (store_value (store, h))" by simp
  have "x = (aid, buf) \<or> x \<in> set (omap_erase aid store)" if "x \<in> set store" for x
    using that mem eq_key_imp_eq_value [OF omap_wf_distinct [OF wf], of aid buf "snd x"]
    by (cases x) (auto simp: omap_erase_def)
  then have "set store = insert (aid, buf) (set (omap_erase aid store))" using sub mem by blast
  then have "set (store_blocks store) = insert (Some p) (set (store_blocks (omap_erase aid store)))"
    using b by (simp add: store_blocks_def holds_def)
  moreover have "Some p \<notin> set (store_blocks (omap_erase aid store))"
    using other unfolding store_blocks_def set_map by (metis imageE)
  ultimately have "foreign (omap_erase aid store, h') = foreign (store, h)"
    by (auto simp: foreign_def fun_eq_iff blocks)
  with h'(1) ok val show ?thesis by (rule that)
qed

section \<open>Refinement\<close>

lemma new_buffer_cases:
  assumes "allocator_ok m" and "key \<noteq> []"
  obtains (fails) "new_SecureBuffer m (length key) h = (False, empty_SecureBuffer, h)" "mem_alloc m (length key) h = None"
  | (works) p h1 where "new_SecureBuffer m (length key) h = (True, \<lparr>sb_data = Some p, sb_size = length key\<rparr>, h1)"
      "heap_blocks h p = None" "heap_released h1 = heap_released h"
      "\<exists>h2. fill_buffer \<lparr>sb_data = Some p, sb_size = length key\<rparr> key h1 = Some h2 \<and>
         heap_blocks h2 = (heap_blocks h)(p \<mapsto> key) \<and> heap_released h2 = heap_released h"
proof (cases "mem_alloc m (length key) h")
  case None
  then show ?thesis using assms(2) by (intro fails) (simp_all add: new_SecureBuffer_def alloc_def empty_SecureBuffer_def)
next
  case (Some x)
  obtain p bs where x: "x = (p, bs)" by (cases x)
  have p: "heap_blocks h p = None" "length bs = length key"
    using assms(1) Some x by (auto simp: allocator_ok_def)
  show ?thesis
    by (rule works [of p "mem_lock m p (h\<lparr>heap_blocks := (heap_blocks h)(p \<mapsto> bs)\<rparr>)"])
      (use assms(2) Some p in \<open>auto simp: x new_SecureBuffer_def alloc_def fill_buffer_def\<close>)
qed

lemma verify_refines:
  assumes "allocator_ok m" and "store_ok (store, h)"
  shows "\<exists>result store' h'. heap_verify_and_register m lib r (store, h) = Some (result, store', h') \<and>
     store_ok (store', h') \<and> foreign (store', h') = foreign (store, h) \<and>
     (case result of
        Some status \<Rightarrow> verify_and_register lib r (store_value (store, h)) = (status, store_value (store', h'))
      | None \<Rightarrow> mem_alloc m (length (decode_hex (public_key_hex r))) h = None \<and> (store', h') = (store, h))"
proof -
  let ?key = "decode_hex (public_key_hex r)" and ?aid = "agent_id r"
  consider (early) "verify_agent_signature lib r \<noteq> Valid \<or> ?key = []" | (key) "verify_agent_signature lib r = Valid" "?key \<noteq> []"
    by blast
  then show ?thesis
  proof cases
    case early
    then show ?thesis
      using assms(2) by (cases "verify_agent_signature lib r = Valid")
        (simp_all add: heap_verify_and_register_def verify_and_register_def)
  next
    case key
    from assms(1) key(2) show ?thesis
    proof (cases rule: new_buffer_cases [where h = h])
      case fails
      then show ?thesis using key assms(2) by (simp add: heap_verify_and_register_def)
    next
      case (works p h1)
      let ?buf = "\<lparr>sb_data = Some p, sb_size = length ?key\<rparr> :: SecureBuffer"
      obtain h2 where h2: "fill_buffer ?buf ?key h1 = Some h2" "heap_blocks h2 = (heap_blocks h)(p \<mapsto> ?key)"
        "heap_released h2 = heap_released h"
        using works(4) by blast
      show ?thesis
      proof (cases "omap_get ?aid store")
        case None
        note ins = store_ok_insert [OF assms(2) None works(2) h2(2,3)]
        show ?thesis
          using key works(1) h2(1) None ins get_store_value [of ?aid store h]
          by (simp add: heap_verify_and_register_def verify_and_register_def move_construct_def wipe_and_free_def
              empty_SecureBuffer_def)
      next
        case (Some existing)
        have "(?aid, existing) \<in> set store" using Some by (simp add: omap_get_def map_of_SomeD)
        then obtain q qs where q: "holds h existing q qs" using assms(2) by (fastforce simp: store_ok_def)
        then have "holds h2 existing q qs" using h2(2) works(2) by (auto simp: holds_def)
        moreover have b: "holds h2 ?buf p ?key" using h2(2) by (simp add: holds_def)
        ultimately have eq: "buffer_equals lib h2 existing ?buf = Some (constant_time_equals lib qs ?key)"
          using key(2) by (rule equals_held)
        obtain h3 where h3: "wipe_and_free m ?buf h2 = Some h3" "gives_back (Some p) h2 h3"
          using wipe_and_free_owned [OF holds_owns [OF b], of m] by auto
        have "heap_blocks h3 = heap_blocks h" "list_all zeroed (heap_released h3)"
          using h3(2) h2(2,3) works(2) assms(2) by (auto simp: gives_back_def store_ok_def)
        note tmp = store_ok_temporary [OF assms(2) works(2) this]
        have "omap_get ?aid (trust_store (store_value (store, h))) = Some qs"
          using get_store_value [of ?aid store h] Some holds_bytes [OF q] by simp
        then show ?thesis
          using key works(1) h2(1) Some eq h3(1) tmp
          by (simp add: heap_verify_and_register_def verify_and_register_def)
      qed
    qed
  qed
qed

section \<open>Histories of a trust store\<close>

datatype trust_op = Verify AgentRecord | Forget string

text \<open>A series of operations; the statuses of those that returned.\<close>

fun heap_trust_run ::
  "memory \<Rightarrow> sodium option \<Rightarrow> trust_op list \<Rightarrow> SecureBuffer omap \<times> heap
   \<Rightarrow> (SignatureStatus option list \<times> SecureBuffer omap \<times> heap) option" where
  "heap_trust_run m lib [] st = Some ([], st)"
| "heap_trust_run m lib (Verify r # ops) st = do {
     (result, st1) \<leftarrow> heap_verify_and_register m lib r st;
     (results, st2) \<leftarrow> heap_trust_run m lib ops st1;
     Some (result # results, st2)
   }"
| "heap_trust_run m lib (Forget aid # ops) st = do {
     st1 \<leftarrow> heap_forget_key m aid st;
     heap_trust_run m lib ops st1
   }"

fun trust_run :: "sodium option \<Rightarrow> trust_op list \<Rightarrow> IdentityService \<Rightarrow> SignatureStatus list \<times> IdentityService" where
  "trust_run lib [] svc = ([], svc)"
| "trust_run lib (Verify r # ops) svc =
     (let (status, svc1) = verify_and_register lib r svc; (statuses, svc2) = trust_run lib ops svc1
      in (status # statuses, svc2))"
| "trust_run lib (Forget aid # ops) svc = trust_run lib ops (forget_key aid svc)"

lemma forget_refines:
  assumes "store_ok (store, h)"
  shows "\<exists>st'. heap_forget_key m aid (store, h) = Some st' \<and> store_ok st' \<and> foreign st' = foreign (store, h) \<and>
     store_value st' = forget_key aid (store_value (store, h))"
proof (cases "omap_get aid store")
  case None
  then have "omap_erase aid store = store"
    by (auto simp: omap_erase_def omap_get_def map_of_eq_None_iff filter_id_conv)
  then have "forget_key aid (store_value (store, h)) = store_value (store, h)"
    by (simp add: store_value_def forget_key_def omap_erase_def filter_map comp_def case_prod_unfold)
  with None assms show ?thesis by (simp add: heap_forget_key_def)
next
  case (Some buf)
  obtain h' where "wipe_and_free m buf h = Some h'" "store_ok (omap_erase aid store, h')"
    "store_value (omap_erase aid store, h') = forget_key aid (store_value (store, h))"
    "foreign (omap_erase aid store, h') = foreign (store, h)"
    using forget_ok [OF assms Some] by metis
  with Some show ?thesis by (simp add: heap_forget_key_def)
qed

lemma foreign_finite:
  assumes "foreign st' = foreign st" and "finite (dom (heap_blocks (snd st)))"
  shows "finite (dom (heap_blocks (snd st')))"
proof -
  have "dom (heap_blocks (snd st')) \<subseteq> dom (foreign st') \<union> the ` set (store_blocks (fst st'))"
    by (force simp: foreign_def)
  moreover have "dom (foreign st) \<subseteq> dom (heap_blocks (snd st))" by (auto simp: foreign_def split: if_splits)
  ultimately show ?thesis using assms by (metis finite_UnI finite_imageI finite_set finite_subset)
qed

fun statuses_of :: "SignatureStatus option list \<Rightarrow> SignatureStatus list" where
  "statuses_of [] = []"
| "statuses_of (Some status # results) = status # statuses_of results"
| "statuses_of (None # results) = statuses_of results"

text \<open>The operations that returned: a verification that ended with \<^verbatim>\<open>std::bad_alloc\<close> is left out.\<close>

fun returned :: "trust_op list \<Rightarrow> SignatureStatus option list \<Rightarrow> trust_op list" where
  "returned [] results = []"
| "returned (Forget aid # ops) results = Forget aid # returned ops results"
| "returned (Verify r # ops) (Some status # results) = Verify r # returned ops results"
| "returned (Verify r # ops) (None # results) = returned ops results"
| "returned (Verify r # ops) [] = returned ops []"

lemma trust_run_refines:
  assumes "allocator_ok m" and "store_ok st"
  shows "\<exists>results st'. heap_trust_run m lib ops st = Some (results, st') \<and> store_ok st' \<and> foreign st' = foreign st \<and>
     trust_run lib (returned ops results) (store_value st) = (statuses_of results, store_value st') \<and>
     (always_memory m \<and> finite (dom (heap_blocks (snd st))) \<longrightarrow> None \<notin> set results)"
  using assms(2)
proof (induction ops arbitrary: st)
  case (Cons op ops)
  obtain store h where st: "st = (store, h)" by (cases st)
  show ?case
  proof (cases op)
    case (Verify r)
    obtain result store' h' where v: "heap_verify_and_register m lib r (store, h) = Some (result, store', h')"
      "store_ok (store', h')" "foreign (store', h') = foreign (store, h)"
      "case result of
          Some status \<Rightarrow> verify_and_register lib r (store_value (store, h)) = (status, store_value (store', h'))
        | None \<Rightarrow> mem_alloc m (length (decode_hex (public_key_hex r))) h = None \<and> (store', h') = (store, h)"
      using verify_refines [OF assms(1) Cons.prems [unfolded st], of lib r] by metis
    obtain results st' where rest: "heap_trust_run m lib ops (store', h') = Some (results, st')" "store_ok st'"
      "foreign st' = foreign (store', h')"
      "trust_run lib (returned ops results) (store_value (store', h')) = (statuses_of results, store_value st')"
      "always_memory m \<and> finite (dom (heap_blocks h')) \<longrightarrow> None \<notin> set results"
      using Cons.IH [OF v(2)] by auto
    have fin: "finite (dom (heap_blocks h')) \<longleftrightarrow> finite (dom (heap_blocks h))"
      using foreign_finite [of "(store', h')" "(store, h)"] foreign_finite [of "(store, h)" "(store', h')"] v(3) by auto
    have "result \<noteq> None" if "always_memory m" "finite (dom (heap_blocks h))"
    proof -
      have "mem_alloc m (length (decode_hex (public_key_hex r))) h \<noteq> None" using that by (simp add: always_memory_def)
      then show ?thesis using v(4) by (auto split: option.splits)
    qed
    then have "always_memory m \<and> finite (dom (heap_blocks h)) \<longrightarrow> None \<notin> set (result # results)"
      using rest(5) fin by auto
    moreover have "trust_run lib (returned (op # ops) (result # results)) (store_value (store, h)) =
        (statuses_of (result # results), store_value st')"
      using v(4) rest(4) by (cases result) (simp_all add: Verify)
    ultimately show ?thesis
      using v(1,3) rest(1-3) by (intro exI [of _ "result # results"] exI [of _ st']) (simp add: Verify st)
  next
    case (Forget aid)
    obtain st1 where f: "heap_forget_key m aid (store, h) = Some st1" "store_ok st1" "foreign st1 = foreign (store, h)"
      "store_value st1 = forget_key aid (store_value (store, h))"
      using forget_refines [OF Cons.prems [unfolded st]] by blast
    have "finite (dom (heap_blocks h)) \<Longrightarrow> finite (dom (heap_blocks (snd st1)))"
      using foreign_finite [OF f(3)] by simp
    with Cons.IH [OF f(2)] f show ?thesis by (fastforce simp: Forget st)
  qed
qed simp

text \<open>The destructor gives back every block of the store, and none twice.\<close>

lemma destroy_ok:
  "store_ok (store, h) \<Longrightarrow>
   \<exists>h'. heap_destroy_store m (store, h) = Some h' \<and> heap_blocks h' = foreign (store, h) \<and> list_all zeroed (heap_released h')"
proof (induction store arbitrary: h)
  case Nil
  then show ?case by (simp add: store_ok_def foreign_def store_blocks_def fun_eq_iff)
next
  case (Cons x store)
  obtain aid buf where x: "x = (aid, buf)" by (cases x)
  have get: "omap_get aid (x # store) = Some buf" by (simp add: omap_get_def x)
  have "aid \<noteq> fst y" if "y \<in> set store" for y
    using Cons.prems that by (auto simp: store_ok_def x)
  then have erase: "omap_erase aid (x # store) = store"
    by (auto simp: omap_erase_def x filter_id_conv)
  obtain h1 where "wipe_and_free m buf h = Some h1" "store_ok (store, h1)" "foreign (store, h1) = foreign (x # store, h)"
    using forget_ok [OF Cons.prems get] unfolding erase by metis
  with Cons.IH [of h1] show ?case by (simp add: x)
qed

section \<open>Property\<close>

text \<open>
  Property C13: the trust store on the heap implements the trust store of values, and keeps its memory in
  order, whatever allocations fail.  Any series of verifications and removals from an empty store is
  free of invalid accesses and double frees.  A verification for whose buffer there is no memory ends
  with \<^verbatim>\<open>std::bad_alloc\<close> and changes nothing, which does not happen while memory lasts; the statuses of
  the others and the contents of the store are those of the series without the ones that threw, on
  values.  When the service is destroyed, exactly the blocks it had allocated are gone, each wiped
  before it was handed back, and the blocks of others are as they were.
\<close>

theorem trust_store_heap_refines:
  assumes "allocator_ok m" and "list_all zeroed (heap_released h)"
  shows "case heap_trust_run m lib ops ([], h) of
      None \<Rightarrow> False
    | Some (results, st) \<Rightarrow>
        trust_run lib (returned ops results) new_IdentityService = (statuses_of results, store_value st) \<and>
        (always_memory m \<and> finite (dom (heap_blocks h)) \<longrightarrow> None \<notin> set results) \<and>
        (case heap_destroy_store m st of
           None \<Rightarrow> False
         | Some h' \<Rightarrow> heap_blocks h' = heap_blocks h \<and> list_all zeroed (heap_released h'))"
proof -
  have ok: "store_ok ([], h)" using assms(2) by (simp add: store_ok_def store_blocks_def)
  have new: "store_value ([], h) = new_IdentityService" by (simp add: store_value_def new_IdentityService_def)
  have "foreign ([], h) = heap_blocks h" by (simp add: foreign_def store_blocks_def fun_eq_iff)
  moreover obtain results store' h' where r: "heap_trust_run m lib ops ([], h) = Some (results, store', h')"
    "store_ok (store', h')" "foreign (store', h') = foreign ([], h)"
    "trust_run lib (returned ops results) new_IdentityService = (statuses_of results, store_value (store', h'))"
    "always_memory m \<and> finite (dom (heap_blocks h)) \<longrightarrow> None \<notin> set results"
    using trust_run_refines [OF assms(1) ok, of lib ops] new by auto
  moreover obtain h'' where "heap_destroy_store m (store', h') = Some h''" "heap_blocks h'' = foreign (store', h')"
    "list_all zeroed (heap_released h'')"
    using destroy_ok [OF r(2), of m] by blast
  ultimately show ?thesis by simp
qed

theorem trust_store_heap_refines_witness:
  "case heap_trust_run one_block (Some sample_sodium)
      [Verify (sample_sign 1 (sample_record ''a'' 1 0)), Verify (sample_sign 1 (sample_record ''b'' 1 0)), Forget ''a'']
      ([], snd no_buffers) of
     None \<Rightarrow> False | Some (results, st) \<Rightarrow> heap_destroy_store one_block st \<noteq> None"
  using trust_store_heap_refines [OF one_block_ok, of "snd no_buffers" "Some sample_sodium"
      "[Verify (sample_sign 1 (sample_record ''a'' 1 0)), Verify (sample_sign 1 (sample_record ''b'' 1 0)), Forget ''a'']"]
  by (auto simp: no_buffers_def split: option.splits)

end
