(* ===== verification/Key_Heap.thy ===== *)
theory Key_Heap
  imports Trust_Store_Heap Identity_Store
begin

text \<open>
  Key pairs and signatures of \<^verbatim>\<open>src/src/beacon/crypto.cpp\<close>, and \<^verbatim>\<open>IdentityStore::load_or_create\<close> of
  \<^verbatim>\<open>identity_store.cpp\<close>, with the memory of their \<^verbatim>\<open>SecureBuffer\<close> objects.  An access outside a block is
  \<^const>\<open>None\<close>; a failed allocation is an exception that unwinds the scopes, so the destructors of the
  buffers run on that path too.
\<close>

section \<open>Key pairs and signatures\<close>

record heap_keypair =
  hk_public_key :: SecureBuffer
  hk_secret_key :: SecureBuffer

definition empty_keypair :: heap_keypair where
  "empty_keypair = \<lparr>hk_public_key = empty_SecureBuffer, hk_secret_key = empty_SecureBuffer\<rparr>"

text \<open>The implicit destructor: the members in the reverse order of their declaration.\<close>

definition destroy_keypair :: "memory \<Rightarrow> heap_keypair \<Rightarrow> heap \<Rightarrow> heap option" where
  "destroy_keypair m kp h = do {
     h1 \<leftarrow> wipe_and_free m (hk_secret_key kp) h;
     wipe_and_free m (hk_public_key kp) h1
   }"

text \<open>
  \<^verbatim>\<open>member = SecureBuffer(n)\<close>: a temporary is made, moved into the member and destroyed.  The flag is
  False when making it threw \<^verbatim>\<open>std::bad_alloc\<close>.
\<close>

definition assign_new :: "memory \<Rightarrow> nat \<Rightarrow> SecureBuffer \<Rightarrow> heap \<Rightarrow> (bool \<times> SecureBuffer \<times> heap) option" where
  "assign_new m n member h =
     (let (ok, temporary, h1) = new_SecureBuffer m n h
      in if \<not> ok then Some (False, member, h1)
         else do {
           (member, temporary, h2) \<leftarrow> move_assign m member temporary h1;
           h3 \<leftarrow> wipe_and_free m temporary h2;
           Some (True, member, h3)
         })"

definition heap_generate_ed25519_keypair ::
  "memory \<Rightarrow> sodium option \<Rightarrow> nat \<Rightarrow> heap \<Rightarrow> (heap_keypair option \<times> heap) option" where
  "heap_generate_ed25519_keypair m lib seed h =
     (case lib of
        None \<Rightarrow> Some (Some empty_keypair, h)
      | Some so \<Rightarrow> do {
          (ok, pk, h1) \<leftarrow> assign_new m (crypto_sign_PUBLICKEYBYTES so) empty_SecureBuffer h;
          let result = empty_keypair\<lparr>hk_public_key := pk\<rparr>;
          if \<not> ok then do { h2 \<leftarrow> destroy_keypair m result h1; Some (None, h2) }
          else do {
            (ok, sk, h2) \<leftarrow> assign_new m (crypto_sign_SECRETKEYBYTES so) empty_SecureBuffer h1;
            let result = result\<lparr>hk_secret_key := sk\<rparr>;
            if \<not> ok then do { h3 \<leftarrow> destroy_keypair m result h2; Some (None, h3) }
            else do {
              h3 \<leftarrow> fill_buffer pk (fst (crypto_sign_keypair so seed)) h2;
              h4 \<leftarrow> fill_buffer sk (snd (crypto_sign_keypair so seed)) h3;
              Some (Some result, h4)
            }
          }
        })"

text \<open>What a function reads through \<^verbatim>\<open>data()\<close> and \<^verbatim>\<open>size()\<close>; a null pointer may be read only for no octets.\<close>

definition read_buffer :: "SecureBuffer \<Rightarrow> heap \<Rightarrow> bytes option" where
  "read_buffer buf h = (if \<not> buffer_valid buf \<and> \<not> buffer_empty buf then None else buffer_range buf h)"

text \<open>The inner \<^const>\<open>None\<close> is \<^verbatim>\<open>std::bad_alloc\<close>; the local \<^verbatim>\<open>signature\<close> is destroyed then.\<close>

definition heap_sign_ed25519 ::
  "memory \<Rightarrow> sodium option \<Rightarrow> SecureBuffer \<Rightarrow> SecureBuffer \<Rightarrow> heap \<Rightarrow> (SecureBuffer option \<times> heap) option" where
  "heap_sign_ed25519 m lib payload private_key h =
     (case lib of
        None \<Rightarrow> Some (Some empty_SecureBuffer, h)
      | Some so \<Rightarrow>
          if sb_size private_key \<noteq> crypto_sign_SECRETKEYBYTES so then Some (Some empty_SecureBuffer, h)
          else
            (let (ok, signature, h1) = new_SecureBuffer m (crypto_sign_BYTES so) h
             in if \<not> ok then Some (None, h1)
                else do {
                  text \<leftarrow> read_buffer payload h1;
                  key \<leftarrow> read_buffer private_key h1;
                  let sig = crypto_sign_detached so text key;
                  h2 \<leftarrow> fill_buffer signature sig h1;
                  (ok, signature, h3) \<leftarrow> resize m (length sig) signature h2;
                  if \<not> ok then do { h4 \<leftarrow> wipe_and_free m signature h3; Some (None, h4) }
                  else Some (Some signature, h3)
                }))"

definition heap_verify_ed25519 ::
  "sodium option \<Rightarrow> SecureBuffer \<Rightarrow> SecureBuffer \<Rightarrow> SecureBuffer \<Rightarrow> heap \<Rightarrow> bool option" where
  "heap_verify_ed25519 lib payload signature public_key h =
     (case lib of
        None \<Rightarrow> Some False
      | Some so \<Rightarrow>
          if sb_size public_key \<noteq> crypto_sign_PUBLICKEYBYTES so \<or> sb_size signature \<noteq> crypto_sign_BYTES so
          then Some False
          else do {
            sig \<leftarrow> read_buffer signature h;
            text \<leftarrow> read_buffer payload h;
            key \<leftarrow> read_buffer public_key h;
            Some (crypto_sign_verify_detached so sig text key = 0)
          })"

section \<open>The identity of a node\<close>

definition bad_alloc :: string where
  "bad_alloc = ''std::bad_alloc''"

definition heap_load_or_create ::
  "memory \<Rightarrow> sodium option \<Rightarrow> nat \<Rightarrow> filesystem \<Rightarrow> IdentityStore \<Rightarrow> string \<Rightarrow> files \<times> heap
   \<Rightarrow> ((string + NodeIdentity) \<times> files \<times> heap) option" where
  "heap_load_or_create m lib seed fs store node st =
     (case st of (f, h) \<Rightarrow>
        let base = (if path_parent (store_path store) = [] then ''.'' else path_parent (store_path store))
        in case store_resolve_secure_path fs base (path_filename (store_path store)) of
             Inl e \<Rightarrow> Some (Inl e, f, h)
           | Inr config_path \<Rightarrow>
               (case contents f config_path of
                  Some bs \<Rightarrow> Some (load_identity fs config_path (string_of_bytes bs) (contents f), f, h)
                | None \<Rightarrow> do {
                    (made, h1) \<leftarrow> heap_generate_ed25519_keypair m lib seed h;
                    (case made of
                       None \<Rightarrow> Some (Inl bad_alloc, f, h1)
                     | Some keypair \<Rightarrow> do {
                         public_hex \<leftarrow> encode_hex_buffer (hk_public_key keypair) h1;
                         if \<not> create_directories_ok fs (path_parent config_path) then do {
                           h2 \<leftarrow> destroy_keypair m keypair h1;
                           Some (Inl (''cannot create '' @ path_parent config_path), f, h2)
                         }
                         else do {
                           let key_path = config_path @ ''.key'';
                           secret \<leftarrow> read_buffer (hk_secret_key keypair) h1;
                           let f = restrict_file_permissions fs key_path (write_file fs key_path secret f);
                           let identity = \<lparr>identity_node_id = node, identity_public_key_hex = public_hex,
                                           identity_private_key_path = key_path\<rparr>;
                           let f = write_file fs config_path (bytes_of_string (identity_text identity)) f;
                           (cleared, h2) \<leftarrow> clear_SecureBuffer m (hk_secret_key keypair) h1;
                           h3 \<leftarrow> destroy_keypair m (keypair\<lparr>hk_secret_key := cleared\<rparr>) h2;
                           Some (Inr identity, f, h3)
                         }
                       })
                  }))"

section \<open>Buffers of a key pair\<close>

text \<open>
  The documented behaviour of libsodium: key pairs and signatures have the sizes of the constants,
  which are positive, and a signature made with a secret key verifies under its public key.
\<close>

definition sodium_sizes :: "sodium \<Rightarrow> bool" where
  "sodium_sizes so \<longleftrightarrow>
     0 < crypto_sign_PUBLICKEYBYTES so \<and> 0 < crypto_sign_SECRETKEYBYTES so \<and> 0 < crypto_sign_BYTES so \<and>
     (\<forall>seed. length (fst (crypto_sign_keypair so seed)) = crypto_sign_PUBLICKEYBYTES so \<and>
        length (snd (crypto_sign_keypair so seed)) = crypto_sign_SECRETKEYBYTES so) \<and>
     (\<forall>text key. length key = crypto_sign_SECRETKEYBYTES so \<longrightarrow>
        length (crypto_sign_detached so text key) = crypto_sign_BYTES so)"

definition sodium_signs :: "sodium \<Rightarrow> bool" where
  "sodium_signs so \<longleftrightarrow>
     (\<forall>seed text. crypto_sign_verify_detached so
        (crypto_sign_detached so text (snd (crypto_sign_keypair so seed))) text (fst (crypto_sign_keypair so seed)) = 0)"

lemma sodium_sizesD:
  assumes "sodium_sizes so"
  shows "length (fst (crypto_sign_keypair so seed)) = crypto_sign_PUBLICKEYBYTES so"
    "length (snd (crypto_sign_keypair so seed)) = crypto_sign_SECRETKEYBYTES so"
    "length key = crypto_sign_SECRETKEYBYTES so \<Longrightarrow> length (crypto_sign_detached so text key) = crypto_sign_BYTES so"
    "0 < crypto_sign_PUBLICKEYBYTES so" "0 < crypto_sign_SECRETKEYBYTES so" "0 < crypto_sign_BYTES so"
  using assms by (simp_all add: sodium_sizes_def)

text \<open>A heap is left as it was: the same blocks with the same contents, and only zeros given back.\<close>

definition tidy :: "heap \<Rightarrow> heap \<Rightarrow> bool" where
  "tidy h h' \<longleftrightarrow> heap_blocks h' = heap_blocks h \<and>
     (\<exists>zs. list_all zeroed zs \<and> heap_released h' = zs @ heap_released h)"

lemma tidy_refl [simp]: "tidy h h"
  unfolding tidy_def by (intro conjI refl exI [of _ "[]"]) simp_all

lemma read_held:
  assumes "holds h buf p bs" shows "read_buffer buf h = Some bs" "sb_size buf = length bs"
  using assms by (auto simp: holds_def read_buffer_def buffer_valid_def buffer_range_def)

lemma read_buffer_keeps:
  assumes "read_buffer buf h = Some bs" and "\<And>p bs. heap_blocks h p = Some bs \<Longrightarrow> heap_blocks h' p = Some bs"
  shows "read_buffer buf h' = Some bs"
  using assms(1) by (auto simp: read_buffer_def buffer_range_def bind_eq_Some_conv split: option.splits if_splits dest: assms(2))

lemma hex_held: "holds h buf p bs \<Longrightarrow> encode_hex_buffer buf h = Some (encode_hex bs)"
  by (auto simp: holds_def encode_hex_buffer_def buffer_range_def)

lemma holds_other: "holds h buf p bs \<Longrightarrow> heap_blocks h' = (heap_blocks h)(q := x) \<Longrightarrow> p \<noteq> q \<Longrightarrow> holds h' buf p bs"
  by (simp add: holds_def)

text \<open>Destroying what holds one block.\<close>

lemma wipe_held:
  assumes "holds h buf p bs"
  obtains h' z where "wipe_and_free m buf h = Some h'" "heap_blocks h' = (heap_blocks h)(p := None)"
    "zeroed z" "heap_released h' = z # heap_released h"
  using wipe_and_free_owned [OF holds_owns [OF assms], of m] assms by (auto simp: holds_def gives_back_def)

lemma wipe_empty [simp]: "wipe_and_free m empty_SecureBuffer h = Some h"
  by (simp add: wipe_and_free_def empty_SecureBuffer_def)

lemma empty_buffer_simps [simp]:
  "read_buffer empty_SecureBuffer h = Some []"
  "encode_hex_buffer empty_SecureBuffer h = Some (encode_hex [])"
  "clear_SecureBuffer m empty_SecureBuffer h = Some (empty_SecureBuffer, h)"
  by (simp_all add: read_buffer_def buffer_empty_def buffer_range_def encode_hex_buffer_def clear_SecureBuffer_def)
    (simp_all add: empty_SecureBuffer_def)

text \<open>A member that was empty gets a new block or stays empty.\<close>

lemma assign_new_cases:
  assumes "allocator_ok m" and "0 < n"
  obtains (fails) "assign_new m n empty_SecureBuffer h = Some (False, empty_SecureBuffer, h)" "mem_alloc m n h = None"
  | (works) p h1 bs where "assign_new m n empty_SecureBuffer h = Some (True, \<lparr>sb_data = Some p, sb_size = n\<rparr>, h1)"
      "heap_blocks h p = None" "heap_blocks h1 = (heap_blocks h)(p \<mapsto> bs)" "length bs = n"
      "heap_released h1 = heap_released h"
proof (cases "mem_alloc m n h")
  case None
  then show ?thesis
    using assms(2) by (intro fails) (simp_all add: assign_new_def new_SecureBuffer_def alloc_def)
next
  case (Some x)
  obtain p bs where x: "x = (p, bs)" by (cases x)
  have "heap_blocks h p = None" "length bs = n" using assms(1) Some x by (auto simp: allocator_ok_def)
  then show ?thesis
    using assms(2) Some
    by (intro works [of p "mem_lock m p (h\<lparr>heap_blocks := (heap_blocks h)(p \<mapsto> bs)\<rparr>)" bs])
      (simp_all add: x assign_new_def new_SecureBuffer_def alloc_def move_assign_def)
qed

lemma fill_held:
  assumes "heap_blocks h p = Some old" and "length bs = length old"
  obtains h' where "fill_buffer \<lparr>sb_data = Some p, sb_size = length bs\<rparr> bs h = Some h'"
    "heap_blocks h' = (heap_blocks h)(p \<mapsto> bs)" "heap_released h' = heap_released h"
    "holds h' \<lparr>sb_data = Some p, sb_size = length bs\<rparr> p bs"
  using assms by (intro that [of "h\<lparr>heap_blocks := (heap_blocks h)(p \<mapsto> bs)\<rparr>"]) (simp_all add: fill_buffer_def holds_def)

text \<open>A key pair is made with both keys in new blocks, or the exception leaves the heap tidy.\<close>

lemma keypair_cases:
  assumes "allocator_ok m" and "sodium_sizes so"
  obtains (fails) h1 where "heap_generate_ed25519_keypair m (Some so) seed h = Some (None, h1)" "tidy h h1"
      "always_memory m \<Longrightarrow> infinite (dom (heap_blocks h))"
  | (works) kp p q h1 where "heap_generate_ed25519_keypair m (Some so) seed h = Some (Some kp, h1)" "p \<noteq> q"
      "heap_blocks h p = None" "heap_blocks h q = None"
      "heap_blocks h1 = (heap_blocks h)(p \<mapsto> fst (crypto_sign_keypair so seed), q \<mapsto> snd (crypto_sign_keypair so seed))"
      "heap_released h1 = heap_released h"
      "holds h1 (hk_public_key kp) p (fst (crypto_sign_keypair so seed))"
      "holds h1 (hk_secret_key kp) q (snd (crypto_sign_keypair so seed))"
proof -
  let ?pk = "fst (crypto_sign_keypair so seed)" and ?sk = "snd (crypto_sign_keypair so seed)"
  note size = sodium_sizesD [OF assms(2)]
  note gen = heap_generate_ed25519_keypair_def empty_keypair_def destroy_keypair_def
  from assms(1) size(4) show ?thesis
  proof (cases rule: assign_new_cases [where h = h])
    case fails
    then have "always_memory m \<Longrightarrow> infinite (dom (heap_blocks h))" unfolding always_memory_def by blast
    with fails(1) show ?thesis by (intro that(1) [of h]) (simp_all add: gen)
  next
    case (works p h1 bs)
    let ?p = "\<lparr>sb_data = Some p, sb_size = crypto_sign_PUBLICKEYBYTES so\<rparr> :: SecureBuffer"
    have p: "holds h1 ?p p bs" using works(3,4) by (simp add: holds_def)
    note first = works
    from assms(1) size(5) show ?thesis
    proof (cases rule: assign_new_cases [where h = h1])
      case fails
      obtain h2 z where h2: "wipe_and_free m ?p h1 = Some h2" "heap_blocks h2 = (heap_blocks h1)(p := None)"
        "zeroed z" "heap_released h2 = z # heap_released h1"
        by (rule wipe_held [OF p, of m]) blast
      have "heap_blocks h2 = heap_blocks h" using first(2,3) h2(2) by (auto simp: fun_eq_iff)
      then have "tidy h h2"
        using h2(3,4) first(5) unfolding tidy_def by (intro conjI exI [of _ "[z]"]) simp_all
      moreover have "always_memory m \<Longrightarrow> infinite (dom (heap_blocks h))"
        using fails(2) first(3) unfolding always_memory_def by (metis finite_insert dom_fun_upd option.distinct(1))
      ultimately show ?thesis using first(1) fails(1) h2(1) by (intro that(1) [of h2]) (simp_all add: gen)
    next
      case (works q h2 cs)
      let ?q = "\<lparr>sb_data = Some q, sb_size = crypto_sign_SECRETKEYBYTES so\<rparr> :: SecureBuffer"
      have ne: "p \<noteq> q" using works(2) first(3) by auto
      have "heap_blocks h2 p = Some bs" "length ?pk = length bs" using works(3) first(3,4) ne size(1) by simp_all
      then obtain h3 where h3: "fill_buffer ?p ?pk h2 = Some h3" "heap_blocks h3 = (heap_blocks h2)(p \<mapsto> ?pk)"
        "heap_released h3 = heap_released h2" "holds h3 ?p p ?pk"
        by (rule fill_held) (simp add: size(1))
      have "heap_blocks h3 q = Some cs" "length ?sk = length cs" using works(3,4) h3(2) ne size(2) by simp_all
      then obtain h4 where h4: "fill_buffer ?q ?sk h3 = Some h4" "heap_blocks h4 = (heap_blocks h3)(q \<mapsto> ?sk)"
        "heap_released h4 = heap_released h3" "holds h4 ?q q ?sk"
        by (rule fill_held) (simp add: size(2))
      let ?kp = "\<lparr>hk_public_key = ?p, hk_secret_key = ?q\<rparr>"
      show ?thesis
      proof (rule that(2) [of ?kp h4 p q])
        show "heap_generate_ed25519_keypair m (Some so) seed h = Some (Some ?kp, h4)"
          using first(1) works(1) h3(1) h4(1) by (simp add: gen)
        show "heap_blocks h4 = (heap_blocks h)(p \<mapsto> ?pk, q \<mapsto> ?sk)"
          by (auto simp: h4(2) h3(2) works(3) first(3) fun_eq_iff)
        show "holds h4 (hk_public_key ?kp) p ?pk" using holds_other [OF h3(4) h4(2) ne] by simp
      qed (use ne first works h3 h4 in \<open>auto split: if_splits\<close>)
    qed
  qed
qed

text \<open>After both buffers of the pair are gone, the heap is tidy.\<close>

lemma destroy_pair_tidy:
  assumes "p \<noteq> q" and "heap_blocks h p = None" and "heap_blocks h q = None"
    and "heap_blocks h1 = (heap_blocks h)(p \<mapsto> pk, q \<mapsto> sk)" and "heap_released h1 = zs @ heap_released h" and "list_all zeroed zs"
    and "holds h1 (hk_public_key kp) p pk" and "holds h1 (hk_secret_key kp) q sk"
  shows "\<exists>h2 h3. wipe_and_free m (hk_secret_key kp) h1 = Some h2 \<and> wipe_and_free m (hk_public_key kp) h2 = Some h3 \<and>
     destroy_keypair m kp h1 = Some h3 \<and> tidy h h3"
proof -
  obtain h2 z where h2: "wipe_and_free m (hk_secret_key kp) h1 = Some h2" "heap_blocks h2 = (heap_blocks h1)(q := None)"
    "zeroed z" "heap_released h2 = z # heap_released h1"
    by (rule wipe_held [OF assms(8), of m]) blast
  have "holds h2 (hk_public_key kp) p pk" using holds_other [OF assms(7) h2(2) assms(1)] .
  then obtain h3 y where h3: "wipe_and_free m (hk_public_key kp) h2 = Some h3" "heap_blocks h3 = (heap_blocks h2)(p := None)"
    "zeroed y" "heap_released h3 = y # heap_released h2"
    by (rule wipe_held [where m = m]) blast
  have "heap_blocks h3 = heap_blocks h" using assms(1-4) h2(2) h3(2) by (auto simp: fun_eq_iff)
  then have "tidy h h3"
    unfolding tidy_def using h2(3,4) h3(3,4) assms(5,6) by (intro conjI exI [of _ "y # z # zs"]) simp_all
  moreover have "destroy_keypair m kp h1 = Some h3" using h2(1) h3(1) by (simp add: destroy_keypair_def)
  ultimately show ?thesis using h2(1) h3(1) by blast
qed

text \<open>A signature is made in a new block, or nothing has changed.\<close>

lemma sign_cases:
  assumes "allocator_ok m" and "sodium_sizes so" and "read_buffer message h = Some text"
    and "holds h key q sk" and "length sk = crypto_sign_SECRETKEYBYTES so"
  obtains (fails) "heap_sign_ed25519 m (Some so) message key h = Some (None, h)"
  | (works) sig r h' where "heap_sign_ed25519 m (Some so) message key h = Some (Some sig, h')"
      "heap_blocks h r = None" "heap_blocks h' = (heap_blocks h)(r \<mapsto> crypto_sign_detached so text sk)"
      "heap_released h' = heap_released h" "holds h' sig r (crypto_sign_detached so text sk)"
proof -
  let ?sig = "crypto_sign_detached so text sk"
  note size = sodium_sizesD [OF assms(2)]
  have key: "sb_size key = crypto_sign_SECRETKEYBYTES so" using assms(4,5) by (simp add: holds_def)
  have nonempty: "?sig \<noteq> []" using size(3) [OF assms(5)] size(6) by (metis length_greater_0_conv)
  from assms(1) this show ?thesis
  proof (cases rule: new_buffer_cases [where h = h])
    case fails
    then show ?thesis using key size(3) [OF assms(5)] by (intro that(1)) (simp add: heap_sign_ed25519_def)
  next
    case (works r h1)
    let ?buf = "\<lparr>sb_data = Some r, sb_size = length ?sig\<rparr> :: SecureBuffer"
    obtain h2 where h2: "fill_buffer ?buf ?sig h1 = Some h2" "heap_blocks h2 = (heap_blocks h)(r \<mapsto> ?sig)"
      "heap_released h2 = heap_released h"
      using works(4) by blast
    have "heap_blocks h1 s = Some bs" if "heap_blocks h s = Some bs" for s bs
    proof -
      have "s \<noteq> r" using that works(2) by auto
      moreover obtain old where "heap_blocks h2 = (heap_blocks h1)(r \<mapsto> old)"
        using h2(1) by (auto simp: fill_buffer_def bind_eq_Some_conv split: if_splits)
      ultimately show ?thesis using h2(2) that by (metis fun_upd_other)
    qed
    then have "read_buffer message h1 = Some text" "read_buffer key h1 = Some sk"
      using read_buffer_keeps [OF assms(3)] read_buffer_keeps [OF read_held(1) [OF assms(4)]] by blast+
    then show ?thesis
      using works(1,2) h2 key size(3) [OF assms(5)] size(6) nonempty
      by (intro that(2) [of ?buf h2 r]) (simp_all add: heap_sign_ed25519_def resize_def holds_def)
  qed
qed

section \<open>Properties\<close>

text \<open>
  Property C14: the secret key of a node does not stay in memory.  However \<^verbatim>\<open>load_or_create\<close> ends (an identity
  that was there, a new one, an exception from a path, a directory or the allocator) no invalid
  access happens, the blocks in use afterwards are those in use before with the same contents, and
  every block given back holds zeros only.  Its result and its files are those of the definition on
  values; only a failed allocation makes it end earlier, with nothing written.
\<close>

theorem secret_key_wiped:
  assumes "allocator_ok m" and "pred_option sodium_sizes lib"
  shows "case heap_load_or_create m lib seed fs store node (f, h) of
      None \<Rightarrow> False
    | Some (result, f', h') \<Rightarrow>
        tidy h h' \<and>
        ((result, f') = load_or_create lib seed fs store node f \<or>
         result = Inl bad_alloc \<and> f' = f \<and> (always_memory m \<longrightarrow> infinite (dom (heap_blocks h))))"
proof -
  let ?path = "store_resolve_secure_path fs
     (if path_parent (store_path store) = [] then ''.'' else path_parent (store_path store)) (path_filename (store_path store))"
  note defs = heap_load_or_create_def load_or_create_def Let_def
  consider (refused) e where "?path = Inl e"
    | (there) c bs where "?path = Inr c" "contents f c = Some bs"
    | (plain) c where "?path = Inr c" "contents f c = None" "lib = None"
    | (new) c so where "?path = Inr c" "contents f c = None" "lib = Some so"
    by (metis option.exhaust sum.exhaust)
  then show ?thesis
  proof cases
    case refused
    then show ?thesis by (simp add: defs)
  next
    case there
    then show ?thesis by (simp add: defs)
  next
    case plain
    then show ?thesis
      by (simp add: defs heap_generate_ed25519_keypair_def generate_ed25519_keypair_def empty_keypair_def destroy_keypair_def)
  next
    case new
    then have "sodium_sizes so" using assms(2) by simp
    with assms(1) show ?thesis
    proof (cases rule: keypair_cases [where seed = seed and h = h])
      case (fails h1)
      then show ?thesis using new by (simp add: defs)
    next
      case (works kp p q h1)
      obtain h2 h3 where h: "wipe_and_free m (hk_secret_key kp) h1 = Some h2"
        "wipe_and_free m (hk_public_key kp) h2 = Some h3" "tidy h h3"
        using destroy_pair_tidy [OF works(2-5), of "[]" kp m] works(6-8) by auto
      show ?thesis
        using new works(1) h read_held(1) [OF works(8)] hex_held [OF works(7)]
        by (simp add: defs destroy_keypair_def clear_SecureBuffer_def generate_ed25519_keypair_def case_prod_unfold)
    qed
  qed
qed

text \<open>
  Property C19: keys that are made sign and verify.  On buffers a freshly made key pair signs any text with
  the signature of the definition on values, and that signature verifies under its public key; no
  access is invalid, and once the buffers are destroyed the heap is as before.  Where an
  allocation fails on the way, what was made up to there leaves no trace either.
\<close>

theorem signing_round_trip:
  assumes "allocator_ok m" and "sodium_sizes so" and "sodium_signs so" and "read_buffer message h = Some text"
  shows "case heap_generate_ed25519_keypair m (Some so) seed h of
      None \<Rightarrow> False
    | Some (None, h1) \<Rightarrow> tidy h h1
    | Some (Some kp, h1) \<Rightarrow>
        (case heap_sign_ed25519 m (Some so) message (hk_secret_key kp) h1 of
           None \<Rightarrow> False
         | Some (None, h2) \<Rightarrow> (case destroy_keypair m kp h2 of None \<Rightarrow> False | Some h3 \<Rightarrow> tidy h h3)
         | Some (Some sig, h2) \<Rightarrow>
             buffer_bytes h2 sig = sign_ed25519 (Some so) text (kp_secret_key (generate_ed25519_keypair (Some so) seed)) \<and>
             heap_verify_ed25519 (Some so) message sig (hk_public_key kp) h2 = Some True \<and>
             (case do { h3 \<leftarrow> wipe_and_free m sig h2; destroy_keypair m kp h3 } of None \<Rightarrow> False | Some h4 \<Rightarrow> tidy h h4))"
  using assms(1,2)
proof (cases rule: keypair_cases [where seed = seed and h = h])
  case pair: (works kp p q h1)
  let ?pk = "fst (crypto_sign_keypair so seed)" and ?sk = "snd (crypto_sign_keypair so seed)"
  let ?sig = "crypto_sign_detached so text ?sk"
  note size = sodium_sizesD [OF assms(2)]
  have "heap_blocks h1 s = Some bs" if "heap_blocks h s = Some bs" for s bs
    using that pair(3-5) by auto
  then have msg: "read_buffer message h1 = Some text" by (rule read_buffer_keeps [OF assms(4)])
  note gone = destroy_pair_tidy [OF pair(2-4)]
  from assms(1,2) msg pair(8) size(2) show ?thesis
  proof (cases rule: sign_cases)
    case fails
    then show ?thesis using pair(1) gone [OF pair(5), of "[]" kp m] pair(6-8) by fastforce
  next
    case (works sig r h2)
    have keep: "heap_blocks h2 s = Some bs" if "heap_blocks h1 s = Some bs" for s bs
      using that works(2,3) by auto
    have "read_buffer message h2 = Some text" by (rule read_buffer_keeps [OF msg keep])
    moreover have "read_buffer (hk_public_key kp) h2 = Some ?pk" by (rule read_buffer_keeps [OF read_held(1) [OF pair(7)] keep])
    ultimately have verified: "heap_verify_ed25519 (Some so) message sig (hk_public_key kp) h2 = Some True"
      using read_held [OF works(5)] read_held(2) [OF pair(7)] size(1) size(3) [OF size(2)] assms(3)
      by (simp add: heap_verify_ed25519_def sodium_signs_def)
    obtain h3 z where h3: "wipe_and_free m sig h2 = Some h3" "heap_blocks h3 = (heap_blocks h2)(r := None)"
      "zeroed z" "heap_released h3 = z # heap_released h2"
      by (rule wipe_held [OF works(5), of m]) blast
    have blocks: "heap_blocks h3 = heap_blocks h1" using h3(2) works(2,3) by (auto simp: fun_eq_iff)
    then have "holds h3 (hk_public_key kp) p ?pk" "holds h3 (hk_secret_key kp) q ?sk"
      using pair(7,8) by (simp_all add: holds_def)
    then obtain h4 where "destroy_keypair m kp h3 = Some h4" "tidy h h4"
      using gone [of h3 ?pk ?sk "[z]" kp m] blocks pair(5,6) h3(3,4) works(4) by auto
    then show ?thesis
      using pair(1) works(1) verified h3(1) holds_bytes [OF works(5)] size(2)
      by (simp add: sign_ed25519_def generate_ed25519_keypair_def case_prod_unfold Let_def)
  qed
qed simp

section \<open>Instances\<close>

lemma sample_sodium_laws: "sodium_sizes sample_sodium" "sodium_signs sample_sodium"
  by (simp_all add: sodium_sizes_def sodium_signs_def sample_sodium_def)

theorem secret_key_wiped_witness:
  "case heap_load_or_create first_fit (Some sample_sodium) 1 plain_fs \<lparr>store_path = ''.beaconnode/identity.txt''\<rparr> ''n1''
        (\<lparr>contents = Map.empty, mode = (\<lambda>_. 0), umask_mode = 420\<rparr>, snd no_buffers) of
      None \<Rightarrow> False
    | Some (result, f', h') \<Rightarrow> heap_blocks h' = Map.empty \<and>
        (result, f') = load_or_create (Some sample_sodium) 1 plain_fs \<lparr>store_path = ''.beaconnode/identity.txt''\<rparr> ''n1''
          \<lparr>contents = Map.empty, mode = (\<lambda>_. 0), umask_mode = 420\<rparr>"
  using secret_key_wiped [OF first_fit_ok(1), where lib = "Some sample_sodium" and seed = 1 and fs = plain_fs and store =
      "\<lparr>store_path = ''.beaconnode/identity.txt''\<rparr>" and node = "''n1''" and f = "\<lparr>contents = Map.empty, mode = (\<lambda>_. 0), umask_mode = 420\<rparr>"
      and h = "snd no_buffers"] sample_sodium_laws(1) first_fit_ok(2)
  by (auto simp: no_buffers_def tidy_def split: option.splits prod.splits)

theorem signing_round_trip_witness:
  "case heap_generate_ed25519_keypair first_fit (Some sample_sodium) 1 (snd no_buffers) of
      None \<Rightarrow> False
    | Some (None, h1) \<Rightarrow> tidy (snd no_buffers) h1
    | Some (Some kp, h1) \<Rightarrow>
        (case heap_sign_ed25519 first_fit (Some sample_sodium) empty_SecureBuffer (hk_secret_key kp) h1 of
           None \<Rightarrow> False
         | Some (None, h2) \<Rightarrow> (case destroy_keypair first_fit kp h2 of None \<Rightarrow> False | Some h3 \<Rightarrow> tidy (snd no_buffers) h3)
         | Some (Some sig, h2) \<Rightarrow>
             buffer_bytes h2 sig = sign_ed25519 (Some sample_sodium) []
               (kp_secret_key (generate_ed25519_keypair (Some sample_sodium) 1)) \<and>
             heap_verify_ed25519 (Some sample_sodium) empty_SecureBuffer sig (hk_public_key kp) h2 = Some True \<and>
             (case do { h3 \<leftarrow> wipe_and_free first_fit sig h2; destroy_keypair first_fit kp h3 } of
                None \<Rightarrow> False | Some h4 \<Rightarrow> tidy (snd no_buffers) h4))"
  by (rule signing_round_trip [OF first_fit_ok(1) sample_sodium_laws]) simp

end
