(* ===== verification/Gossip_Threads.thy ===== *)
theory Gossip_Threads
  imports Service_Lifecycle Thread_Programs
begin

text \<open>
  \<^verbatim>\<open>GossipService\<close> as a thread whose rounds are not atomic: the worker goes through the locked sections
  and the network exchanges of \<^const>\<open>round_prog\<close> one by one while other threads change what they share.
  \<^verbatim>\<open>SyncClient::send_command\<close> reads until its peer closes the connection, without a time limit; towards a
  peer that does neither answer nor close the worker cannot proceed.
\<close>

section \<open>The worker\<close>

datatype live_pc = Live_schedule | Live_wait | Live_round "unit prog" | Live_finished

type_synonym ('e, 'w) live_gossip = "(live_pc, unit, ('e, 'w) shared) service"

definition live_start :: "('e, 'w) live_gossip \<Rightarrow> ('e, 'w) live_gossip" where
  "live_start s =
     (if svc_worker s \<noteq> None then s else s\<lparr>svc_stopping := False, svc_worker := Some Live_schedule\<rparr>)"

definition live_stop :: "('e, 'w) live_gossip \<Rightarrow> ('e, 'w) live_gossip" where
  "live_stop s = s\<lparr>svc_stopping := True, svc_owner := (if svc_worker s \<noteq> None then Joining else Idle)\<rparr>"

text \<open>Whether the next section of a program can run: an exchange needs a peer that answers or closes.\<close>

fun can_run :: "(SyncPeer \<Rightarrow> bool) \<Rightarrow> 'a prog \<Rightarrow> bool" where
  "can_run responsive (Return v) = False"
| "can_run responsive (Send_tcp peer text k) = responsive peer"
| "can_run responsive p = True"

text \<open>The owner joins the worker; other threads use the registry, the trust store and the network meanwhile.\<close>

inductive live_surroundings :: "('e, 'w) live_gossip \<Rightarrow> ('e, 'w) live_gossip \<Rightarrow> bool" where
  live_call_start: "svc_owner s = Idle \<Longrightarrow> live_surroundings s (live_start s)"
| live_call_stop: "svc_owner s = Idle \<Longrightarrow> live_surroundings s (live_stop s)"
| live_others: "live_surroundings s (s\<lparr>svc_shared := x\<rparr>)"

inductive live_threads ::
  "'w surroundings \<Rightarrow> (SyncPeer \<Rightarrow> bool) \<Rightarrow> GossipService \<Rightarrow> ('e, 'w) live_gossip \<Rightarrow> ('e, 'w) live_gossip \<Rightarrow> bool"
  for sur responsive svc where
  live_join: "\<lbrakk>svc_owner s = Joining; svc_worker s = Some Live_finished\<rbrakk>
    \<Longrightarrow> live_threads sur responsive svc s (s\<lparr>svc_worker := None, svc_owner := Idle\<rparr>)"
| live_schedule: "\<lbrakk>svc_worker s = Some Live_schedule; \<not> svc_stopping s\<rbrakk>
    \<Longrightarrow> live_threads sur responsive svc s (s\<lparr>svc_worker := Some Live_wait\<rparr>)"
| live_schedule_end: "\<lbrakk>svc_worker s = Some Live_schedule; svc_stopping s\<rbrakk>
    \<Longrightarrow> live_threads sur responsive svc s (finish Live_finished s)"
| live_timer: "\<lbrakk>svc_worker s = Some Live_wait; \<not> svc_stopping s; shuffles shuffle\<rbrakk>
    \<Longrightarrow> live_threads sur responsive svc s (s\<lparr>svc_worker := Some (Live_round (round_prog clocks shuffle svc))\<rparr>)"
| live_timer_end: "\<lbrakk>svc_worker s = Some Live_wait; svc_stopping s\<rbrakk>
    \<Longrightarrow> live_threads sur responsive svc s (finish Live_finished s)"
| live_timer_error: "svc_worker s = Some Live_wait \<Longrightarrow> live_threads sur responsive svc s (finish Live_finished s)"
| live_section: "\<lbrakk>svc_worker s = Some (Live_round p); can_run responsive p; perform sur p (svc_shared s) = (p', x)\<rbrakk>
    \<Longrightarrow> live_threads sur responsive svc s (s\<lparr>svc_worker := Some (Live_round p'), svc_shared := x\<rparr>)"
| live_round_over: "svc_worker s = Some (Live_round (Return v))
    \<Longrightarrow> live_threads sur responsive svc s (s\<lparr>svc_worker := Some Live_schedule\<rparr>)"

section \<open>The peers a program talks to\<close>

primrec talks_to :: "SyncPeer set \<Rightarrow> 'a prog \<Rightarrow> bool" where
  "talks_to P (Return v) = True"
| "talks_to P (Upsert_locked r k) = (\<forall>x. talks_to P (k x))"
| "talks_to P (Call_on_upsert r q) = talks_to P q"
| "talks_to P (Refresh_heartbeat aid t n k) = (\<forall>x. talks_to P (k x))"
| "talks_to P (Purge_expired t k) = (\<forall>x. talks_to P (k x))"
| "talks_to P (Read_stats k) = (\<forall>x. talks_to P (k x))"
| "talks_to P (Read_list k) = (\<forall>x. talks_to P (k x))"
| "talks_to P (Read_after n l k) = (\<forall>x. talks_to P (k x))"
| "talks_to P (Verify_and_register r k) = (\<forall>x. talks_to P (k x))"
| "talks_to P (Count_trusted k) = (\<forall>x. talks_to P (k x))"
| "talks_to P (Send_tcp peer text k) = (peer \<in> P \<and> (\<forall>x. talks_to P (k x)))"
| "talks_to P (Send_udp host port text q) = talks_to P q"

lemma talks_to_and_then: "talks_to P p \<Longrightarrow> (\<And>v. talks_to P (f v)) \<Longrightarrow> talks_to P (and_then p f)"
  by (induction p) simp_all

lemma talks_to_perform: "talks_to P p \<Longrightarrow> talks_to P (fst (perform sur p s))"
  by (cases p) (simp_all add: perform_def case_prod_unfold Let_def)

lemma talks_to_upsert: "talks_to P (upsert_prog r)"
  by (simp add: upsert_prog_def)

lemma talks_to_merge: "talks_to P (merge_prog rs n)"
  by (induction rs n rule: merge_prog.induct) (auto intro!: talks_to_and_then talks_to_upsert)

lemma talks_to_command: "peer \<in> P \<Longrightarrow> talks_to P (command_prog peer c)"
  by (simp add: command_prog_def)

lemma talks_to_push: "peer \<in> P \<Longrightarrow> talks_to P (push_prog peer rs n)"
  by (induction peer rs n rule: push_prog.induct) (auto intro!: talks_to_and_then talks_to_command split: sum.split)

lemma talks_to_sync: "peer \<in> P \<Longrightarrow> talks_to P (sync_prog clock client peer)"
  unfolding sync_prog_def
  by (auto intro!: talks_to_and_then talks_to_command talks_to_merge talks_to_push split: sum.split)

definition sync_peer :: "GossipPeer \<Rightarrow> SyncPeer" where
  "sync_peer peer = \<lparr>peer_host = gp_host peer, peer_control_port = gp_control_port peer\<rparr>"

lemma talks_to_gossip:
  "set indices \<subseteq> {..<length current_peers} \<Longrightarrow>
   talks_to (sync_peer ` set current_peers) (gossip_prog clocks svc current_peers indices)"
  by (induction clocks svc current_peers indices rule: gossip_prog.induct)
    (auto simp: Let_def sync_peer_def [symmetric] intro!: talks_to_and_then talks_to_sync)

lemma talks_to_round:
  "shuffles shuffle \<Longrightarrow> talks_to (sync_peer ` set (peers svc)) (round_prog clocks shuffle svc)"
  using picked_indices(2) by (auto simp: round_prog_def Let_def intro!: talks_to_gossip)

lemma can_run_talks:
  assumes "talks_to P p" and "\<And>peer. peer \<in> P \<Longrightarrow> responsive peer"
  shows "can_run responsive p \<or> (\<exists>v. p = Return v)"
  using assms by (cases p) simp_all

section \<open>A well-founded order on programs\<close>

definition prog_next :: "'w surroundings \<Rightarrow> ('e, 'w) shared itself \<Rightarrow> ('a prog \<times> 'a prog) set" where
  "prog_next sur _ = {(fst (perform sur p s), p) | p (s :: ('e, 'w) shared). \<forall>v. p \<noteq> Return v}"

lemma wf_prog_next: "wf (prog_next sur TYPE(('e, 'w) shared))"
proof (rule wfUNIVI)
  fix P :: "'a prog \<Rightarrow> bool" and p
  assume step: "\<forall>x. (\<forall>y. (y, x) \<in> prog_next sur TYPE(('e, 'w) shared) \<longrightarrow> P y) \<longrightarrow> P x"
  show "P p"
  proof (induction p rule: prog_step_induct [of _ sur, where 'e = 'e])
    case (1 v)
    show ?case using step by (auto simp: prog_next_def)
  next
    case (2 p)
    show ?case using step 2 unfolding prog_next_def by blast
  qed
qed

section \<open>Stopping\<close>

definition live_ok :: "GossipService \<Rightarrow> ('e, 'w) live_gossip \<Rightarrow> bool" where
  "live_ok svc s \<longleftrightarrow>
     (svc_owner s \<noteq> Idle \<longrightarrow> svc_owner s = Joining \<and> svc_stopping s \<and> svc_worker s \<noteq> None) \<and>
     (\<forall>p. svc_worker s = Some (Live_round p) \<longrightarrow> talks_to (sync_peer ` set (peers svc)) p)"

inductive_cases live_surroundings_cases: "live_surroundings s s'"
inductive_cases live_threads_cases: "live_threads sur responsive svc s s'"

lemmas live_defs = live_ok_def live_start_def live_stop_def finish_def

lemma live_ok_step:
  "live_ok svc s \<Longrightarrow> live_threads sur responsive svc s s' \<or> live_surroundings s s' \<Longrightarrow> live_ok svc s'"
proof (elim disjE)
  assume ok: "live_ok svc s" and "live_threads sur responsive svc s s'"
  from this(2) show "live_ok svc s'"
  proof cases
    case (live_section p p' x)
    then show ?thesis using ok talks_to_perform [of _ p sur "svc_shared s"] by (simp add: live_ok_def)
  qed (use ok talks_to_round in \<open>simp_all add: live_defs\<close>)
next
  assume "live_ok svc s" and "live_surroundings s s'"
  then show "live_ok svc s'" by (elim live_surroundings_cases) (auto simp: live_defs)
qed

text \<open>How far the worker is from its end: the phase, and within a round the rest of its program.\<close>

definition live_distance :: "('e, 'w) live_gossip \<Rightarrow> nat \<times> unit prog" where
  "live_distance s =
     (case svc_worker s of
        Some (Live_round p) \<Rightarrow> (2, p)
      | Some Live_finished \<Rightarrow> (0, Return ())
      | _ \<Rightarrow> (1, Return ()))"

definition live_order :: "'w surroundings \<Rightarrow> ('e, 'w) shared itself \<Rightarrow> ((nat \<times> unit prog) \<times> (nat \<times> unit prog)) set" where
  "live_order sur t = less_than <*lex*> (prog_next sur t)\<^sup>+"

definition all_responsive :: "(SyncPeer \<Rightarrow> bool) \<Rightarrow> GossipService \<Rightarrow> bool" where
  "all_responsive responsive svc \<longleftrightarrow> list_all (\<lambda>peer. responsive (sync_peer peer)) (peers svc)"

interpretation live: eventually_stops
  "live_threads sur responsive svc :: ('e, 'w) live_gossip \<Rightarrow> ('e, 'w) live_gossip \<Rightarrow> bool" live_surroundings
  "\<lambda>s. live_ok svc s \<and> stop_requested s \<and> all_responsive responsive svc" stop_returned
  live_distance "live_order sur TYPE(('e, 'w) shared)"
proof unfold_locales
  show "wf (live_order sur TYPE(('e, 'w) shared))"
    by (simp add: live_order_def wf_lex_prod wf_trancl wf_prog_next)
  show "trans (live_order sur TYPE(('e, 'w) shared))"
    unfolding live_order_def by (intro trans_lex_prod trans_less_than trans_trancl)
  fix s s' :: "('e, 'w) live_gossip"
  assume s: "live_ok svc s \<and> stop_requested s \<and> all_responsive responsive svc"
  then obtain pc where pc: "svc_worker s = Some pc" and own: "svc_owner s = Joining" "svc_stopping s"
    by (auto simp: live_ok_def stop_requested_def)
  show "\<exists>s'. live_threads sur responsive svc s s'"
  proof (cases pc)
    case (Live_round p)
    then have "can_run responsive p \<or> (\<exists>v. p = Return v)"
      using s pc can_run_talks [of "sync_peer ` set (peers svc)" p responsive]
      by (auto simp: live_ok_def all_responsive_def list_all_iff)
    then show ?thesis
      using pc live_section live_round_over by (metis Live_round prod.exhaust)
  qed (use pc own live_schedule_end live_timer_end live_join in metis)+
  show "stop_returned s' \<or> (live_ok svc s' \<and> stop_requested s' \<and> all_responsive responsive svc) \<and>
      (live_distance s', live_distance s) \<in> live_order sur TYPE(('e, 'w) shared)"
    if t: "live_threads sur responsive svc s s'"
  proof -
    have ok: "live_ok svc s'" using live_ok_step s t by blast
    from t show ?thesis
    proof cases
      case (live_section p p' x)
      then have "(p', p) \<in> prog_next sur TYPE(('e, 'w) shared)"
        unfolding prog_next_def by (cases p) (auto intro!: exI [of _ "svc_shared s"])
      then show ?thesis
        using ok s own live_section by (auto simp: live_distance_def live_order_def stop_requested_def)
    qed (use ok s own in \<open>auto simp: live_distance_def live_order_def stop_requested_def stop_returned_def finish_def\<close>)
  qed
  show "(live_ok svc s' \<and> stop_requested s' \<and> all_responsive responsive svc) \<and>
      (live_distance s' = live_distance s \<or> (live_distance s', live_distance s) \<in> live_order sur TYPE(('e, 'w) shared))"
    if t: "live_surroundings s s'"
    using live_ok_step s t own
    by (elim live_surroundings_cases) (auto simp: live_distance_def stop_requested_def live_ok_def)
qed

section \<open>Properties\<close>

text \<open>
  Property C25: stopping the gossip service ends when its peers answer.  The worker goes through its rounds
  section by section while other threads change the registry, the trust store and the network in
  any way; if every peer in its list answers or closes each connection, a \<^verbatim>\<open>stop\<close> returns in every
  fair run.
\<close>

theorem live_gossip_stop_returns:
  assumes "\<sigma> 0 = new_service x" and "run_of (live_threads sur responsive svc) live_surroundings \<sigma>"
    and "fair_run (live_threads sur responsive svc) \<sigma>" and "all_responsive responsive svc"
    and "stop_requested (\<sigma> k)"
  shows "\<exists>i\<ge>k. stop_returned (\<sigma> i)"
proof -
  have "live_ok svc s" if "reached (live_threads sur responsive svc) live_surroundings (new_service x) s" for s
    using that
  proof induction
    case reached_start
    show ?case by (simp add: live_ok_def new_service_def)
  qed (use live_ok_step in blast)+
  then have "live_ok svc (\<sigma> k)" using run_reached [OF assms(2), of k] assms(1) by metis
  with assms(4,5) show ?thesis using live.stop_completes [OF assms(2,3), of k] by blast
qed

text \<open>
  One peer that stays silent stops the gossip of a node, and its shutdown.  A state can be
  reached in which \<^verbatim>\<open>stop\<close> was called and neither it nor the worker can go on, whatever the other
  threads do and whatever becomes of the network otherwise.
\<close>

theorem silent_peer_holds_gossip:
  fixes x :: "('e, 'w) shared"
  assumes "peer \<in> set (peers svc)" and "\<not> responsive (sync_peer peer)"
  shows "\<exists>s. reached (live_threads sur responsive svc) live_surroundings (new_service x) s \<and>
     svc_owner s = Joining \<and> svc_stopping s \<and>
     (\<forall>x' :: ('e, 'w) shared. \<nexists>s'. live_threads sur responsive svc (s\<lparr>svc_shared := x'\<rparr>) s')"
proof -
  obtain n where n: "n < length (peers svc)" "peers svc ! n = peer" using assms(1) by (auto simp: in_set_conv_nth)
  let ?shuffle = "\<lambda>xs. if n \<in> set xs then n # remove1 n xs else xs"
  have sh: "shuffles ?shuffle" by (simp add: shuffles_def)
  have "[0..<length (peers svc)] \<noteq> []" using n(1) by auto
  then obtain rest where pick: "pick_random_indices ?shuffle (length (peers svc)) GOSSIP_FANOUT = n # rest"
    using n(1) by (simp add: pick_random_indices_alt [OF sh] GOSSIP_FANOUT_def)
  have "peers svc \<noteq> []" using n(1) by auto
  then obtain c k where round: "round_prog (\<lambda>_ _. 0) ?shuffle svc =
      Send_udp (gp_host peer) (gp_listen_port peer) (heartbeat_text (gs_config svc))
        (Read_stats (\<lambda>st. Send_tcp (sync_peer peer) c (k st)))"
    by (simp add: round_prog_def pick n(2) sync_prog_def command_prog_def sync_peer_def Let_def)
  let ?s0 = "new_service x :: ('e, 'w) live_gossip"
  let ?s1 = "live_start ?s0"
  let ?s2 = "?s1\<lparr>svc_worker := Some Live_wait\<rparr>"
  let ?s3 = "?s2\<lparr>svc_worker := Some (Live_round (round_prog (\<lambda>_ _. 0) ?shuffle svc))\<rparr>"
  let ?x1 = "x\<lparr>sh_world := sur_udp sur (gp_host peer) (gp_listen_port peer) (heartbeat_text (gs_config svc)) (sh_world x)\<rparr>"
  let ?s4 = "?s3\<lparr>svc_worker := Some (Live_round (Read_stats (\<lambda>st. Send_tcp (sync_peer peer) c (k st)))), svc_shared := ?x1\<rparr>"
  let ?s5 = "?s4\<lparr>svc_worker := Some (Live_round (Send_tcp (sync_peer peer) c (k (stats (sh_registry ?x1))))), svc_shared := ?x1\<rparr>"
  let ?s6 = "live_stop ?s5"
  let ?reach = "reached (live_threads sur responsive svc) live_surroundings ?s0"
  note defs = live_start_def live_stop_def new_service_def
  have "?reach ?s1" by (rule reached_surroundings [OF reached_start], rule live_call_start) (simp add: defs)
  then have "?reach ?s2" by (rule reached_thread, intro live_schedule) (simp_all add: defs)
  then have "?reach ?s3" by (rule reached_thread, intro live_timer) (simp_all add: defs sh)
  then have "?reach ?s4"
    by (rule reached_thread, intro live_section [where p = "round_prog (\<lambda>_ _. 0) ?shuffle svc"])
      (simp_all add: defs round perform_def)
  then have "?reach ?s5"
    by (rule reached_thread, intro live_section [where p = "Read_stats (\<lambda>st. Send_tcp (sync_peer peer) c (k st))"])
      (simp_all add: defs perform_def)
  then have "?reach ?s6" by (rule reached_surroundings, intro live_call_stop) (simp add: defs)
  moreover have "\<not> live_threads sur responsive svc (?s6\<lparr>svc_shared := x'\<rparr>) s'" for x' s'
    using assms(2) by (auto simp: defs elim!: live_threads_cases)
  moreover have "svc_owner ?s6 = Joining" "svc_stopping ?s6" by (simp_all add: defs)
  ultimately show ?thesis by blast
qed

section \<open>Instances\<close>

definition idle_surroundings :: "unit surroundings" where
  "idle_surroundings = \<lparr>sur_sodium = None, sur_protobuf = None,
     sur_net = (\<lambda>_ _ w. (Exchange [] Read_eof, w)), sur_udp = (\<lambda>_ _ _ w. w)\<rparr>"

definition empty_shared :: "(unit, unit) shared" where
  "empty_shared = \<lparr>sh_identity = new_IdentityService, sh_registry = new_AgentRegistry, sh_env = (), sh_world = ()\<rparr>"

definition lone_gossip :: GossipService where
  "lone_gossip = new_GossipService default_NodeConfig default_GossipConfig"

text \<open>A worker that is in a round when \<^verbatim>\<open>stop\<close> is called.\<close>

definition live_life :: "(unit, unit) live_gossip list" where
  "live_life =
     (let s0 = new_service empty_shared; s1 = live_start s0; s2 = s1\<lparr>svc_worker := Some Live_wait\<rparr>;
          s3 = s2\<lparr>svc_worker := Some (Live_round (round_prog (\<lambda>_ _. 0) (\<lambda>xs. xs) lone_gossip))\<rparr>;
          s4 = live_stop s3; s5 = s4\<lparr>svc_worker := Some Live_schedule\<rparr>; s6 = finish Live_finished s5
      in [s0, s1, s2, s3, s4, s5, s6, s6\<lparr>svc_worker := None, svc_owner := Idle\<rparr>])"

lemma live_life_run:
  "run_of (live_threads idle_surroundings responsive lone_gossip) live_surroundings (Service_Lifecycle.extend live_life)"
  "fair_run (live_threads idle_surroundings responsive lone_gossip) (Service_Lifecycle.extend live_life)"
proof -
  let ?threads = "live_threads idle_surroundings responsive lone_gossip :: (unit, unit) live_gossip \<Rightarrow> _"
  have p: "round_prog (\<lambda>_ _. 0) (\<lambda>xs. xs) lone_gossip = Return ()"
    by (simp add: round_prog_def lone_gossip_def new_GossipService_def peers_def)
  have states: "svc_owner (new_service y) = Idle" "svc_owner (live_start (new_service y)) = Idle"
    "svc_worker (live_start (new_service y)) = Some Live_schedule" "\<not> svc_stopping (live_start (new_service y))"
    for y :: "(unit, unit) shared"
    by (simp_all add: new_service_def live_start_def)
  have stop: "svc_worker (live_stop s) = svc_worker s" "svc_stopping (live_stop s)"
    "svc_worker s \<noteq> None \<Longrightarrow> svc_owner (live_stop s) = Joining" for s :: "(unit, unit) live_gossip"
    by (simp_all add: live_stop_def)
  have fin: "svc_worker (finish pc s) = Some pc" "svc_owner (finish pc s) = svc_owner s"
    for pc and s :: "(unit, unit) live_gossip"
    by (simp_all add: finish_def)
  have "shuffles (\<lambda>xs. xs)" by (simp add: shuffles_def)
  then have timer: "?threads (s\<lparr>svc_worker := Some Live_wait\<rparr>) (s\<lparr>svc_worker := Some (Live_round (Return ()))\<rparr>)"
    if "\<not> svc_stopping s" for s
    using live_timer [of "s\<lparr>svc_worker := Some Live_wait\<rparr>" "\<lambda>xs. xs" idle_surroundings responsive lone_gossip "\<lambda>_ _. 0"] that
    by (simp add: p)
  have "list_all2 (\<lambda>s s'. ?threads s s' \<or> live_surroundings s s') (butlast live_life) (tl live_life)"
    unfolding live_life_def Let_def p
    by (simp add: live_call_start live_call_stop live_schedule timer live_round_over live_schedule_end live_join states stop fin)
  moreover have "\<nexists>s'. ?threads (last live_life) s'"
    by (auto simp: live_life_def Let_def elim!: live_threads_cases)
  ultimately show "run_of ?threads live_surroundings (Service_Lifecycle.extend live_life)" "fair_run ?threads (Service_Lifecycle.extend live_life)"
    using extend_run [of live_life] by (simp_all add: live_life_def Let_def)
qed

theorem live_gossip_stop_returns_witness: "\<exists>i\<ge>4. stop_returned (Service_Lifecycle.extend live_life i)"
proof (rule live_gossip_stop_returns [OF _ live_life_run [of "\<lambda>_. True"]])
  show "stop_requested (Service_Lifecycle.extend live_life 4)"
    by (simp add: Service_Lifecycle.extend_def live_life_def Let_def new_service_def live_start_def live_stop_def stop_requested_def)
  show "all_responsive (\<lambda>_. True) lone_gossip" by (simp add: all_responsive_def list_all_iff)
  show "Service_Lifecycle.extend live_life 0 = new_service empty_shared" by (simp add: Service_Lifecycle.extend_def live_life_def Let_def)
qed

theorem silent_peer_holds_gossip_witness:
  "let peer = \<lparr>gp_node_id = [], gp_host = ''10.0.0.2'', gp_listen_port = 43170, gp_control_port = 43171\<rparr>;
       svc = add_peer peer lone_gossip
   in \<exists>s. reached (live_threads idle_surroundings (\<lambda>_. False) svc) live_surroundings (new_service empty_shared) s \<and>
        svc_owner s = Joining \<and> (\<nexists>s'. live_threads idle_surroundings (\<lambda>_. False) svc (s\<lparr>svc_shared := empty_shared\<rparr>) s')"
proof -
  let ?peer = "\<lparr>gp_node_id = [], gp_host = ''10.0.0.2'', gp_listen_port = 43170, gp_control_port = 43171\<rparr>"
  have "?peer \<in> set (peers (add_peer ?peer lone_gossip))"
    by (simp add: lone_gossip_def new_GossipService_def peers_def add_peer_def)
  from silent_peer_holds_gossip [OF this, of "\<lambda>_. False" idle_surroundings empty_shared]
  show ?thesis unfolding Let_def by blast
qed

end
