(* ===== verification/Node_Life.thy ===== *)
theory Node_Life
  imports Node_Threads Engine_Run
begin

text \<open>
  A node over a crash: \<^verbatim>\<open>main\<close> starts its components on one file system, its threads serve clients and
  peers in any interleaving, the process is stopped at any moment, and \<^verbatim>\<open>main\<close> starts again on the files
  that are left.
\<close>

definition engine_store :: IdentityStore where
  "engine_store = new_IdentityStore ''.beaconnode/identity.txt''"

text \<open>The files of a node: the log, the snapshot, the configuration and the key are different files that can be written.\<close>

definition node_files :: "filesystem \<Rightarrow> string \<Rightarrow> string \<Rightarrow> string \<Rightarrow> bool" where
  "node_files fs snap wal c \<longleftrightarrow>
     ready fs (engine_service wal) snap wal \<and> can_open fs wal \<and> store_config fs engine_store = Inr c \<and>
     can_open fs c \<and> can_open fs (c @ ''.key'') \<and> create_directories_ok fs (path_parent c) \<and>
     distinct [snap, wal, c, c @ ''.key'']"

text \<open>Both parts of a start: the registry from the log, then the identity on the files with the log opened.\<close>

lemma start_engine_parts:
  assumes "node_files fs snap wal c" and "contents f snap = None"
    and "(case contents f wal of None \<Rightarrow> [] | Some bs \<Rightarrow> bs) = bs"
    and "load_or_create lib seed fs engine_store (cfg_node_id (cfg_node (opt_config opts)))
      (f\<lparr>contents := (contents f)(wal \<mapsto> bs)\<rparr>) = (Inr identity, f')"
  shows "\<exists>eng. start_engine lib seed fs codec clock now opts f = (Inr eng, f') \<and> eng_identity eng = identity \<and>
     start_registry fs codec clock now (contents f) = (Inr (eng_registry eng), (contents f)(wal \<mapsto> bs))"
proof -
  have "ready fs (engine_service wal) snap wal" "can_open fs wal" using assms(1) by (simp_all add: node_files_def)
  from start_registry_replays [OF this assms(2,3), of codec clock now] show ?thesis
    using assms(4) by (simp add: start_engine_def engine_store_def Let_def)
qed

section \<open>Property\<close>


section \<open>An instance\<close>

lemma sample_node_files: "node_files plain_fs ''./registry.bin'' ''./registry.wal'' ''.beaconnode/identity.txt''"
proof -
  have "store_config plain_fs engine_store = Inr ''.beaconnode/identity.txt''"
    by (simp add: store_config_def engine_store_def path_parent_def path_filename_def resolve_secure_path_def plain_fs_def
        path_append_def path_escapes_def slash_def Let_def)
  then show ?thesis using ready_engine_sample by (simp add: node_files_def plain_fs_def)
qed

definition blank_files :: files where
  "blank_files = \<lparr>contents = Map.empty, mode = (\<lambda>_. 0), umask_mode = 420\<rparr>"


end
