(* ===== verification/Leases.thy ===== *)
theory Leases
  imports Control_Server
begin

text \<open>
  The registry as a table of leases.  A client that is registered renews its lease by control lines
  (\<^verbatim>\<open>handle_line\<close> in \<^verbatim>\<open>src/src/beacon/control_protocol.cpp\<close>), and the loop of the engine
  (\<^verbatim>\<open>src/src/beacon_engine/main.cpp\<close>) purges what has expired; the specification knows of each agent
  only until when it is listed, and of each line only its agent and its reply.
\<close>

section \<open>A run of lines and purges\<close>

datatype life_event = Line_at time_point string | Purge_at time_point

definition life_step ::
  "sodium option \<Rightarrow> ControlProtocol \<Rightarrow> life_event \<Rightarrow> 'e node \<Rightarrow> string option \<times> 'e node" where
  "life_step lib proto ev node =
     (case node of (identity, reg, env) \<Rightarrow>
        (case ev of
           Line_at now line \<Rightarrow>
             (case handle_line lib now proto line identity reg env of (reply, node') \<Rightarrow> (Some reply, node'))
         | Purge_at now \<Rightarrow> (None, identity, snd (purge_expired now reg), env)))"

text \<open>The run with its transcript: each event with the reply it got.\<close>

fun life_run ::
  "sodium option \<Rightarrow> ControlProtocol \<Rightarrow> life_event list \<Rightarrow> 'e node \<Rightarrow> (life_event \<times> string option) list \<times> 'e node" where
  "life_run lib proto [] node = ([], node)"
| "life_run lib proto (ev # evs) node =
     (case life_step lib proto ev node of
        (reply, node1) \<Rightarrow> (case life_run lib proto evs node1 of (tr, node2) \<Rightarrow> ((ev, reply) # tr, node2)))"

section \<open>The specification\<close>

type_synonym lease_table = "string \<rightharpoonup> time_point"

text \<open>The agent a line is about, and the replies that renew its lease.\<close>

definition line_agent :: "ControlProtocol \<Rightarrow> time_point \<Rightarrow> string \<Rightarrow> string" where
  "line_agent proto now line = cmd_agent_id (parse_command now proto line)"

definition renewal :: "string \<Rightarrow> bool" where
  "renewal reply \<longleftrightarrow>
     reply \<in> {''OK message=registered'' @ nl, ''OK message=merged'' @ nl, ''OK message=heartbeat'' @ nl}"

definition contact :: "ControlProtocol \<Rightarrow> life_event \<times> string option \<Rightarrow> (string \<times> time_point) option" where
  "contact proto er =
     (case er of
        (Line_at now line, Some reply) \<Rightarrow> if renewal reply then Some (line_agent proto now line, now) else None
      | _ \<Rightarrow> None)"

definition lease_step :: "ControlProtocol \<Rightarrow> life_event \<times> string option \<Rightarrow> lease_table \<Rightarrow> lease_table" where
  "lease_step proto er table =
     (case contact proto er of
        Some (aid, now) \<Rightarrow> table(aid \<mapsto> now + milliseconds (heartbeat_ttl (proto_lifecycle proto)))
      | None \<Rightarrow>
          (case fst er of
             Line_at now line \<Rightarrow> table
           | Purge_at now \<Rightarrow> (\<lambda>aid. case table aid of Some t \<Rightarrow> if t \<le> now then None else Some t | None \<Rightarrow> None)))"

definition leases :: "'e AgentRegistry \<Rightarrow> lease_table" where
  "leases reg aid = map_option expires_at (find_record aid reg)"

section \<open>What the parser leaves in a command\<close>

definition agrees :: "time_point \<Rightarrow> ControlCommand \<Rightarrow> bool" where
  "agrees t c \<longleftrightarrow> agent_id (registration c) = cmd_agent_id c \<and>
     (action c \<in> {ControlAction_Register, ControlAction_Merge} \<longrightarrow> expires_at (registration c) = t)"

lemma agrees_parse_field: "agrees t c \<Longrightarrow> agrees t (command_of (parse_field tok c))"
  by (auto simp: agrees_def parse_field_def case_prod_unfold Let_def split: option.split)

lemma agrees_parse_fields: "agrees t c \<Longrightarrow> agrees t (command_of (parse_fields toks c))"
proof (induction toks arbitrary: c)
  case (Cons tok toks)
  then show ?case using agrees_parse_field [OF Cons.prems, of tok] by (cases "parse_field tok c") simp_all
qed simp

lemma agrees_parse_command:
  "agrees (now + milliseconds (heartbeat_ttl (proto_lifecycle proto))) (parse_command now proto line)"
proof -
  let ?t = "now + milliseconds (heartbeat_ttl (proto_lifecycle proto))" and ?c = "new_ControlCommand now"
  have new: "agrees ?t ?c" "agrees ?t (?c\<lparr>error := e\<rparr>)" for e
    by (simp_all add: agrees_def new_ControlCommand_def new_AgentRecord_def)
  have verb: "agrees ?t c" if "parse_verb now proto v ?c = Some c" for v c
    using that by (auto simp: parse_verb_def Let_def agrees_def new_ControlCommand_def new_AgentRecord_def split: if_splits)
  have req: "agrees ?t (check_required c) = agrees ?t c" for c
    by (simp add: check_required_def agrees_def)
  have "agrees ?t (case parse_fields ts c of Inl c' \<Rightarrow> c' | Inr c' \<Rightarrow> check_required c')" if "agrees ?t c" for ts c
    using agrees_parse_fields [OF that, of ts] by (auto simp: req split: sum.split_asm sum.split)
  then show ?thesis
    using new verb by (auto simp: parse_command_def Let_def split: option.split)
qed

section \<open>One event\<close>

lemma renewal_words:
  "renewal (''OK message=registered'' @ nl)" "renewal (''OK message=merged'' @ nl)" "renewal (''OK message=heartbeat'' @ nl)"
  by (simp_all add: renewal_def)

lemma not_renewal:
  "\<not> renewal (''ERR'' @ s)" "\<not> renewal (''OK active_agents='' @ s)"
  "\<not> renewal (''OK message=list'' @ s)" "\<not> renewal (''OK message=sync_pull'' @ s)"
  by (simp_all add: renewal_def)

lemma leases_upsert:
  assumes "upsert r reg env = (True, reg', env')"
  shows "leases reg' = (leases reg)(agent_id r \<mapsto> expires_at r)"
proof
  fix aid
  have "supersedes r (lookup (records reg) (agent_id r))" "records reg' = snd (upsert_records r (records reg))"
    using assms by (auto simp: upsert_alt upsert_records_accepts)
  then show "leases reg' aid = ((leases reg)(agent_id r \<mapsto> expires_at r)) aid"
    by (simp add: leases_def find_record_lookup lookup_upsert_records)
qed

lemma leases_heartbeat:
  assumes "refresh_heartbeat aid t n reg = (True, reg')"
  shows "leases reg' = (leases reg)(aid \<mapsto> t)"
proof
  fix aid'
  obtain e where "lookup (records reg) aid = Some e" "revision e \<le> n"
    using refresh_heartbeat_accepts [of aid t n reg] assms by auto
  then show "leases reg' aid' = ((leases reg)(aid \<mapsto> t)) aid'"
    using lookup_refresh_heartbeat [of aid t n reg aid'] assms by (simp add: leases_def find_record_lookup)
qed

lemma leases_purge:
  "registry_wf (records reg) \<Longrightarrow> leases (snd (purge_expired now reg)) aid =
     (case leases reg aid of Some t \<Rightarrow> if t \<le> now then None else Some t | None \<Rightarrow> None)"
  by (simp add: leases_def find_record_lookup records_purge_expired lookup_filter not_less split: option.split)

lemma leases_registration:
  assumes "handle_registration lib proto w r identity reg env = (reply, identity', reg', env')"
    and "renewal (''OK message='' @ w @ nl)"
  shows "leases reg' = (if renewal reply then (leases reg)(agent_id r \<mapsto> expires_at r) else leases reg)"
  using assms(1)
proof (cases rule: handle_registration_cases)
  case rejected
  have "\<not> renewal reply"
    using rejected(4) not_renewal(1) [of "drop 3 reply"] by (metis append_take_drop_id)
  with rejected show ?thesis by simp
next
  case accepted
  then show ?thesis using assms(2) leases_upsert by simp
qed

lemma leases_heartbeat_line:
  assumes "handle_line lib now proto line identity reg env = (reply, identity', reg', env')"
    and "error (parse_command now proto line) = []" and "action (parse_command now proto line) = ControlAction_Heartbeat"
  shows "leases reg' = lease_step proto (Line_at now line, Some reply) (leases reg)"
proof -
  let ?c = "parse_command now proto line" and ?t = "now + milliseconds (heartbeat_ttl (proto_lifecycle proto))"
  obtain ok rg where h: "refresh_heartbeat (cmd_agent_id ?c) ?t (revision (registration ?c)) reg = (ok, rg)"
    by fastforce
  show ?thesis
  proof (cases ok)
    case True
    then have "reply = ''OK message=heartbeat'' @ nl" "reg' = rg"
      using assms h by (auto simp: handle_line_def Let_def)
    then show ?thesis
      using leases_heartbeat [of "cmd_agent_id ?c" ?t _ reg rg] h True renewal_words
      by (simp add: lease_step_def contact_def line_agent_def)
  next
    case False
    then have "reply = ''ERR'' @ '' message=unknown_or_stale_agent'' @ nl" "reg' = reg"
      using assms h refresh_heartbeat_rejected by (auto simp: handle_line_def Let_def)
    then have "\<not> renewal reply" "leases reg' = leases reg" by (simp_all add: renewal_def)
    then show ?thesis by (simp add: lease_step_def contact_def)
  qed
qed

lemma leases_line:
  assumes "handle_line lib now proto line identity reg env = (reply, identity', reg', env')"
  shows "leases reg' = lease_step proto (Line_at now line, Some reply) (leases reg)"
proof -
  let ?c = "parse_command now proto line"
  have same: "leases reg = lease_step proto (Line_at now line, Some reply) (leases reg)" if "\<not> renewal reply"
    using that by (simp add: lease_step_def contact_def)
  have reg: "leases reg' = lease_step proto (Line_at now line, Some reply) (leases reg)"
    if "handle_registration lib proto w (registration ?c) identity reg env = (reply, identity', reg', env')"
      and "renewal (''OK message='' @ w @ nl)" and "action ?c \<in> {ControlAction_Register, ControlAction_Merge}" for w
    using leases_registration [OF that(1,2)] that(3) agrees_parse_command [of now proto line]
    by (simp add: agrees_def lease_step_def contact_def line_agent_def)
  show ?thesis
  proof (cases "error ?c = []")
    case False
    then have "reply = ''ERR message='' @ error ?c @ nl" "reg' = reg"
      using assms by (auto simp: handle_line_def Let_def)
    then show ?thesis using same not_renewal(1) [of "'' message='' @ error ?c @ nl"] by simp
  next
    case True
    show ?thesis
    proof (cases "action ?c")
      case ControlAction_Register
      then show ?thesis using True assms reg [of "''registered''"] renewal_words by (simp add: handle_line_def)
    next
      case ControlAction_Merge
      then show ?thesis using True assms reg [of "''merged''"] renewal_words by (simp add: handle_line_def)
    next
      case ControlAction_Heartbeat
      then show ?thesis by (rule leases_heartbeat_line [OF assms True])
    next
      case ControlAction_List
      then show ?thesis using True assms same not_renewal(3) by (auto simp: handle_line_def)
    next
      case ControlAction_Stats
      then show ?thesis using True assms same not_renewal(2) by (auto simp: handle_line_def Let_def)
    next
      case ControlAction_SyncPull
      then show ?thesis using True assms same not_renewal(4) by (auto simp: handle_line_def Let_def)
    next
      case ControlAction_Unknown
      then show ?thesis using True assms same not_renewal(1) [of "'' message=unhandled_command'' @ nl"]
        by (auto simp: handle_line_def)
    qed
  qed
qed

lemma life_step_leases:
  assumes "life_step lib proto ev (identity, reg, env) = (reply, identity', reg', env')"
    and "registry_wf (records reg)" and "pred_option identity_wf identity"
  shows "leases reg' = lease_step proto (ev, reply) (leases reg) \<and> registry_wf (records reg') \<and> pred_option identity_wf identity'"
proof (cases ev)
  case (Line_at now line)
  then obtain reply' where h: "handle_line lib now proto line identity reg env = (reply', identity', reg', env')" "reply = Some reply'"
    using assms(1) by (auto simp: life_step_def split: prod.splits)
  show ?thesis
    using leases_line [OF h(1)] handle_line_invariant [OF h(1)] assms(2,3) by (simp add: Line_at h(2))
next
  case (Purge_at now)
  then have eq: "reply = None" "identity' = identity" "reg' = snd (purge_expired now reg)"
    using assms(1) by (simp_all add: life_step_def)
  have "leases reg' = lease_step proto (ev, reply) (leases reg)"
    by (rule ext) (simp add: eq leases_purge [OF assms(2)] lease_step_def contact_def Purge_at)
  then show ?thesis using assms(2,3) by (simp add: eq records_purge_expired registry_wf_filter)
qed

section \<open>Whole runs\<close>

lemma life_run_leases:
  assumes "life_run lib proto evs (identity, reg, env) = (tr, identity', reg', env')"
    and "registry_wf (records reg)" and "pred_option identity_wf identity"
  shows "leases reg' = fold (lease_step proto) tr (leases reg)"
  using assms
proof (induction evs arbitrary: identity reg env tr)
  case (Cons ev evs)
  obtain reply i1 reg1 env1 where st: "life_step lib proto ev (identity, reg, env) = (reply, i1, reg1, env1)"
    by (metis prod_cases4)
  obtain tr' where tr: "life_run lib proto evs (i1, reg1, env1) = (tr', identity', reg', env')" "tr = (ev, reply) # tr'"
    using Cons.prems(1) by (auto simp: st split: prod.splits)
  show ?case
    using life_step_leases [OF st Cons.prems(2,3)] Cons.IH [OF tr(1)] by (simp add: tr(2))
qed simp

text \<open>Where an element of a list lies, when the list grows at its end.\<close>

lemma split_snoc:
  "(\<exists>pre y post. xs @ [x] = pre @ y # post \<and> Q y post) \<longleftrightarrow>
     Q x [] \<or> (\<exists>pre y post. xs = pre @ y # post \<and> Q y (post @ [x]))"
proof
  assume "\<exists>pre y post. xs @ [x] = pre @ y # post \<and> Q y post"
  then obtain pre y post where *: "xs @ [x] = pre @ y # post" "Q y post" by blast
  show "Q x [] \<or> (\<exists>pre y post. xs = pre @ y # post \<and> Q y (post @ [x]))"
    using * by (cases post rule: rev_cases) auto
next
  assume "Q x [] \<or> (\<exists>pre y post. xs = pre @ y # post \<and> Q y (post @ [x]))"
  then show "\<exists>pre y post. xs @ [x] = pre @ y # post \<and> Q y post" by (metis append.assoc append_Cons)
qed

text \<open>The lease of an agent by its last contact: when it runs out, unless a later purge came too late for it.\<close>

definition last_contact :: "ControlProtocol \<Rightarrow> string \<Rightarrow> time_point \<Rightarrow> life_event \<times> string option \<Rightarrow> (life_event \<times> string option) list \<Rightarrow> bool" where
  "last_contact proto aid t er post \<longleftrightarrow>
     (\<exists>now. contact proto er = Some (aid, now) \<and> t = now + milliseconds (heartbeat_ttl (proto_lifecycle proto))) \<and>
     (\<forall>er'\<in>set post. map_option fst (contact proto er') \<noteq> Some aid) \<and>
     (\<forall>t'. Purge_at t' \<in> fst ` set post \<longrightarrow> t' < t)"

lemma contact_line: "contact proto er = Some x \<Longrightarrow> fst er \<noteq> Purge_at t"
  by (auto simp: contact_def split: prod.splits life_event.splits option.splits if_splits)

lemma lease_by_last_contact:
  "fold (lease_step proto) tr Map.empty aid = Some t \<longleftrightarrow>
     (\<exists>pre er post. tr = pre @ er # post \<and> last_contact proto aid t er post)"
proof (induction tr arbitrary: t rule: rev_induct)
  case (snoc x tr)
  let ?old = "fold (lease_step proto) tr Map.empty aid"
  have new: "last_contact proto aid t x [] \<longleftrightarrow>
      (\<exists>now. contact proto x = Some (aid, now) \<and> t = now + milliseconds (heartbeat_ttl (proto_lifecycle proto)))" for t
    by (simp add: last_contact_def)
  have old: "last_contact proto aid t er (post @ [x]) \<longleftrightarrow>
      last_contact proto aid t er post \<and> map_option fst (contact proto x) \<noteq> Some aid \<and> (\<forall>t'. fst x = Purge_at t' \<longrightarrow> t' < t)" for t er post
    by (auto simp: last_contact_def)
  have "lease_step proto x (fold (lease_step proto) tr Map.empty) aid = Some t \<longleftrightarrow>
      last_contact proto aid t x [] \<or>
      ?old = Some t \<and> map_option fst (contact proto x) \<noteq> Some aid \<and> (\<forall>t'. fst x = Purge_at t' \<longrightarrow> t' < t)"
  proof (cases "contact proto x")
    case None
    then show ?thesis
      by (auto simp: lease_step_def new not_le split: life_event.split option.split)
  next
    case (Some p)
    then show ?thesis
      using contact_line [OF Some] by (cases p) (auto simp: lease_step_def new)
  qed
  then show ?case
    unfolding split_snoc old by (auto simp: snoc.IH)
qed simp

section \<open>Properties\<close>

text \<open>
  Property C7: the registry refines a table of leases.  Whatever lines a node is sent and whenever it purges,
  its registry is, as a table from agents to the end of their leases, what the specification
  computes from the transcript: a reply that confirms a registration, a merge or a heartbeat sets
  the lease of the line's agent to the heartbeat period from now, a purge drops the leases that
  have run out, and nothing else has an effect.
\<close>

theorem registry_refines_leases:
  fixes reg :: "'e AgentRegistry"
  assumes "registry_wf (records reg)" and "pred_option identity_wf identity"
    and "life_run lib proto evs (identity, reg, env) = (tr, identity', reg', env')"
  shows "leases reg' = fold (lease_step proto) tr (leases reg)"
  by (rule life_run_leases [OF assms(3,1,2)])

text \<open>
  Property C8: failure detection.  Of a node that starts with an empty registry, an agent is listed exactly
  when one of its registrations, merges or heartbeats was confirmed and no purge since the last of
  these came at or after the end of the lease that it started.
\<close>

theorem listed_iff_lease_runs:
  fixes reg :: "'e AgentRegistry"
  assumes "records reg = []" and "pred_option identity_wf identity"
    and "life_run lib proto evs (identity, reg, env) = (tr, identity', reg', env')"
  shows "aid \<in> agent_id ` set (list_records reg') \<longleftrightarrow>
     (\<exists>pre er post now. tr = pre @ er # post \<and> contact proto er = Some (aid, now) \<and>
        (\<forall>er'\<in>set post. map_option fst (contact proto er') \<noteq> Some aid) \<and>
        (\<forall>t. Purge_at t \<in> fst ` set post \<longrightarrow> t < now + milliseconds (heartbeat_ttl (proto_lifecycle proto))))"
proof -
  have "leases reg = Map.empty" using assms(1) by (auto simp: leases_def find_record_lookup)
  then have "leases reg' aid = Some t \<longleftrightarrow>
      (\<exists>pre er post. tr = pre @ er # post \<and> last_contact proto aid t er post)" for t
    using life_run_leases [OF assms(3) _ assms(2)] assms(1) lease_by_last_contact by simp
  moreover have "aid \<in> agent_id ` set (list_records reg') \<longleftrightarrow> (\<exists>t. leases reg' aid = Some t)"
    using lookup_None_iff [of "records reg'" aid] by (auto simp: leases_def find_record_lookup list_records_def)
  ultimately have "aid \<in> agent_id ` set (list_records reg') \<longleftrightarrow>
      (\<exists>t pre er post. tr = pre @ er # post \<and> last_contact proto aid t er post)" by simp
  also have "\<dots> \<longleftrightarrow> (\<exists>pre er post. tr = pre @ er # post \<and> (\<exists>t. last_contact proto aid t er post))" by blast
  finally show ?thesis by (simp only: last_contact_def) blast
qed

text \<open>A registration, and a purge before the end of its lease.\<close>

abbreviation lease_proto :: ControlProtocol where
  "lease_proto \<equiv> \<lparr>proto_lifecycle = default_LifecycleConfig, proto_trust = default_TrustConfig\<rparr>"

definition lease_line :: string where
  "lease_line = ''REGISTER'' @ blank_prefixed (record_tokens (sample_record ''a'' 1 0))"

lemma lease_line_safe:
  "line_safe (sample_record ''a'' 1 0)" "node_id (sample_record ''a'' 1 0) \<noteq> []" "endpoint (sample_record ''a'' 1 0) \<noteq> []"
  by (simp_all add: line_safe_def sample_record_def no_space_def is_space_def)

lemma lease_line_agent: "line_agent lease_proto 0 lease_line = ''a''"
  using parse_registration_line [OF lease_line_safe, of "''REGISTER''" ControlAction_Register 0 lease_proto]
  by (simp add: line_agent_def lease_line_def) (simp add: sample_record_def)

lemma lease_life:
  "\<exists>reg'. life_run None lease_proto [Line_at 0 lease_line, Purge_at 5] (None, new_AgentRegistry :: unit AgentRegistry, ()) =
     ([(Line_at 0 lease_line, Some (''OK message=registered'' @ nl)), (Purge_at 5, None)], None, reg', ())"
proof -
  have "verify_agent_signature None (sample_record ''a'' 1 t) = Missing" for t
    by (simp add: verify_agent_signature_def sample_record_def)
  moreover have "(sample_record ''a'' 1 0)\<lparr>expires_at := t\<rparr> = sample_record ''a'' 1 t" for t
    by (simp add: sample_record_def)
  ultimately have "\<exists>reg'. handle_line None 0 lease_proto lease_line None (new_AgentRegistry :: unit AgentRegistry) () =
      (''OK message=registered'' @ nl, None, reg', ())"
    unfolding lease_line_def handle_register_line [OF lease_line_safe]
    by (simp add: handle_registration_def signature_rejection_def default_TrustConfig_def upsert_alt
        upsert_records_accepts supersedes_def new_AgentRegistry_def register_identity_def)
  then show ?thesis by (auto simp: life_step_def)
qed

theorem registry_refines_leases_witness:
  "case life_run None lease_proto [Line_at 0 lease_line, Purge_at 5] (None, new_AgentRegistry :: unit AgentRegistry, ()) of
     (tr, _, reg', _) \<Rightarrow> leases reg' = fold (lease_step lease_proto) tr (leases (new_AgentRegistry :: unit AgentRegistry))"
proof -
  obtain reg' where run: "life_run None lease_proto [Line_at 0 lease_line, Purge_at 5] (None, new_AgentRegistry :: unit AgentRegistry, ()) =
     ([(Line_at 0 lease_line, Some (''OK message=registered'' @ nl)), (Purge_at 5, None)], None, reg', ())"
    using lease_life by blast
  show ?thesis
    unfolding run prod.case by (rule registry_refines_leases [OF _ _ run]) (simp_all add: new_AgentRegistry_def)
qed

theorem listed_iff_lease_runs_witness:
  "''a'' \<in> agent_id ` set (list_records (fst (snd (snd (life_run None lease_proto
     [Line_at 0 lease_line, Purge_at 5] (None, new_AgentRegistry :: unit AgentRegistry, ()))))))"
proof -
  let ?er = "(Line_at 0 lease_line, Some (''OK message=registered'' @ nl))"
  obtain reg' where run: "life_run None lease_proto [Line_at 0 lease_line, Purge_at 5] (None, new_AgentRegistry :: unit AgentRegistry, ()) =
     ([?er, (Purge_at 5, None)], None, reg', ())"
    using lease_life by blast
  have c: "contact lease_proto ?er = Some (''a'', 0)" "contact lease_proto (Purge_at 5, None) = None"
    by (simp_all add: contact_def lease_line_agent) (simp add: renewal_def)
  have ttl: "5 < 0 + milliseconds (heartbeat_ttl (proto_lifecycle lease_proto))"
    by (simp add: milliseconds_def default_LifecycleConfig_def)
  have "''a'' \<in> agent_id ` set (list_records reg')"
  proof (subst listed_iff_lease_runs [OF _ _ run])
    show "\<exists>pre er post now. [?er, (Purge_at 5, None)] = pre @ er # post \<and> contact lease_proto er = Some (''a'', now) \<and>
        (\<forall>er'\<in>set post. map_option fst (contact lease_proto er') \<noteq> Some ''a'') \<and>
        (\<forall>t. Purge_at t \<in> fst ` set post \<longrightarrow> t < now + milliseconds (heartbeat_ttl (proto_lifecycle lease_proto)))"
      using c ttl by (intro exI [of _ "[]"] exI [of _ ?er] exI [of _ "[(Purge_at 5, None)]"] exI [of _ 0]) simp
  qed (simp_all add: new_AgentRegistry_def)
  with run show ?thesis by simp
qed

end
