(* ===== verification/Catch_Up.thy ===== *)
theory Catch_Up
  imports Node_Sync
begin

text \<open>
  Catching up with a peer (\<^verbatim>\<open>src/src/beacon_net/sync_client.cpp\<close> against
  \<^verbatim>\<open>src/src/beacon_net/control_server.cpp\<close>).  A round asks for the records above the highest
  revision the node holds, lowest revisions first and at most \<^verbatim>\<open>max_registry_items_per_round\<close> of them,
  so that the highest revision is the cursor of the next round.  Where no two records share a
  revision the node is up to date after as many rounds as the limit requires; where the limit cuts
  through records of one revision, those behind the cut are never sent.
\<close>

section \<open>A batch of distinct agents\<close>

context revision_registry
begin

lemma get_put_all_other: "aid \<notin> agent_id ` set rs \<Longrightarrow> get (put_all rs s) aid = get s aid"
  by (induction rs arbitrary: s) (auto simp: get_put)

lemma get_put_all_distinct:
  assumes "distinct (map agent_id rs)" and "supersedes r (get s (agent_id r))" and "r \<in> set rs"
  shows "get (put_all rs s) (agent_id r) = Some r"
  using assms
proof (induction rs arbitrary: s)
  case (Cons q rs)
  show ?case
  proof (cases "r = q")
    case True
    then show ?thesis
      using Cons.prems get_put_all_other [of "agent_id q" rs "snd (put q s)"] by (simp add: get_put)
  next
    case False
    then have "r \<in> set rs" and "agent_id r \<noteq> agent_id q" using Cons.prems(1,3) by (auto simp: image_iff)
    then show ?thesis
      using Cons.IH [of "snd (put q s)"] Cons.prems(1,2) by (simp add: get_put)
  qed
qed simp

end

text \<open>Whether the identity check of a merge lets a record through.\<close>

definition admits :: "sodium option \<Rightarrow> IdentityService option \<Rightarrow> AgentRecord \<Rightarrow> bool" where
  "admits lib identity r =
     (case identity of None \<Rightarrow> True | Some svc \<Rightarrow> fst (verify_and_register lib r svc) \<in> {Valid, Missing})"

lemma admits_other:
  assumes "identity_wf svc" and "agent_id q \<noteq> agent_id r"
  shows "admits lib (Some (snd (verify_and_register lib q svc))) r = admits lib (Some svc) r"
proof -
  have "omap_get (agent_id r) (trust_store (snd (verify_and_register lib q svc))) = omap_get (agent_id r) (trust_store svc)"
    using assms by (auto simp: verify_and_register_def Let_def identity_wf_def om.get_put split: option.split)
  then show ?thesis by (simp add: admits_def verify_and_register_def Let_def split: option.split)
qed

lemma admits_lease [simp]: "admits lib identity (r\<lparr>expires_at := t\<rparr>) = admits lib identity r"
  by (simp add: admits_def verify_and_register_def Let_def split: option.split)

lemma admitted_admits:
  assumes "pred_option identity_wf identity" and "distinct (map agent_id rs)" and "\<forall>r\<in>set rs. admits lib identity r"
  shows "admitted lib rs identity = rs"
  using assms
proof (induction lib rs identity rule: admitted.induct)
  case (3 lib r rs svc)
  let ?svc = "snd (verify_and_register lib r svc)"
  have "\<forall>c\<in>set rs. admits lib (Some ?svc) c"
    using "3.prems" admits_other [of svc r _ lib] by force
  then have "admitted lib rs (Some ?svc) = rs"
    using 3 identity_wf_verify_and_register [of svc lib r] by (auto simp: admits_def)
  then show ?case using "3.prems"(3) by (simp add: admits_def)
qed simp_all

lemma identity_check_all:
  "identity_wf svc \<Longrightarrow> identity_wf (ident.check_all lib rs svc)"
  by (induction rs arbitrary: svc) (simp_all add: identity_wf_verify_and_register ident.check_all_def)

lemma admits_check_all:
  assumes "pred_option identity_wf identity" and "agent_id r \<notin> agent_id ` set rs"
  shows "admits lib (map_option (ident.check_all lib rs) identity) r = admits lib identity r"
proof (cases identity)
  case (Some svc)
  have "admits lib (Some (ident.check_all lib rs svc)) r = admits lib (Some svc) r"
    using assms Some
    by (induction rs arbitrary: svc identity)
      (auto simp: ident.check_all_def identity_wf_verify_and_register admits_other)
  with Some show ?thesis by simp
qed simp

section \<open>Leased copies\<close>

lemma map_leased:
  assumes "\<And>r t. f (r\<lparr>expires_at := t\<rparr>) = f r"
  shows "map f (leased clock rs) = map f rs"
proof -
  have "map f (leased clock rs) = map f (map snd (enumerate 0 rs))"
    by (simp only: leased_def map_map comp_def case_prod_unfold assms)
  then show ?thesis by simp
qed

lemma in_leased: "r' \<in> set (leased clock rs) \<Longrightarrow> \<exists>r\<in>set rs. \<exists>t. r' = r\<lparr>expires_at := t\<rparr>"
  by (fastforce simp: leased_def in_set_enumerate_eq)

lemma leased_in: "r \<in> set rs \<Longrightarrow> \<exists>t. r\<lparr>expires_at := t\<rparr> \<in> set (leased clock rs)"
proof -
  assume "r \<in> set rs"
  then obtain i where "i < length rs" "rs ! i = r" by (auto simp: in_set_conv_nth)
  then have "leased clock rs ! i = r\<lparr>expires_at := clock i + minutes 1\<rparr>" "i < length (leased clock rs)"
    by (simp_all add: leased_def nth_enumerate_eq)
  then show ?thesis by (metis nth_mem)
qed

section \<open>A round of a node that is behind\<close>

text \<open>The peer's records that the node asks for, before the limit.\<close>

definition missing :: "'e AgentRegistry \<Rightarrow> 'f AgentRegistry \<Rightarrow> AgentRecord set" where
  "missing regA regB = {r \<in> set (records regB). highest_revision (stats regA) < revision r}"

text \<open>
  The situation of a node that is not ahead of its peer and has no objection to what the peer holds:
  the lines can be printed, the identity check lets the missing records through, and no key of
  theirs conflicts with a stored one.
\<close>

definition behind :: "sodium option \<Rightarrow> IdentityService option \<Rightarrow> 'e AgentRegistry \<Rightarrow> 'f AgentRegistry \<Rightarrow> bool" where
  "behind lib identity regA regB \<longleftrightarrow>
     list_all sendable (records regA) \<and> list_all sendable (records regB) \<and>
     registry_wf (records regA) \<and> registry_wf (records regB) \<and>
     pred_option identity_wf identity \<and> highest_revision (stats regA) \<le> highest_revision (stats regB) \<and>
     (\<forall>r\<in>missing regA regB. admits lib identity r \<and>
        (\<forall>e\<in>set (records regA). agent_id e = agent_id r \<longrightarrow> key_compatible e r))"

abbreviation asked :: "SyncClient \<Rightarrow> 'e AgentRegistry \<Rightarrow> 'f AgentRegistry \<Rightarrow> AgentRecord list" where
  "asked client regA regB \<equiv>
     entries_after_revision (highest_revision (stats regA)) (max_entries_per_round client) regB"

abbreviation merged :: "(nat \<Rightarrow> time_point) \<Rightarrow> AgentRecord list \<Rightarrow> 'e AgentRegistry \<Rightarrow> 'e AgentRegistry" where
  "merged clock es reg \<equiv> reg\<lparr>records := rr.put_all (leased clock es) (records reg)\<rparr>"

lemma asked_missing: "set (asked client regA regB) \<subseteq> missing regA regB"
  unfolding missing_def by (rule entries_after_revision_subset)

lemma distinct_entries:
  assumes "registry_wf (records reg)"
  shows "distinct (map agent_id (entries_after_revision n k reg))"
proof -
  have "mset (map agent_id (newer_sorted n (records reg))) = mset (map agent_id (filter (\<lambda>r. n < revision r) (records reg)))"
    by (simp add: newer_sorted_def std.srt_mset)
  moreover have "distinct (map agent_id (filter (\<lambda>r. n < revision r) (records reg)))"
    using assms by (simp add: registry_wf_def distinct_map_filter)
  ultimately have "distinct (map agent_id (newer_sorted n (records reg)))" by (metis mset_eq_imp_distinct_iff)
  then show ?thesis by (auto simp: entries_after_revision_alt simp flip: take_map)
qed

lemma set_put_all: "set (rr.put_all rs base) \<subseteq> set base \<union> set rs"
proof (induction rs arbitrary: base)
  case (Cons r rs)
  have "set (snd (upsert_records r base)) \<subseteq> insert r (set base)" by (rule set_upsert_records)
  with Cons.IH [of "snd (upsert_records r base)"] show ?case by auto
qed simp

lemma lookup_merged:
  assumes "behind lib identity regA regB"
  shows "r \<in> set (asked client regA regB) \<Longrightarrow>
      \<exists>t. find_record (agent_id r) (merged clock (asked client regA regB) regA) = Some (r\<lparr>expires_at := t\<rparr>)"
    and "aid \<notin> agent_id ` set (asked client regA regB) \<Longrightarrow>
      find_record aid (merged clock (asked client regA regB) regA) = find_record aid regA"
proof -
  let ?es = "asked client regA regB"
  have ids: "map agent_id (leased clock ?es) = map agent_id ?es" by (rule map_leased) simp
  have dist: "distinct (map agent_id (leased clock ?es))"
    unfolding ids using assms by (auto simp: behind_def intro: distinct_entries)
  have sup: "supersedes q (lookup (records regA) (agent_id q))" if q: "q \<in> set (leased clock ?es)" for q
  proof (cases "lookup (records regA) (agent_id q)")
    case (Some e)
    obtain c t where c: "c \<in> set ?es" "q = c\<lparr>expires_at := t\<rparr>" using in_leased [OF q] by blast
    then have m: "c \<in> missing regA regB" using asked_missing [of regA client regB] by blast
    have e: "e \<in> set (records regA)" "agent_id e = agent_id c" using lookup_SomeD [OF Some] c by simp_all
    have "revision e < revision c"
      using highest_revision_ge [OF e(1)] m by (auto simp: missing_def intro: le_less_trans)
    moreover have "key_compatible e c" using assms m e by (simp add: behind_def)
    ultimately show ?thesis unfolding Some by (simp add: c supersedes_def key_compatible_def)
  qed (simp add: supersedes_def)
  show "\<exists>t. find_record (agent_id r) (merged clock ?es regA) = Some (r\<lparr>expires_at := t\<rparr>)" if r: "r \<in> set ?es"
  proof -
    obtain t where "r\<lparr>expires_at := t\<rparr> \<in> set (leased clock ?es)" using leased_in [OF r] by blast
    from rr.get_put_all_distinct [OF dist sup [OF this] this] show ?thesis by (auto simp: find_record_lookup)
  qed
  show "find_record aid (merged clock ?es regA) = find_record aid regA" if "aid \<notin> agent_id ` set ?es"
  proof -
    have "aid \<notin> agent_id ` set (leased clock ?es)" using that ids by (metis list.set_map)
    then show ?thesis by (simp add: find_record_lookup rr.get_put_all_other)
  qed
qed

text \<open>The round itself: the asked records are merged, and the peer is as before.\<close>

lemma round_behind:
  assumes "behind lib identity regA regB"
  shows "\<exists>env'. snd (sync_with_peer lib clock (peer_transport pb libB now proto) client peer identity regA env (idB, regB, envB)) =
     (map_option (ident.check_all lib (leased clock (asked client regA regB))) identity,
      merged clock (asked client regA regB) regA, env', idB, regB, envB) \<and>
     highest_revision (stats (merged clock (asked client regA regB) regA)) \<le> highest_revision (stats regB)"
proof -
  let ?es = "asked client regA regB"
  note b = assms [unfolded behind_def]
  have ids: "map agent_id (leased clock ?es) = map agent_id ?es" by (rule map_leased) simp
  have "admits lib identity q" if "q \<in> set (leased clock ?es)" for q
    using in_leased [OF that] asked_missing [of regA client regB] b by auto
  then have adm: "admitted lib (leased clock ?es) identity = leased clock ?es"
    using b ids distinct_entries [of regB] by (intro admitted_admits) simp_all
  have "revision q \<le> highest_revision (stats regB)" if "q \<in> set (rr.put_all (leased clock ?es) (records regA))" for q
  proof (cases "q \<in> set (records regA)")
    case True
    then show ?thesis using highest_revision_ge [OF True] b by auto
  next
    case False
    then have "q \<in> set (leased clock ?es)" using set_put_all that by fastforce
    then obtain c t where "c \<in> set ?es" "q = c\<lparr>expires_at := t\<rparr>" using in_leased by blast
    then show ?thesis
      using asked_missing [of regA client regB] highest_revision_ge [of c regB] by (auto simp: missing_def)
  qed
  then have le: "highest_revision (stats (merged clock ?es regA)) \<le> highest_revision (stats regB)"
    by (simp add: highest_revision_le list_all_iff)
  show ?thesis
    using le by (subst sync_round) (simp_all add: b merge_alt adm nothing_newer)
qed

section \<open>What a round leaves to ask for\<close>

text \<open>The limit keeps the lowest revisions.\<close>

lemma asked_lowest:
  assumes "c \<in> set (asked client regA regB)" and "r \<in> missing regA regB" and "r \<notin> set (asked client regA regB)"
  shows "revision c \<le> revision r"
proof -
  let ?ns = "newer_sorted (highest_revision (stats regA)) (records regB)"
  let ?k = "unat (max_entries_per_round client)"
  have "r \<in> set ?ns" using assms(2) by (simp add: set_newer_sorted missing_def)
  then have "r \<in> set (take ?k ?ns) \<or> r \<in> set (drop ?k ?ns)" by (metis UnE append_take_drop_id set_append)
  with assms have "c \<in> set (take ?k ?ns)" "r \<in> set (drop ?k ?ns)"
    using \<open>r \<in> set ?ns\<close> by (auto simp: entries_after_revision_alt split: if_splits)
  moreover have "sorted_wrt (\<lambda>a b. revision a \<le> revision b) (take ?k ?ns @ drop ?k ?ns)"
    by (simp add: sorted_newer_sorted)
  ultimately show ?thesis unfolding sorted_wrt_append by blast
qed

lemma card_asked:
  assumes "registry_wf (records regB)"
  shows "card (set (asked client regA regB)) =
     (if max_entries_per_round client = 0 then card (missing regA regB)
      else min (unat (max_entries_per_round client)) (card (missing regA regB)))"
proof -
  let ?ns = "newer_sorted (highest_revision (stats regA)) (records regB)"
  have "entries_after_revision (highest_revision (stats regA)) 0 regB = ?ns" by (simp add: entries_after_revision_alt)
  then have "distinct ?ns" using distinct_entries [OF assms, of "highest_revision (stats regA)" 0] by (simp add: distinct_map)
  moreover have "set ?ns = missing regA regB" by (simp add: set_newer_sorted missing_def)
  ultimately have "length ?ns = card (missing regA regB)" "distinct (take k ?ns)" "set ?ns = missing regA regB" for k
    by (auto simp: distinct_card simp flip: distinct_card)
  then show ?thesis
    by (simp add: entries_after_revision_alt distinct_card min.commute)
qed

lemma same_agent_same_record:
  "registry_wf rs \<Longrightarrow> r \<in> set rs \<Longrightarrow> q \<in> set rs \<Longrightarrow> agent_id r = agent_id q \<Longrightarrow> r = q"
  by (metis option.inject registry_wf_lookup)

lemma not_asked:
  assumes "registry_wf (records regB)" and "r \<in> set (records regB)" and "r \<notin> set (asked client regA regB)"
  shows "agent_id r \<notin> agent_id ` set (asked client regA regB)"
proof
  assume "agent_id r \<in> agent_id ` set (asked client regA regB)"
  then obtain c where c: "c \<in> set (asked client regA regB)" "agent_id r = agent_id c" by blast
  then have "c \<in> set (records regB)" using asked_missing [of regA client regB] by (auto simp: missing_def)
  then have "r = c" using same_agent_same_record [OF assms(1,2)] c(2) by blast
  with c(1) assms(3) show False by simp
qed

lemma highest_revision_merged:
  assumes "registry_wf (records regA)"
  shows "highest_revision (stats regA) \<le> highest_revision (stats (regA\<lparr>records := rr.put_all rs (records regA)\<rparr>))"
proof -
  have "revision e \<le> highest_revision (stats (regA\<lparr>records := rr.put_all rs (records regA)\<rparr>))"
    if "e \<in> set (records regA)" for e
  proof -
    have "lookup (records regA) (agent_id e) = Some e" using assms that by (simp add: registry_wf_lookup)
    then obtain e' where e': "lookup (rr.put_all rs (records regA)) (agent_id e) = Some e'" "revision e \<le> revision e'"
      using rr.put_all_mono by blast
    then show ?thesis
      using highest_revision_ge [of e' "regA\<lparr>records := rr.put_all rs (records regA)\<rparr>"] lookup_SomeD [OF e'(1)] by auto
  qed
  then show ?thesis by (simp add: highest_revision_le list_all_iff)
qed

lemma asked_below:
  assumes "behind lib identity regA regB" and "r \<in> set (asked client regA regB)"
  shows "revision r \<le> highest_revision (stats (merged clock (asked client regA regB) regA))"
proof -
  let ?m = "merged clock (asked client regA regB) regA"
  obtain t where "lookup (records ?m) (agent_id r) = Some (r\<lparr>expires_at := t\<rparr>)"
    using lookup_merged(1) [OF assms] by (auto simp: find_record_lookup)
  then have "r\<lparr>expires_at := t\<rparr> \<in> set (records ?m)" using lookup_SomeD by blast
  then show ?thesis using highest_revision_ge by fastforce
qed

text \<open>After the round exactly the records above the new highest revision are missing.\<close>

lemma missing_merged:
  assumes "behind lib identity regA regB"
  shows "missing (merged clock (asked client regA regB) regA) regB \<subseteq> missing regA regB - set (asked client regA regB)"
    and "inj_on revision (missing regA regB) \<Longrightarrow>
      missing (merged clock (asked client regA regB) regA) regB = missing regA regB - set (asked client regA regB)"
proof -
  let ?es = "asked client regA regB" and ?m = "merged clock (asked client regA regB) regA"
  have wfA: "registry_wf (records regA)" using assms by (simp add: behind_def)
  have "revision r \<le> highest_revision (stats ?m)" if "r \<in> set ?es" for r
    by (rule asked_below [OF assms that])
  then show sub: "missing ?m regB \<subseteq> missing regA regB - set ?es"
    using highest_revision_merged [OF wfA, of "leased clock ?es"]
    by (auto simp: missing_def not_less [symmetric] intro: le_less_trans)
  assume inj: "inj_on revision (missing regA regB)"
  have "highest_revision (stats ?m) < revision r" if r: "r \<in> missing regA regB" "r \<notin> set ?es" for r
  proof -
    have low: "highest_revision (stats regA) < revision r" using r(1) by (simp add: missing_def)
    have "revision q < revision r" if "q \<in> set (records ?m)" for q
    proof (cases "q \<in> set (records regA)")
      case True
      then show ?thesis using highest_revision_ge [OF True] low by auto
    next
      case False
      then have "q \<in> set (leased clock ?es)" using set_put_all that by fastforce
      then obtain c t where c: "c \<in> set ?es" "q = c\<lparr>expires_at := t\<rparr>" using in_leased by blast
      then have "c \<in> missing regA regB" using asked_missing [of regA client regB] by blast
      then have "revision c \<noteq> revision r" using inj c(1) r by (auto dest: inj_onD)
      then show ?thesis using asked_lowest [OF c(1) r] c(2) by simp
    qed
    then show ?thesis
      using highest_revision_attained [of ?m] le_less_trans [OF word_zero_le low] by metis
  qed
  then show "missing ?m regB = missing regA regB - set ?es"
    using sub by (auto simp: missing_def)
qed

lemma agents_leased: "agent_id ` set (leased clock es) = agent_id ` set es"
proof -
  have "map agent_id (leased clock es) = map agent_id es" by (rule map_leased) simp
  then show ?thesis by (metis list.set_map)
qed

lemma behind_merged:
  assumes "behind lib identity regA regB"
  shows "behind lib (map_option (ident.check_all lib (leased clock (asked client regA regB))) identity)
     (merged clock (asked client regA regB) regA) regB"
proof -
  let ?es = "asked client regA regB" and ?m = "merged clock (asked client regA regB) regA"
  let ?id = "map_option (ident.check_all lib (leased clock ?es)) identity"
  note b = assms [unfolded behind_def]
  have wf: "list_all P (leased clock ?es)" if "list_all P (records regB)" "\<And>r t. P (r\<lparr>expires_at := t\<rparr>) = P r" for P
    unfolding list_all_iff
  proof
    fix q
    assume "q \<in> set (leased clock ?es)"
    then obtain c t where c: "c \<in> set ?es" "q = c\<lparr>expires_at := t\<rparr>" using in_leased by blast
    then have "c \<in> set (records regB)" using asked_missing [of regA client regB] by (auto simp: missing_def)
    with that c(2) show "P q" by (simp add: list_all_iff)
  qed
  have "list_all sendable (records ?m)"
    using b wf [of sendable] by (simp add: sendable_put_all)
  moreover have "registry_wf (records ?m)"
  proof -
    have "list_all record_wf (leased clock ?es)" using b by (intro wf) (simp_all add: registry_wf_def)
    then show ?thesis using b by (simp add: put_all_wf list_all_iff)
  qed
  moreover have "pred_option identity_wf ?id"
    using b by (cases identity) (simp_all add: identity_check_all)
  moreover have "highest_revision (stats ?m) \<le> highest_revision (stats regB)"
    using round_behind [OF assms] by blast
  moreover have "admits lib ?id r \<and> (\<forall>e\<in>set (records ?m). agent_id e = agent_id r \<longrightarrow> key_compatible e r)"
    if "r \<in> missing ?m regB" for r
  proof -
    have r: "r \<in> missing regA regB" "r \<notin> set ?es"
      using that missing_merged(1) [OF assms, of clock client] by blast+
    have new: "agent_id r \<notin> agent_id ` set ?es"
      using not_asked [of regB r regA client] r b by (simp add: missing_def)
    then have "admits lib ?id r"
      using b r(1) by (simp add: admits_check_all agents_leased)
    moreover have "key_compatible e r" if "e \<in> set (records ?m)" "agent_id e = agent_id r" for e
    proof -
      have "e \<notin> set (leased clock ?es)" using new that(2) agents_leased [of clock ?es] by (metis image_eqI)
      then have "e \<in> set (records regA)" using that(1) set_put_all by fastforce
      then show ?thesis using b r(1) that(2) by blast
    qed
    ultimately show ?thesis by blast
  qed
  ultimately show ?thesis using b by (simp add: behind_def)
qed

section \<open>Properties\<close>

lemma unfold_round:
  assumes "behind lib identity regA regB"
  shows "\<exists>env'. sync_rounds lib clocks (peer_transport pb libB now proto) client peer (Suc n) (identity, regA, env, idB, regB, envB) =
     sync_rounds lib clocks (peer_transport pb libB now proto) client peer n
       (map_option (ident.check_all lib (leased (clocks n) (asked client regA regB))) identity,
        merged (clocks n) (asked client regA regB) regA, env', idB, regB, envB)"
  using round_behind [OF assms, of "clocks n" pb libB now proto client peer env idB envB] by auto

text \<open>Where the missing records fit into the rounds, all of them arrive.\<close>

lemma rounds_catch_up:
  fixes regA :: "'e AgentRegistry" and regB :: "'f AgentRegistry"
  assumes "behind lib identity regA regB" and "inj_on revision (missing regA regB)"
    and "card (missing regA regB) \<le>
      n * (if max_entries_per_round client = 0 then card (missing regA regB) else unat (max_entries_per_round client))"
  shows "\<exists>identity' regA' env'.
     sync_rounds lib clocks (peer_transport pb libB now proto) client peer n (identity, regA, env, idB, regB, envB) =
       (identity', regA', env', idB, regB, envB) \<and>
     (\<forall>r\<in>missing regA regB. \<exists>t. find_record (agent_id r) regA' = Some (r\<lparr>expires_at := t\<rparr>)) \<and>
     (\<forall>aid. aid \<notin> agent_id ` missing regA regB \<longrightarrow> find_record aid regA' = find_record aid regA)"
  using assms
proof (induction n arbitrary: identity regA env)
  case 0
  have "finite (missing regA regB)" by (simp add: missing_def)
  with 0 have "missing regA regB = {}" by simp
  then show ?case by simp
next
  case (Suc n)
  let ?es = "asked client regA regB" and ?m = "merged (clocks n) (asked client regA regB) regA"
  let ?id = "map_option (ident.check_all lib (leased (clocks n) ?es)) identity"
  have wfB: "registry_wf (records regB)" using Suc.prems(1) by (simp add: behind_def)
  have sub: "set ?es \<subseteq> missing regA regB" by (rule asked_missing)
  note rest = missing_merged(2) [OF Suc.prems(1,2), of "clocks n" client]
  have "card (missing ?m regB) = card (missing regA regB) - card (set ?es)"
    unfolding rest using sub by (simp add: card_Diff_subset)
  then have "card (missing ?m regB) \<le>
      n * (if max_entries_per_round client = 0 then card (missing ?m regB) else unat (max_entries_per_round client))"
    using Suc.prems(3) card_asked [OF wfB, of regA client] by (auto split: if_splits)
  moreover have "inj_on revision (missing ?m regB)"
    unfolding rest by (rule inj_on_diff [OF Suc.prems(2)])
  ultimately obtain env1 identity' regA' env' where
    run: "sync_rounds lib clocks (peer_transport pb libB now proto) client peer (Suc n) (identity, regA, env, idB, regB, envB) =
       (identity', regA', env', idB, regB, envB)"
    and got: "\<forall>r\<in>missing ?m regB. \<exists>t. find_record (agent_id r) regA' = Some (r\<lparr>expires_at := t\<rparr>)"
    and kept: "\<forall>aid. aid \<notin> agent_id ` missing ?m regB \<longrightarrow> find_record aid regA' = find_record aid ?m"
    using Suc.IH [OF behind_merged [OF Suc.prems(1)]] unfold_round [OF Suc.prems(1)] by metis
  have "\<exists>t. find_record (agent_id r) regA' = Some (r\<lparr>expires_at := t\<rparr>)" if r: "r \<in> missing regA regB" for r
  proof (cases "r \<in> set ?es")
    case True
    have "agent_id r \<notin> agent_id ` missing ?m regB"
      using True r same_agent_same_record [OF wfB, of r] unfolding rest by (auto simp: missing_def)
    with kept have "find_record (agent_id r) regA' = find_record (agent_id r) ?m" by blast
    with lookup_merged(1) [OF Suc.prems(1) True] show ?thesis by simp
  next
    case False
    with r got rest show ?thesis by blast
  qed
  moreover have "find_record aid regA' = find_record aid regA" if "aid \<notin> agent_id ` missing regA regB" for aid
  proof -
    have "aid \<notin> agent_id ` missing ?m regB" "aid \<notin> agent_id ` set ?es" using that rest sub by blast+
    with kept lookup_merged(2) [OF Suc.prems(1)] show ?thesis by simp
  qed
  ultimately show ?case using run by blast
qed

text \<open>
  Property C23: a node that is behind an honest peer catches up.  With a limit of \<open>k\<close> records per round
  (zero meaning none), no two missing records at one revision, and missing records that pass the identity and
  key checks of the node (\<^const>\<open>behind\<close>, which also asks that the peer's highest revision is not lower
  and that all fields can be sent in a line), \<open>n\<close> rounds bring over every
  one of up to \<open>n * k\<close> missing records, each as the peer holds it but for the lease; nothing
  else of the node's registry changes, and the peer is as before.
\<close>

theorem catch_up:
  fixes regA :: "'e AgentRegistry" and regB :: "'f AgentRegistry"
  assumes "behind lib identity regA regB" and "inj_on revision (missing regA regB)"
    and "if max_entries_per_round client = 0 then 0 < n
         else card (missing regA regB) \<le> n * unat (max_entries_per_round client)"
  shows "\<exists>identity' regA' env'.
     sync_rounds lib clocks (peer_transport pb libB now proto) client peer n (identity, regA, env, idB, regB, envB) =
       (identity', regA', env', idB, regB, envB) \<and>
     (\<forall>r\<in>missing regA regB. \<exists>t. find_record (agent_id r) regA' = Some (r\<lparr>expires_at := t\<rparr>)) \<and>
     (\<forall>aid. aid \<notin> agent_id ` missing regA regB \<longrightarrow> find_record aid regA' = find_record aid regA)"
  using assms(3) by (intro rounds_catch_up [OF assms(1,2)]) (simp split: if_splits)

text \<open>A record at or below the node's highest revision is not sent in any round.\<close>

lemma lost_for_good:
  assumes "behind lib identity regA regB" and "r \<in> set (records regB)"
    and "revision r \<le> highest_revision (stats regA)" and "find_record (agent_id r) regA = None"
  shows "\<exists>identity' regA' env'.
     sync_rounds lib clocks (peer_transport pb libB now proto) client peer n (identity, regA, env, idB, regB, envB) =
       (identity', regA', env', idB, regB, envB) \<and> find_record (agent_id r) regA' = None"
  using assms
proof (induction n arbitrary: identity regA env)
  case (Suc n)
  let ?es = "asked client regA regB" and ?m = "merged (clocks n) (asked client regA regB) regA"
  have wf: "registry_wf (records regA)" "registry_wf (records regB)" using Suc.prems(1) by (simp_all add: behind_def)
  have "agent_id r \<notin> agent_id ` set ?es"
    using asked_missing [of regA client regB] Suc.prems(3)
    by (intro not_asked [OF wf(2) assms(2)]) (auto simp: missing_def)
  then have "find_record (agent_id r) ?m = None"
    using lookup_merged(2) [OF Suc.prems(1)] Suc.prems(4) by simp
  moreover have "revision r \<le> highest_revision (stats ?m)"
    using Suc.prems(3) highest_revision_merged [OF wf(1)] order_trans by blast
  ultimately show ?case
    using Suc.IH [OF behind_merged [OF Suc.prems(1)] assms(2)] unfold_round [OF Suc.prems(1)] by metis
qed simp

text \<open>
  Property C36: the limit loses records.  Where the limit cuts between two missing records of the same
  revision, the one behind the cut is not sent in any later round: an agent that the node does not
  know stays unknown, however many rounds it makes.
\<close>

theorem tie_at_limit_lost:
  fixes regA :: "'e AgentRegistry" and regB :: "'f AgentRegistry"
  assumes "behind lib identity regA regB"
    and "q \<in> set (asked client regA regB)" and "r \<in> missing regA regB" and "r \<notin> set (asked client regA regB)"
    and "revision q = revision r" and "find_record (agent_id r) regA = None"
  shows "\<exists>identity' regA' env'.
     sync_rounds lib clocks (peer_transport pb libB now proto) client peer n (identity, regA, env, idB, regB, envB) =
       (identity', regA', env', idB, regB, envB) \<and> find_record (agent_id r) regA' = None"
proof (cases n)
  case (Suc m)
  let ?m = "merged (clocks m) (asked client regA regB) regA"
  have r: "r \<in> set (records regB)" using assms(3) by (simp add: missing_def)
  have "registry_wf (records regB)" using assms(1) by (simp add: behind_def)
  then have "find_record (agent_id r) ?m = None"
    using lookup_merged(2) [OF assms(1) not_asked [OF _ r assms(4)]] assms(6) by simp
  moreover have "revision r \<le> highest_revision (stats ?m)"
    using asked_below [OF assms(1,2)] assms(5) by simp
  ultimately show ?thesis
    using lost_for_good [OF behind_merged [OF assms(1)] r] unfold_round [OF assms(1)] unfolding Suc by metis
qed (use assms(6) in simp)

section \<open>Concrete peers\<close>

abbreviation sample_peer :: "AgentRecord list \<Rightarrow> unit AgentRegistry" where
  "sample_peer rs \<equiv> \<lparr>records = rs, on_upsert = None\<rparr>"

lemma behind_sample:
  "behind None None (new_AgentRegistry :: unit AgentRegistry)
     (sample_peer [sample_record ''a'' n 0, sample_record ''b'' m 0])"
proof -
  have "sendable (sample_record ''b'' m 0)"
    by (simp add: sendable_def line_safe_def sample_record_def no_space_def is_space_def)
  moreover have "registry_wf [sample_record ''a'' n 0, sample_record ''b'' m 0]"
    by (simp add: registry_wf_def sample_record_def record_wf_def)
  ultimately show ?thesis
    by (simp add: behind_def new_AgentRegistry_def sendable_sample highest_revision_le admits_def)
qed

lemma missing_sample:
  "missing (new_AgentRegistry :: unit AgentRegistry) (sample_peer rs) = {r \<in> set rs. 0 < revision r}"
  by (simp add: missing_def new_AgentRegistry_def stats_def)

theorem catch_up_witness:
  "\<exists>identity' regA' env'.
     sync_rounds None (\<lambda>_ _. 0)
       (peer_transport None None 0 \<lparr>proto_lifecycle = default_LifecycleConfig, proto_trust = default_TrustConfig\<rparr>)
       \<lparr>max_entries_per_round = 1\<rparr> \<lparr>peer_host = ''h'', peer_control_port = 1\<rparr> 2
       (None, new_AgentRegistry :: unit AgentRegistry, (), None, sample_peer [sample_record ''a'' 1 0, sample_record ''b'' 2 0], ())
       = (identity', regA', env', None, sample_peer [sample_record ''a'' 1 0, sample_record ''b'' 2 0], ()) \<and>
     (\<exists>t. find_record ''a'' regA' = Some (sample_record ''a'' 1 t)) \<and> (\<exists>t. find_record ''b'' regA' = Some (sample_record ''b'' 2 t))"
proof -
  let ?a = "sample_record ''a'' 1 0" and ?b = "sample_record ''b'' 2 0"
  have rev: "revision ?a = 1" "revision ?b = 2" by (simp_all add: sample_record_def)
  then have m: "missing (new_AgentRegistry :: unit AgentRegistry) (sample_peer [?a, ?b]) = {?a, ?b}"
    by (auto simp: missing_sample)
  have "inj_on revision {?a, ?b}" "card {?a, ?b} \<le> 2" using rev by (auto simp: card_insert_if)
  then obtain identity' regA' env' where
    run: "sync_rounds None (\<lambda>_ _. 0)
       (peer_transport None None 0 \<lparr>proto_lifecycle = default_LifecycleConfig, proto_trust = default_TrustConfig\<rparr>)
       \<lparr>max_entries_per_round = 1\<rparr> \<lparr>peer_host = ''h'', peer_control_port = 1\<rparr> 2
       (None, new_AgentRegistry :: unit AgentRegistry, (), None, sample_peer [?a, ?b], ()) = (identity', regA', env', None, sample_peer [?a, ?b], ())"
    and got: "\<forall>r\<in>{?a, ?b}. \<exists>t. find_record (agent_id r) regA' = Some (r\<lparr>expires_at := t\<rparr>)"
    using catch_up [OF behind_sample [of 1 2], of "\<lparr>max_entries_per_round = 1\<rparr>" 2 "\<lambda>_ _. 0" None None 0
        "\<lparr>proto_lifecycle = default_LifecycleConfig, proto_trust = default_TrustConfig\<rparr>"
        "\<lparr>peer_host = ''h'', peer_control_port = 1\<rparr>" "()" None "()"]
    unfolding m by simp blast
  have "\<exists>t. find_record ''a'' regA' = Some (sample_record ''a'' 1 t)" "\<exists>t. find_record ''b'' regA' = Some (sample_record ''b'' 2 t)"
    using got by (simp_all add: sample_record_def)
  with run show ?thesis by blast
qed

theorem tie_at_limit_lost_witness:
  "\<exists>identity' regA' env'.
     sync_rounds None (\<lambda>_ _. 0)
       (peer_transport None None 0 \<lparr>proto_lifecycle = default_LifecycleConfig, proto_trust = default_TrustConfig\<rparr>)
       \<lparr>max_entries_per_round = 1\<rparr> \<lparr>peer_host = ''h'', peer_control_port = 1\<rparr> 1000
       (None, new_AgentRegistry :: unit AgentRegistry, (), None, sample_peer [sample_record ''a'' 1 0, sample_record ''b'' 1 0], ())
       = (identity', regA', env', None, sample_peer [sample_record ''a'' 1 0, sample_record ''b'' 1 0], ()) \<and>
     find_record ''b'' regA' = None"
proof -
  let ?a = "sample_record ''a'' 1 0" and ?b = "sample_record ''b'' 1 0"
  let ?A = "new_AgentRegistry :: unit AgentRegistry" and ?B = "sample_peer [sample_record ''a'' 1 0, sample_record ''b'' 1 0]"
  have rev: "revision ?a = 1" "revision ?b = 1" "agent_id ?b = ''b''" "?b \<noteq> ?a" by (simp_all add: sample_record_def)
  have asked: "asked \<lparr>max_entries_per_round = 1\<rparr> ?A ?B = [?a]"
    by (simp add: entries_after_revision_def std_sort_def new_AgentRegistry_def stats_def rev)
  have "?b \<in> missing ?A ?B" using rev by (simp add: missing_sample)
  moreover have "find_record (agent_id ?b) ?A = None" by (simp add: find_record_lookup new_AgentRegistry_def)
  ultimately show ?thesis
    using tie_at_limit_lost [OF behind_sample [of 1 1], of ?a "\<lparr>max_entries_per_round = 1\<rparr>" ?b] rev
    unfolding asked by simp
qed

end
