(* ===== verification/Leading_Record.thy ===== *)
theory Leading_Record
  imports Catch_Up
begin

text \<open>
  Rounds of two nodes whose registries are led by one record: every stored record is a copy of it or
  belongs to another agent and has a lower revision.  Whichever of the two nodes holds the record,
  a round (\<^verbatim>\<open>sync_with_peer\<close> in \<^verbatim>\<open>src/src/beacon_net/sync_client.cpp\<close>) leaves it on both.
\<close>

section \<open>The leading record\<close>

text \<open>A copy of a record up to the lease, or a record of another agent at a lower revision.\<close>

definition led_by :: "AgentRecord \<Rightarrow> AgentRecord \<Rightarrow> bool" where
  "led_by r x \<longleftrightarrow>
     (if agent_id x = agent_id r then x\<lparr>expires_at := 0\<rparr> = r\<lparr>expires_at := 0\<rparr> else revision x < revision r)"

text \<open>A record leads a registry when it leads every stored record; the agents are among a given list.\<close>

definition leads :: "AgentRecord \<Rightarrow> string list \<Rightarrow> AgentRecord list \<Rightarrow> bool" where
  "leads r ids rs \<longleftrightarrow>
     registry_wf rs \<and> list_all sendable rs \<and> list_all (\<lambda>x. agent_id x \<in> set ids) rs \<and> list_all (led_by r) rs"

lemma led_by_lease [simp]: "led_by r (x\<lparr>expires_at := t\<rparr>) = led_by r x"
  by (simp add: led_by_def)

lemma led_by_copy:
  assumes "led_by r x" and "agent_id x = agent_id r"
  shows "\<exists>t. x = r\<lparr>expires_at := t\<rparr>"
proof -
  have "x\<lparr>expires_at := 0\<rparr>\<lparr>expires_at := expires_at x\<rparr> = r\<lparr>expires_at := 0\<rparr>\<lparr>expires_at := expires_at x\<rparr>"
    using assms by (simp add: led_by_def)
  then show ?thesis by (intro exI [of _ "expires_at x"]) simp
qed

lemma led_by_same_revision: "led_by r x \<Longrightarrow> agent_id x = agent_id r \<Longrightarrow> revision x = revision r"
  by (auto dest: led_by_copy)

lemma led_by_revision: "led_by r x \<Longrightarrow> revision x \<le> revision r \<and> (agent_id x \<noteq> agent_id r \<longrightarrow> revision x < revision r)"
  by (cases "agent_id x = agent_id r") (simp_all add: led_by_same_revision, simp add: led_by_def)

lemma leads_filter: "leads r ids rs \<Longrightarrow> leads r ids (filter P rs)"
  by (simp add: leads_def registry_wf_filter list_all_iff)

lemma leads_put_all:
  assumes "leads r ids base" and "leads r ids rs" and "set qs \<subseteq> {x\<lparr>expires_at := t\<rparr> | x t. x \<in> set rs}"
  shows "leads r ids (rr.put_all qs base)"
proof -
  have all: "list_all P (rr.put_all qs base)"
    if "list_all P base" "list_all P rs" "\<And>x t. P (x\<lparr>expires_at := t\<rparr>) = P x" for P
    unfolding list_all_iff
  proof
    fix x
    assume "x \<in> set (rr.put_all qs base)"
    then have "x \<in> set base \<or> (\<exists>y t. x = y\<lparr>expires_at := t\<rparr> \<and> y \<in> set rs)"
      using set_put_all [of qs base] assms(3) by blast
    then show "P x" using that by (auto simp: list_all_iff)
  qed
  have "\<forall>q\<in>set qs. record_wf q"
  proof
    fix q
    assume "q \<in> set qs"
    then obtain y t where "q = y\<lparr>expires_at := t\<rparr>" "y \<in> set rs" using assms(3) by blast
    then show "record_wf q" using assms(2) by (simp add: leads_def registry_wf_def list_all_iff)
  qed
  then have "registry_wf (rr.put_all qs base)"
    using assms(1) by (intro put_all_wf) (simp_all add: leads_def)
  then show ?thesis
    using assms(1,2) all [of sendable] all [of "led_by r"] all [of "\<lambda>x. agent_id x \<in> set ids"] by (simp add: leads_def)
qed

lemma leads_length: "leads r ids rs \<Longrightarrow> length rs \<le> length ids"
proof -
  assume "leads r ids rs"
  then have "distinct (map agent_id rs)" "set (map agent_id rs) \<subseteq> set ids"
    by (auto simp: leads_def registry_wf_def list_all_iff)
  then have "length (map agent_id rs) \<le> card (set ids)"
    by (metis List.finite_set card_mono distinct_card)
  then show ?thesis using card_length [of ids] by simp
qed

lemma leads_highest:
  fixes reg :: "'e AgentRegistry"
  assumes "leads r ids (records reg)" and "0 < revision r"
  shows "if find_record (agent_id r) reg = None then highest_revision (stats reg) < revision r
         else highest_revision (stats reg) = revision r"
proof -
  have led: "led_by r x" if "x \<in> set (records reg)" for x
    using assms(1) that by (simp add: leads_def list_all_iff)
  show ?thesis
  proof (cases "find_record (agent_id r) reg")
    case None
    then have "revision x < revision r" if "x \<in> set (records reg)" for x
      using led_by_revision [OF led [OF that]] that by (metis find_record_lookup image_eqI lookup_None_iff)
    then show ?thesis
      using None highest_revision_attained [of reg] assms(2) by auto
  next
    case (Some x)
    then have "x \<in> set (records reg)" "agent_id x = agent_id r"
      using lookup_SomeD by (auto simp: find_record_lookup)
    then have "revision r \<le> highest_revision (stats reg)"
      using led_by_same_revision [OF led [of x]] highest_revision_ge [of x reg] by simp
    moreover have "highest_revision (stats reg) \<le> revision r"
      using led_by_revision led by (simp add: highest_revision_le list_all_iff)
    ultimately show ?thesis using Some by simp
  qed
qed

lemma leads_found:
  "leads r ids (records reg) \<Longrightarrow> find_record (agent_id r) reg = Some x \<Longrightarrow> x \<in> set (records reg) \<and> (\<exists>t. x = r\<lparr>expires_at := t\<rparr>)"
  using lookup_SomeD [of "records reg" "agent_id r" x]
  by (auto simp: find_record_lookup leads_def list_all_iff dest!: led_by_copy)

section \<open>What the two halves of a round do\<close>

text \<open>A node trusts a record when its identity check lets the record through.\<close>

definition trusts :: "sodium option \<Rightarrow> AgentRecord \<Rightarrow> IdentityService option \<Rightarrow> bool" where
  "trusts lib r identity \<longleftrightarrow> pred_option identity_wf identity \<and> admits lib identity r"

lemma trusts_None [simp]: "trusts lib r None"
  by (simp add: trusts_def admits_def)

lemma trusts_unsigned: "public_key_hex r = [] \<Longrightarrow> pred_option identity_wf identity \<Longrightarrow> trusts lib r identity"
  by (simp add: trusts_def admits_def verify_and_register_def verify_agent_signature_def split: option.split)

lemma led_by_status: "led_by r q \<Longrightarrow> agent_id q = agent_id r \<Longrightarrow> verify_and_register lib q = verify_and_register lib r"
  by (rule ext) (auto simp: verify_and_register_def Let_def dest!: led_by_copy split: option.split)

text \<open>Trust in the leading record survives the check of every record that it leads.\<close>

lemma trusts_check:
  assumes "memcmp_ok lib" and "trusts lib r (Some svc)" and "led_by r q"
  shows "trusts lib r (Some (snd (verify_and_register lib q svc)))"
proof -
  have wf: "identity_wf svc" using assms(2) by (simp add: trusts_def)
  have "admits lib (Some (snd (verify_and_register lib q svc))) r"
  proof (cases "agent_id q = agent_id r")
    case False
    then show ?thesis using admits_other [OF wf] assms(2) by (simp add: trusts_def)
  next
    case True
    then show ?thesis
      using assms wf unfolding led_by_status [OF assms(3) True]
      by (auto simp: trusts_def admits_def verify_and_register_status pinned_verify_and_register
          split: option.splits if_splits)
  qed
  then show ?thesis using wf by (simp add: trusts_def identity_wf_verify_and_register)
qed

lemma trusts_check_all:
  assumes "memcmp_ok lib" and "trusts lib r identity" and "list_all (led_by r) rs"
  shows "trusts lib r (map_option (ident.check_all lib rs) identity)"
proof (cases identity)
  case (Some svc)
  have "trusts lib r (Some (ident.check_all lib rs svc))"
    using assms Some
  proof (induction rs arbitrary: svc identity)
    case (Cons q rs)
    then show ?case using trusts_check [OF assms(1), of r svc q] by (simp add: ident.check_all_def)
  qed (simp add: ident.check_all_def)
  with Some show ?thesis by simp
qed simp

lemma trusted_admitted:
  assumes "r\<lparr>expires_at := t\<rparr> \<in> set rs" and "memcmp_ok lib" and "trusts lib r identity" and "list_all (led_by r) rs"
  shows "r\<lparr>expires_at := t\<rparr> \<in> set (admitted lib rs identity)"
  using assms
proof (induction lib rs identity rule: admitted.induct)
  case (3 lib q rs svc)
  have q: "led_by r q" "list_all (led_by r) rs" using "3.prems"(4) by simp_all
  note trust = trusts_check [OF "3.prems"(2,3) q(1)]
  show ?case
  proof (cases "r\<lparr>expires_at := t\<rparr> \<in> set rs")
    case True
    then show ?thesis using "3.IH" "3.prems"(2) trust q(2) by (auto split: if_splits)
  next
    case False
    then have "q = r\<lparr>expires_at := t\<rparr>" using "3.prems"(1) by auto
    moreover have "fst (verify_and_register lib q svc) \<in> {Valid, Missing}"
      using "3.prems"(3) led_by_status [OF q(1), of lib] calculation by (simp add: trusts_def admits_def)
    ultimately show ?thesis by simp
  qed
qed simp_all

lemma trusts_register_identity:
  assumes "memcmp_ok lib" and "trusts lib r identity" and "led_by r q"
  shows "trusts lib r (register_identity lib q identity)"
  using assms by (cases identity) (auto simp: register_identity_def intro: trusts_check)

lemma trusts_accept_pushed:
  assumes "memcmp_ok lib" and "trusts lib r identity" and "list_all (led_by r) rs"
  shows "trusts lib r (fst (snd (accept_pushed lib now proto rs (identity, reg, env))))"
  using assms(2,3)
proof (induction rs arbitrary: identity reg env)
  case (Cons q rs)
  let ?q = "q\<lparr>expires_at := now + milliseconds (heartbeat_ttl (proto_lifecycle proto))\<rparr>"
  obtain reply i1 r1 e1 where h: "handle_registration lib proto ''merged'' ?q identity reg env = (reply, i1, r1, e1)"
    by (metis prod_cases4)
  have "led_by r ?q" using Cons.prems(2) by simp
  then have "trusts lib r i1"
    using h Cons.prems(1) trusts_register_identity [OF assms(1)]
    by (cases rule: handle_registration_cases [OF h]) simp_all
  then show ?case using Cons.IH [of i1 r1 e1] Cons.prems(2) by (simp add: h case_prod_unfold Let_def)
qed simp

lemma distinct_admitted: "distinct (map agent_id rs) \<Longrightarrow> distinct (map agent_id (admitted lib rs identity))"
proof (induction lib rs identity rule: admitted.induct)
  case (3 lib r rs svc)
  then show ?case using set_admitted [of lib rs] by auto
qed simp_all

text \<open>The pushed records that the peer's signature policy passes, as it leases them.\<close>

definition passed :: "sodium option \<Rightarrow> time_point \<Rightarrow> ControlProtocol \<Rightarrow> AgentRecord list \<Rightarrow> AgentRecord list" where
  "passed lib now proto rs =
     map (\<lambda>r. r\<lparr>expires_at := now + milliseconds (heartbeat_ttl (proto_lifecycle proto))\<rparr>)
       (filter (\<lambda>r. signature_rejection (proto_trust proto) (verify_agent_signature lib r) = None) rs)"

lemma in_passed:
  assumes "r\<lparr>expires_at := t\<rparr> \<in> set rs" and "signature_rejection (proto_trust proto) (verify_agent_signature lib r) = None"
  shows "r\<lparr>expires_at := now + milliseconds (heartbeat_ttl (proto_lifecycle proto))\<rparr> \<in> set (passed lib now proto rs)"
  using assms by (simp add: passed_def) (rule image_eqI [of _ _ "r\<lparr>expires_at := t\<rparr>"], simp_all)

lemma records_accept_pushed:
  "records (fst (snd (snd (accept_pushed lib now proto rs (identity, reg, env))))) =
     rr.put_all (passed lib now proto rs) (records reg)"
proof (induction rs arbitrary: identity reg env)
  case (Cons r rs)
  let ?r = "r\<lparr>expires_at := now + milliseconds (heartbeat_ttl (proto_lifecycle proto))\<rparr>"
  obtain reply i1 r1 e1 where h: "handle_registration lib proto ''merged'' ?r identity reg env = (reply, i1, r1, e1)"
    by (metis prod_cases4)
  then have "records r1 = rr.put_all (passed lib now proto [r]) (records reg)"
    by (auto simp: handle_registration_def passed_def upsert_alt split: option.splits if_splits)
  moreover have "passed lib now proto (r # rs) = passed lib now proto [r] @ passed lib now proto rs"
    by (simp add: passed_def)
  ultimately show ?case
    using Cons.IH [of i1 r1 e1] by (simp add: h case_prod_unfold Let_def rr.put_all_def)
qed (simp add: passed_def)

text \<open>A leading record that is among a batch of copies is stored.\<close>

lemma leading_stored:
  assumes "leads r ids base" and "distinct (map agent_id qs)" and "r\<lparr>expires_at := t\<rparr> \<in> set qs"
  shows "lookup (rr.put_all qs base) (agent_id r) = Some (r\<lparr>expires_at := t\<rparr>)"
proof -
  have "supersedes (r\<lparr>expires_at := t\<rparr>) (lookup base (agent_id r))"
  proof (cases "lookup base (agent_id r)")
    case (Some e)
    then have "led_by r e" "agent_id e = agent_id r"
      using assms(1) lookup_SomeD by (fastforce simp: leads_def list_all_iff)+
    then obtain t' where "e = r\<lparr>expires_at := t'\<rparr>" using led_by_copy by blast
    with Some show ?thesis by (simp add: supersedes_def key_compatible_def)
  qed (simp add: supersedes_def)
  then show ?thesis
    using rr.get_put_all_distinct [OF assms(2) _ assms(3), of base] by simp
qed

lemma leading_entry:
  fixes reg :: "'e AgentRegistry"
  assumes "leads r ids (records reg)" and "find_record (agent_id r) reg \<noteq> None" and "n < revision r"
    and "k = 0 \<or> length ids \<le> unat k"
  shows "\<exists>t. r\<lparr>expires_at := t\<rparr> \<in> set (entries_after_revision n k reg)"
proof -
  obtain x t where x: "x \<in> set (records reg)" "x = r\<lparr>expires_at := t\<rparr>"
    using leads_found [OF assms(1)] assms(2) by blast
  have "set (entries_after_revision n k reg) = {q \<in> set (records reg). n < revision q}"
    using assms(4) leads_length [OF assms(1)] by (intro entries_after_revision_complete) auto
  with x assms(3) show ?thesis by auto
qed

lemma found_put_all:
  "lookup base aid \<noteq> None \<Longrightarrow> lookup (rr.put_all qs base) aid \<noteq> None"
  using rr.put_all_mono [of base aid _ qs] by fastforce

lemma led_entries: "leads r ids (records reg) \<Longrightarrow> list_all (led_by r) (entries_after_revision n k reg)"
  using entries_after_revision_subset [of n k reg] by (auto simp: leads_def list_all_iff)

lemma led_leased: "list_all (led_by r) rs \<Longrightarrow> list_all (led_by r) (leased clock rs)"
  by (auto simp: list_all_iff dest!: in_leased)

text \<open>
  One round, as what it merges on either side: copies of the other node's records, each with a
  fresh lease.
\<close>

lemma round_copies:
  fixes regA :: "'e AgentRegistry" and regB :: "'f AgentRegistry"
  assumes A: "leads r ids (records regA)" and B: "leads r ids (records regB)"
    and run: "snd (sync_with_peer lib clock (peer_transport pb libB now proto) client peer identity regA env (idB, regB, envB)) =
       (identity', regA', env', idB', regB', envB')"
  defines "pulled_copies \<equiv> admitted lib (leased clock (asked client regA regB)) identity"
    and "pushed_copies \<equiv> passed libB now proto (asked client regB regA')"
  shows "records regA' = rr.put_all pulled_copies (records regA)"
    and "set pulled_copies \<subseteq> {x\<lparr>expires_at := t\<rparr> | x t. x \<in> set (records regB)}"
    and "leads r ids (records regA')"
    and "records regB' = rr.put_all pushed_copies (records regB)"
    and "set pushed_copies \<subseteq> {x\<lparr>expires_at := t\<rparr> | x t. x \<in> set (records regA')}"
    and "leads r ids (records regB')"
    and "memcmp_ok lib \<Longrightarrow> trusts lib r identity \<Longrightarrow> trusts lib r identity'"
    and "memcmp_ok libB \<Longrightarrow> trusts libB r idB \<Longrightarrow> trusts libB r idB'"
proof -
  have sendable: "list_all sendable (records regA)" "list_all sendable (records regB)"
    using A B by (simp_all add: leads_def)
  obtain m i2 r2 e2 where
    acc: "accept_pushed libB now proto (asked client regB (regA\<lparr>records := rr.put_all pulled_copies (records regA)\<rparr>)) (idB, regB, envB) = (m, i2, r2, e2)"
    by (metis prod_cases4)
  have eq: "regA' = regA\<lparr>records := rr.put_all pulled_copies (records regA)\<rparr>" "regB' = r2"
    "identity' = map_option (ident.check_all lib (leased clock (asked client regA regB))) identity" "idB' = i2"
    using run unfolding sync_round [OF sendable] pulled_copies_def
    by (simp_all add: merge_alt acc [unfolded pulled_copies_def])
  then show A': "records regA' = rr.put_all pulled_copies (records regA)" by simp
  show sub: "set pulled_copies \<subseteq> {x\<lparr>expires_at := t\<rparr> | x t. x \<in> set (records regB)}"
    using set_admitted [of lib "leased clock (asked client regA regB)" identity] in_leased [of _ clock "asked client regA regB"]
      asked_missing [of regA client regB]
    by (fastforce simp: missing_def pulled_copies_def)
  show lA: "leads r ids (records regA')" unfolding A' by (rule leads_put_all [OF A B sub])
  show B': "records regB' = rr.put_all pushed_copies (records regB)"
    using records_accept_pushed [of libB now proto "asked client regB regA'" idB regB envB] acc
    by (simp add: eq pushed_copies_def)
  show sub': "set pushed_copies \<subseteq> {x\<lparr>expires_at := t\<rparr> | x t. x \<in> set (records regA')}"
    using entries_after_revision_subset [of _ _ regA'] by (fastforce simp: passed_def pushed_copies_def)
  show "leads r ids (records regB')" unfolding B' by (rule leads_put_all [OF B lA sub'])
  show "trusts lib r identity'" if "memcmp_ok lib" "trusts lib r identity"
    unfolding eq(3) using that led_entries [OF B] by (simp add: trusts_check_all led_leased)
  show "trusts libB r idB'" if "memcmp_ok libB" "trusts libB r idB"
    using trusts_accept_pushed [OF that, of "asked client regB regA'" now proto regB envB] led_entries [OF lA] acc
    by (simp add: eq)
qed

lemma absent_copies:
  assumes "find_record aid reg = None" and "set qs \<subseteq> {x\<lparr>expires_at := t\<rparr> | x t. x \<in> set (records reg)}"
  shows "lookup (rr.put_all qs base) aid = lookup base aid"
proof -
  have "aid \<notin> agent_id ` set (records reg)" using assms(1) by (simp add: find_record_lookup lookup_None_iff)
  then have "aid \<notin> agent_id ` set qs" using assms(2) by fastforce
  then show ?thesis by (rule rr.get_put_all_other)
qed

text \<open>After a round each of the two nodes has the leading record exactly when one of them had it before.\<close>

lemma pull_infects:
  fixes regA :: "'e AgentRegistry" and regB :: "'f AgentRegistry"
  assumes A: "leads r ids (records regA)" and B: "leads r ids (records regB)"
    and r: "0 < revision r" and trust: "memcmp_ok lib" "trusts lib r identity"
    and room: "max_entries_per_round client = 0 \<or> length ids \<le> unat (max_entries_per_round client)"
    and "find_record (agent_id r) regB \<noteq> None"
  shows "lookup (rr.put_all (admitted lib (leased clock (asked client regA regB)) identity) (records regA)) (agent_id r) \<noteq> None"
proof (cases "find_record (agent_id r) regA")
  case None
  let ?es = "asked client regA regB"
  have "highest_revision (stats regA) < revision r" using leads_highest [OF A r] None by simp
  then obtain t0 where "r\<lparr>expires_at := t0\<rparr> \<in> set ?es"
    using leading_entry [OF B assms(7) _ room] by blast
  then obtain t where t: "r\<lparr>expires_at := t\<rparr> \<in> set (leased clock ?es)"
    using leased_in by fastforce
  have "distinct (map agent_id (leased clock ?es))"
    using map_leased [of agent_id clock ?es] distinct_entries [of regB] B by (simp add: leads_def)
  then show ?thesis
    using leading_stored [OF A distinct_admitted trusted_admitted [OF t trust]] led_leased [OF led_entries [OF B]] by simp
qed (simp add: find_record_lookup found_put_all)

lemma push_infects:
  fixes regA :: "'e AgentRegistry" and regB :: "'f AgentRegistry"
  assumes A: "leads r ids (records regA)" and B: "leads r ids (records regB)"
    and r: "0 < revision r" and policy: "signature_rejection (proto_trust proto) (verify_agent_signature lib r) = None"
    and room: "max_entries_per_round client = 0 \<or> length ids \<le> unat (max_entries_per_round client)"
    and "find_record (agent_id r) regA \<noteq> None"
  shows "lookup (rr.put_all (passed lib now proto (asked client regB regA)) (records regB)) (agent_id r) \<noteq> None"
proof (cases "find_record (agent_id r) regB")
  case None
  let ?push = "asked client regB regA"
  have "highest_revision (stats regB) < revision r" using leads_highest [OF B r] None by simp
  then obtain t0 where t0: "r\<lparr>expires_at := t0\<rparr> \<in> set ?push"
    using leading_entry [OF A assms(6) _ room] by blast
  from t0 policy have "r\<lparr>expires_at := now + milliseconds (heartbeat_ttl (proto_lifecycle proto))\<rparr> \<in> set (passed lib now proto ?push)"
    by (rule in_passed)
  moreover have "distinct (map agent_id (passed lib now proto ?push))"
    using distinct_entries [of regA] A by (simp add: passed_def comp_def leads_def distinct_map_filter)
  ultimately show ?thesis
    using leading_stored [OF B] by simp
qed (simp add: find_record_lookup found_put_all)

lemma round_infects:
  fixes regA :: "'e AgentRegistry" and regB :: "'f AgentRegistry"
  assumes A: "leads r ids (records regA)" and B: "leads r ids (records regB)"
    and r: "0 < revision r" and trust: "memcmp_ok lib" "trusts lib r identity"
    and policy: "signature_rejection (proto_trust proto) (verify_agent_signature libB r) = None"
    and room: "max_entries_per_round client = 0 \<or> length ids \<le> unat (max_entries_per_round client)"
    and run: "snd (sync_with_peer lib clock (peer_transport pb libB now proto) client peer identity regA env (idB, regB, envB)) =
       (identity', regA', env', idB', regB', envB')"
  shows "leads r ids (records regA') \<and> leads r ids (records regB') \<and>
     (find_record (agent_id r) regA' \<noteq> None \<longleftrightarrow> find_record (agent_id r) regA \<noteq> None \<or> find_record (agent_id r) regB \<noteq> None) \<and>
     (find_record (agent_id r) regB' \<noteq> None \<longleftrightarrow> find_record (agent_id r) regA \<noteq> None \<or> find_record (agent_id r) regB \<noteq> None)"
proof -
  note c = round_copies [OF A B run]
  have A': "find_record (agent_id r) regA' \<noteq> None \<longleftrightarrow> find_record (agent_id r) regA \<noteq> None \<or> find_record (agent_id r) regB \<noteq> None"
  proof (cases "find_record (agent_id r) regB")
    case None
    then show ?thesis using absent_copies [OF None c(2)] by (simp add: c(1) find_record_lookup)
  next
    case (Some x)
    then show ?thesis using pull_infects [OF A B r trust room] by (simp add: c(1) find_record_lookup)
  qed
  moreover have "find_record (agent_id r) regB' \<noteq> None \<longleftrightarrow> find_record (agent_id r) regA' \<noteq> None \<or> find_record (agent_id r) regB \<noteq> None"
  proof (cases "find_record (agent_id r) regA'")
    case None
    then show ?thesis using absent_copies [OF None c(5)] by (simp add: c(4) find_record_lookup)
  next
    case (Some x)
    then show ?thesis using push_infects [OF c(3) B r policy room] by (simp add: c(4) find_record_lookup)
  qed
  ultimately show ?thesis using c(3,6) by blast
qed

end
