(* ===== verification/Ghost_Agents.thy ===== *)
theory Ghost_Agents
  imports Leading_Record
begin

text \<open>
  Leases under synchronisation.  An agent lives on a node until a purge finds its lease expired
  (\<^verbatim>\<open>purge_expired\<close> in \<^verbatim>\<open>src/src/beacon/agent_registry.cpp\<close>, called by the loop of
  \<^verbatim>\<open>src/src/beacon_engine/main.cpp\<close>); but a pulled record gets a fresh lease of a minute
  (\<^verbatim>\<open>parse_agent_lines\<close> in \<^verbatim>\<open>src/src/beacon_net/sync_client.cpp\<close>) and a pushed one a fresh lease of
  the heartbeat period (\<^verbatim>\<open>parse_command\<close> in \<^verbatim>\<open>src/src/beacon/control_protocol.cpp\<close>).  Two nodes that
  purge and synchronise in turn are run here as one system.
\<close>

section \<open>Two nodes, purging and synchronising\<close>

datatype pair_event =
    Purge_local time_point
  | Purge_peer time_point
  | Sync_round "nat \<Rightarrow> time_point" time_point

type_synonym ('e, 'f) pair_state = "IdentityService option \<times> 'e AgentRegistry \<times> 'e \<times> 'f node"

definition pair_step ::
  "protobuf option \<Rightarrow> sodium option \<Rightarrow> sodium option \<Rightarrow> ControlProtocol \<Rightarrow> SyncClient \<Rightarrow> SyncPeer \<Rightarrow> pair_event \<Rightarrow>
   ('e, 'f) pair_state \<Rightarrow> ('e, 'f) pair_state" where
  "pair_step pb lib libB proto client peer ev state =
     (case state of (identity, regA, env, idB, regB, envB) \<Rightarrow>
        (case ev of
           Purge_local t \<Rightarrow> (identity, snd (purge_expired t regA), env, idB, regB, envB)
         | Purge_peer t \<Rightarrow> (identity, regA, env, idB, snd (purge_expired t regB), envB)
         | Sync_round clock now \<Rightarrow>
             snd (sync_with_peer lib clock (peer_transport pb libB now proto) client peer identity regA env (idB, regB, envB))))"

definition run_pair ::
  "protobuf option \<Rightarrow> sodium option \<Rightarrow> sodium option \<Rightarrow> ControlProtocol \<Rightarrow> SyncClient \<Rightarrow> SyncPeer \<Rightarrow> pair_event list \<Rightarrow>
   ('e, 'f) pair_state \<Rightarrow> ('e, 'f) pair_state" where
  "run_pair pb lib libB proto client peer = fold (pair_step pb lib libB proto client peer)"

text \<open>Schedules in which a round lies between any two purges; the flag tells whether a purge may be next.\<close>

fun spaced :: "bool \<Rightarrow> pair_event list \<Rightarrow> bool" where
  "spaced ok [] = True"
| "spaced ok (Sync_round clock now # evs) = spaced True evs"
| "spaced ok (ev # evs) = (ok \<and> spaced False evs)"

section \<open>Properties\<close>

definition haunted :: "sodium option \<Rightarrow> AgentRecord \<Rightarrow> string list \<Rightarrow> bool \<Rightarrow> ('e, 'f) pair_state \<Rightarrow> bool" where
  "haunted lib r ids both state =
     (case state of (identity, regA, env, idB, regB, envB) \<Rightarrow>
        leads r ids (records regA) \<and> leads r ids (records regB) \<and> trusts lib r identity \<and>
        (if both then find_record (agent_id r) regA \<noteq> None \<and> find_record (agent_id r) regB \<noteq> None
         else find_record (agent_id r) regA \<noteq> None \<or> find_record (agent_id r) regB \<noteq> None))"

lemma haunted_step:
  assumes "haunted lib r ids ok state" and "0 < revision r" and "memcmp_ok lib"
    and "signature_rejection (proto_trust proto) (verify_agent_signature libB r) = None"
    and "max_entries_per_round client = 0 \<or> length ids \<le> unat (max_entries_per_round client)"
    and "spaced ok (ev # evs)"
  shows "\<exists>ok'. haunted lib r ids ok' (pair_step pb lib libB proto client peer ev state) \<and> spaced ok' evs"
proof -
  obtain identity regA env idB regB envB where st: "state = (identity, regA, env, idB, regB, envB)"
    by (metis prod_cases6)
  show ?thesis
  proof (cases ev)
    case (Sync_round clock now)
    obtain i1 r1 e1 i2 r2 e2 where
      run: "snd (sync_with_peer lib clock (peer_transport pb libB now proto) client peer identity regA env (idB, regB, envB)) =
        (i1, r1, e1, i2, r2, e2)"
      by (metis prod_cases6)
    have pre: "leads r ids (records regA)" "leads r ids (records regB)" "trusts lib r identity"
      using assms(1) by (simp_all add: st haunted_def)
    have "haunted lib r ids True (pair_step pb lib libB proto client peer ev state)"
      using round_infects [OF pre(1,2) assms(2,3) pre(3) assms(4,5) run]
        round_copies(7) [OF pre(1,2) run assms(3) pre(3)] assms(1)
      by (simp add: st Sync_round pair_step_def haunted_def run split: if_splits)
    with assms(6) show ?thesis unfolding Sync_round by auto
  qed (use assms(1,6) in \<open>auto simp: st pair_step_def haunted_def records_purge_expired leads_filter intro!: exI [of _ False]\<close>)
qed

text \<open>
  Property C37: agents that nobody renews outlive every lease.  Two nodes that synchronise share an
  agent whose record has a positive revision, leads their registries (\<^const>\<open>leads\<close>: all other agents are at lower revisions, and all
  fields can be sent in a line) and passes their checks.  In every schedule, at whatever instants, in which a
  round lies between any two purges, the agent stays listed on one of the two nodes at least: what the
  one purged the other still holds, and the round brings it back with a fresh lease.  The agents of the two nodes must be no more
  than the limit of records per round, unless there is no limit.
\<close>

theorem ghost_agent_survives:
  fixes regA :: "'e AgentRegistry" and regB :: "'f AgentRegistry"
  assumes "leads r ids (records regA)" and "leads r ids (records regB)"
    and "find_record (agent_id r) regA \<noteq> None" and "find_record (agent_id r) regB \<noteq> None"
    and "0 < revision r" and "memcmp_ok lib" and "trusts lib r identity"
    and "signature_rejection (proto_trust proto) (verify_agent_signature libB r) = None"
    and "max_entries_per_round client = 0 \<or> length ids \<le> unat (max_entries_per_round client)"
    and "spaced True evs"
  shows "case run_pair pb lib libB proto client peer evs (identity, regA, env, idB, regB, envB) of
     (_, regA', _, _, regB', _) \<Rightarrow> find_record (agent_id r) regA' \<noteq> None \<or> find_record (agent_id r) regB' \<noteq> None"
proof -
  have "\<exists>ok'. haunted lib r ids ok' (fold (pair_step pb lib libB proto client peer) evs state)"
    if "haunted lib r ids ok state" "spaced ok evs" for ok evs and state :: "('e, 'f) pair_state"
    using that
  proof (induction evs arbitrary: ok state)
    case (Cons ev evs)
    obtain ok' where "haunted lib r ids ok' (pair_step pb lib libB proto client peer ev state)" "spaced ok' evs"
      using haunted_step [OF Cons.prems(1) assms(5,6,8,9) Cons.prems(2)] by metis
    with Cons.IH show ?case by simp
  qed auto
  moreover have "haunted lib r ids True (identity, regA, env, idB, regB, envB)" using assms(1-4,7) by (simp add: haunted_def)
  ultimately obtain ok' where
    h: "haunted lib r ids ok' (run_pair pb lib libB proto client peer evs (identity, regA, env, idB, regB, envB))"
    using assms(10) unfolding run_pair_def by metis
  obtain i1 r1 e1 i2 r2 e2 where
    st: "run_pair pb lib libB proto client peer evs (identity, regA, env, idB, regB, envB) = (i1, r1, e1, i2, r2, e2)"
    by (metis prod_cases6)
  show ?thesis using h unfolding st by (auto simp: haunted_def split: if_splits)
qed

theorem ghost_agent_survives_witness:
  "case run_pair None None None
       \<lparr>proto_lifecycle = default_LifecycleConfig, proto_trust = default_TrustConfig\<rparr>
       \<lparr>max_entries_per_round = 256\<rparr> \<lparr>peer_host = ''h'', peer_control_port = 1\<rparr>
       [Purge_peer 1000, Sync_round (\<lambda>_. 1001) 1001, Purge_local (minutes 60), Sync_round (\<lambda>_. minutes 61) (minutes 61),
        Purge_peer (minutes 90)]
       (None, sample_peer [sample_record ''a'' 1 0], (), None, sample_peer [sample_record ''a'' 1 7], ()) of
     (_, regA', _, _, regB', _) \<Rightarrow> find_record ''a'' regA' \<noteq> None \<or> find_record ''a'' regB' \<noteq> None"
proof -
  let ?r = "sample_record ''a'' 1 0"
  have l: "leads ?r [''a''] [sample_record ''a'' 1 t]" for t
    by (simp add: leads_def sendable_sample) (simp add: registry_wf_def led_by_def record_wf_def sample_record_def)
  have r: "agent_id (sample_record ''a'' 1 t) = ''a''" "0 < revision ?r" for t
    by (simp_all add: sample_record_def)
  have policy: "signature_rejection default_TrustConfig (verify_agent_signature None ?r) = None"
    by (simp add: signature_rejection_def default_TrustConfig_def verify_agent_signature_def sample_record_def)
  show ?thesis
    by (rule ghost_agent_survives [of ?r "[''a'']" "sample_peer [?r]" "sample_peer [sample_record ''a'' 1 7]", unfolded r(1)])
      (simp_all add: l r policy find_record_lookup)
qed

end
