(* ===== verification/Epidemic.thy ===== *)
theory Epidemic
  imports Leading_Record
begin

text \<open>
  A network of nodes that synchronise pairwise, each round the sync client of one node
  (\<^verbatim>\<open>src/src/beacon_net/sync_client.cpp\<close>) against the control server of another.  A newest record
  spreads as in an epidemic: a round infects whichever of its two nodes is not yet infected.
\<close>

section \<open>The network\<close>

record net_round =
  caller :: nat
  callee :: nat
  read_clock :: "nat \<Rightarrow> time_point"
  serve_time :: time_point

definition net_step ::
  "protobuf option \<Rightarrow> sodium option \<Rightarrow> ControlProtocol \<Rightarrow> SyncClient \<Rightarrow> (nat \<Rightarrow> SyncPeer) \<Rightarrow> net_round \<Rightarrow>
   (nat \<Rightarrow> 'e node) \<Rightarrow> nat \<Rightarrow> 'e node" where
  "net_step pb lib proto client addr ev net =
     (case net (caller ev) of (identity, reg, env) \<Rightarrow>
        (case snd (sync_with_peer lib (read_clock ev) (peer_transport pb lib (serve_time ev) proto) client
               (addr (callee ev)) identity reg env (net (callee ev))) of
           (identity', reg', env', peer') \<Rightarrow>
             net(caller ev := (identity', reg', env'), callee ev := peer')))"

definition run_net ::
  "protobuf option \<Rightarrow> sodium option \<Rightarrow> ControlProtocol \<Rightarrow> SyncClient \<Rightarrow> (nat \<Rightarrow> SyncPeer) \<Rightarrow> net_round list \<Rightarrow>
   (nat \<Rightarrow> 'e node) \<Rightarrow> nat \<Rightarrow> 'e node" where
  "run_net pb lib proto client addr = fold (net_step pb lib proto client addr)"

section \<open>The specification\<close>

definition infect :: "net_round \<Rightarrow> nat set \<Rightarrow> nat set" where
  "infect ev I = (if caller ev \<in> I \<or> callee ev \<in> I then insert (caller ev) (insert (callee ev) I) else I)"

abbreviation registry_of :: "'e node \<Rightarrow> 'e AgentRegistry" where
  "registry_of node \<equiv> fst (snd node)"

definition holders :: "string \<Rightarrow> (nat \<Rightarrow> 'e node) \<Rightarrow> nat set" where
  "holders aid net = {k. find_record aid (registry_of (net k)) \<noteq> None}"

lemma infect_mono: "I \<subseteq> infect ev I" "I \<subseteq> J \<Longrightarrow> infect ev I \<subseteq> infect ev J"
  by (auto simp: infect_def)

lemma fold_infect_mono: "I \<subseteq> J \<Longrightarrow> fold infect evs I \<subseteq> fold infect evs J"
  by (induction evs arbitrary: I J) (simp_all add: infect_mono)

lemma fold_infect_grows: "I \<subseteq> fold infect evs I"
proof (induction evs arbitrary: I)
  case (Cons ev evs)
  then show ?case using infect_mono(1) [of I ev] by fastforce
qed simp

text \<open>A round infects its other node, whatever rounds come before and after it.\<close>

lemma round_in_run:
  assumes "ev \<in> set evs" and "caller ev \<in> I \<or> callee ev \<in> I"
  shows "caller ev \<in> fold infect evs I \<and> callee ev \<in> fold infect evs I"
  using assms
proof (induction evs arbitrary: I)
  case (Cons e evs)
  show ?case
  proof (cases "ev = e")
    case True
    then have "caller ev \<in> infect e I" "callee ev \<in> infect e I" using Cons.prems by (simp_all add: infect_def)
    then show ?thesis using fold_infect_grows [of "infect e I" evs] by auto
  next
    case False
    then show ?thesis using Cons.IH [of "infect e I"] Cons.prems infect_mono(1) [of I e] by auto
  qed
qed simp

text \<open>Two passes in which each node calls the hub.\<close>

definition calls_hub :: "nat set \<Rightarrow> nat \<Rightarrow> net_round list \<Rightarrow> bool" where
  "calls_hub K hub evs \<longleftrightarrow> (\<forall>k\<in>K. \<exists>ev\<in>set evs. caller ev = k \<and> callee ev = hub)"

lemma two_passes_infect:
  assumes "calls_hub K hub pass1" and "calls_hub K hub pass2" and "\<exists>k\<in>insert hub K. k \<in> I"
  shows "insert hub K \<subseteq> fold infect (pass1 @ pass2) I"
proof -
  have "hub \<in> fold infect pass1 I"
    using assms(1,3) fold_infect_grows [of I pass1] round_in_run [of _ pass1 I] by (fastforce simp: calls_hub_def)
  then have hub: "hub \<in> fold infect pass1 I" "hub \<in> fold infect pass2 (fold infect pass1 I)"
    using fold_infect_grows by blast+
  have "k \<in> fold infect pass2 (fold infect pass1 I)" if "k \<in> K" for k
  proof -
    obtain ev where "ev \<in> set pass2" "caller ev = k" "callee ev = hub" using assms(2) \<open>k \<in> K\<close> by (auto simp: calls_hub_def)
    then show ?thesis using round_in_run [of ev pass2 "fold infect pass1 I"] hub(1) by simp
  qed
  with hub(2) show ?thesis by auto
qed

section \<open>One round in the network\<close>

lemma net_step_infects:
  fixes net :: "nat \<Rightarrow> 'e node"
  assumes lead: "\<forall>k. leads r ids (records (registry_of (net k))) \<and> trusts lib r (fst (net k))"
    and r: "0 < revision r" and lib: "memcmp_ok lib"
    and policy: "signature_rejection (proto_trust proto) (verify_agent_signature lib r) = None"
    and room: "max_entries_per_round client = 0 \<or> length ids \<le> unat (max_entries_per_round client)"
    and apart: "caller ev \<noteq> callee ev"
  shows "(\<forall>k. leads r ids (records (registry_of (net_step pb lib proto client addr ev net k))) \<and>
        trusts lib r (fst (net_step pb lib proto client addr ev net k))) \<and>
     holders (agent_id r) (net_step pb lib proto client addr ev net) = infect ev (holders (agent_id r) net)"
proof -
  obtain idA regA envA where A: "net (caller ev) = (idA, regA, envA)" by (metis prod_cases3)
  obtain idB regB envB where B: "net (callee ev) = (idB, regB, envB)" by (metis prod_cases3)
  obtain i1 r1 e1 i2 r2 e2 where run: "snd (sync_with_peer lib (read_clock ev) (peer_transport pb lib (serve_time ev) proto) client
      (addr (callee ev)) idA regA envA (idB, regB, envB)) = (i1, r1, e1, i2, r2, e2)"
    by (metis prod_cases6)
  have step: "net_step pb lib proto client addr ev net = net(caller ev := (i1, r1, e1), callee ev := (i2, r2, e2))"
    by (simp add: net_step_def A B run del: fun_upd_apply)
  have pre: "leads r ids (records regA)" "leads r ids (records regB)" "trusts lib r idA" "trusts lib r idB"
    using lead [THEN spec, of "caller ev"] lead [THEN spec, of "callee ev"] by (simp_all add: A B)
  note i = round_infects [OF pre(1,2) r lib pre(3) policy room run]
    and t = round_copies(7,8) [OF pre(1,2) run]
  have "holders (agent_id r) (net_step pb lib proto client addr ev net) = infect ev (holders (agent_id r) net)"
    using i apart by (auto simp: step holders_def infect_def A B)
  then show ?thesis using i lead t [OF lib] pre by (auto simp: step)
qed

lemma run_net_infects:
  fixes net :: "nat \<Rightarrow> 'e node"
  assumes "\<forall>k. leads r ids (records (registry_of (net k))) \<and> trusts lib r (fst (net k))"
    and "0 < revision r" and "memcmp_ok lib"
    and "signature_rejection (proto_trust proto) (verify_agent_signature lib r) = None"
    and "max_entries_per_round client = 0 \<or> length ids \<le> unat (max_entries_per_round client)"
    and "\<forall>ev\<in>set evs. caller ev \<noteq> callee ev"
  shows "holders (agent_id r) (run_net pb lib proto client addr evs net) = fold infect evs (holders (agent_id r) net)"
  using assms(1,6)
proof (induction evs arbitrary: net)
  case (Cons ev evs)
  have ev: "caller ev \<noteq> callee ev" using Cons.prems(2) by simp
  note step = net_step_infects [OF Cons.prems(1) assms(2-5) ev, of pb addr]
  show ?case using Cons.IH [OF conjunct1 [OF step]] conjunct2 [OF step] Cons.prems(2) by (simp add: run_net_def)
qed (simp add: run_net_def)

section \<open>Properties\<close>

text \<open>
  Property C21: the newest record spreads by contact.  Where a record with a positive revision leads every registry of a network
  (\<^const>\<open>leads\<close>: its agent has no other record, other agents are at lower revisions, and all fields can be sent in a line) and
  passes the signature policy and the identity check of its nodes, the nodes that list its agent after any sequence of rounds are exactly those that
  contact with a holder has reached: a round between two nodes of which one holds the record leaves
  it on both, and no other node gets it.  The agents of the network must be no more than the limit of
  records per round, unless there is no limit.
\<close>

theorem newest_record_spreads:
  fixes net :: "nat \<Rightarrow> 'e node"
  assumes "\<forall>k. leads r ids (records (registry_of (net k))) \<and> trusts lib r (fst (net k))"
    and "0 < revision r" and "memcmp_ok lib"
    and "signature_rejection (proto_trust proto) (verify_agent_signature lib r) = None"
    and "max_entries_per_round client = 0 \<or> length ids \<le> unat (max_entries_per_round client)"
    and "\<forall>ev\<in>set evs. caller ev \<noteq> callee ev"
  shows "holders (agent_id r) (run_net pb lib proto client addr evs net) = fold infect evs (holders (agent_id r) net)"
  by (rule run_net_infects [OF assms])

section \<open>A network of three\<close>

text \<open>
  Signatures are required on every node.  Node 1 knows a signed agent; nodes 1 and 2 call node 0.
\<close>

definition signed_agent :: AgentRecord where
  "signed_agent = sample_sign 1 (sample_record ''a'' 1 0)"

definition sample_net :: "nat \<Rightarrow> unit node" where
  "sample_net k = (Some new_IdentityService, sample_peer (if k = 1 then [signed_agent] else []), ())"

definition call_hub :: "nat \<Rightarrow> net_round" where
  "call_hub k = \<lparr>caller = k, callee = 0, read_clock = (\<lambda>_. 0), serve_time = 0\<rparr>"

abbreviation strict_proto :: ControlProtocol where
  "strict_proto \<equiv> \<lparr>proto_lifecycle = default_LifecycleConfig, proto_trust = default_TrustConfig\<lparr>require_signatures := True\<rparr>\<rparr>"

lemma signed_agent_simps:
  "0 < revision signed_agent" "agent_id signed_agent = ''a''"
  "verify_agent_signature (Some sample_sodium) signed_agent = Valid"
  by (simp_all add: signed_agent_def verify_sample_sign) (simp_all add: sample_sign_def sample_record_def)

lemma sample_net_leads:
  "\<forall>k. leads signed_agent [''a''] (records (registry_of (sample_net k))) \<and>
     trusts (Some sample_sodium) signed_agent (fst (sample_net k))"
proof -
  have "sendable signed_agent"
    by (simp add: signed_agent_def sendable_def line_safe_def sample_sign_def sample_record_def token_simps is_space_def)
  moreover have "registry_wf [signed_agent]"
    by (simp add: registry_wf_def record_wf_def signed_agent_def sample_sign_def sample_record_def)
  moreover have "led_by signed_agent signed_agent" by (simp add: led_by_def)
  moreover have "trusts (Some sample_sodium) signed_agent (Some new_IdentityService)"
    by (simp add: trusts_def identity_wf_new admits_def verify_and_register_status [OF memcmp_ok_sample] signed_agent_simps)
      (simp add: pinned_def new_IdentityService_def omap_get_def)
  ultimately show ?thesis by (simp add: sample_net_def leads_def signed_agent_simps)
qed

lemma sample_net_policy:
  "signature_rejection (proto_trust strict_proto) (verify_agent_signature (Some sample_sodium) signed_agent) = None"
  by (simp add: signature_rejection_def signed_agent_simps)

theorem newest_record_spreads_witness:
  "holders ''a'' (run_net None (Some sample_sodium) strict_proto
     \<lparr>max_entries_per_round = 256\<rparr> (\<lambda>_. \<lparr>peer_host = ''h'', peer_control_port = 1\<rparr>) [call_hub 2, call_hub 1] sample_net) = {0, 1}"
proof -
  have "holders ''a'' sample_net = {1}"
    by (auto simp: holders_def sample_net_def find_record_lookup signed_agent_simps)
  then have "fold infect [call_hub 2, call_hub 1] (holders ''a'' sample_net) = {0, 1}"
    by (auto simp: infect_def call_hub_def)
  moreover have "\<forall>ev\<in>set [call_hub 2, call_hub 1]. caller ev \<noteq> callee ev" by (simp add: call_hub_def)
  ultimately show ?thesis
    using newest_record_spreads [OF sample_net_leads signed_agent_simps(1) memcmp_ok_sample sample_net_policy,
        of "\<lparr>max_entries_per_round = 256\<rparr>" "[call_hub 2, call_hub 1]" None "\<lambda>_. \<lparr>peer_host = ''h'', peer_control_port = 1\<rparr>"]
    by (simp add: signed_agent_simps)
qed

end
