(* ===== verification/Gossip_Network.thy ===== *)
theory Gossip_Network
  imports Epidemic
begin

text \<open>
  Gossip services on a network.  The transport of each service (\<^verbatim>\<open>src/src/beacon_net/gossip_service.cpp\<close>,
  over \<^verbatim>\<open>sync_client.cpp\<close>) is the network itself: a connection to an address reaches the control server
  of the node there, and an address at which no node runs refuses it.  Heartbeat datagrams change no node,
  since the responder ignores them.  A round of a service is a sequence of rounds of the network,
  one for each peer it picked and reached.
\<close>

section \<open>The network as a transport\<close>

definition net_transport ::
  "protobuf option \<Rightarrow> sodium option \<Rightarrow> time_point \<Rightarrow> ControlProtocol \<Rightarrow> (nat \<Rightarrow> SyncPeer) \<Rightarrow> nat list \<Rightarrow>
   (nat \<Rightarrow> 'e node) transport" where
  "net_transport pb lib now proto addr running peer command net =
     (case List.find (\<lambda>k. addr k = peer) running of
        None \<Rightarrow> (Connect_error ''connection refused'', net)
      | Some k \<Rightarrow>
          (case peer_transport pb lib now proto peer command (net k) of (reply, node) \<Rightarrow> (reply, net(k := node))))"

text \<open>A round of the service of node \<open>i\<close>.\<close>

definition service_round ::
  "protobuf option \<Rightarrow> sodium option \<Rightarrow> ControlProtocol \<Rightarrow> (nat \<Rightarrow> SyncPeer) \<Rightarrow> nat list \<Rightarrow>
   (nat \<Rightarrow> nat \<Rightarrow> time_point) \<Rightarrow> (nat list \<Rightarrow> nat list) \<Rightarrow> time_point \<Rightarrow> GossipService \<Rightarrow> nat \<Rightarrow>
   (nat \<Rightarrow> 'e node) \<Rightarrow> nat \<Rightarrow> 'e node" where
  "service_round pb lib proto addr running clocks shuffle now svc i net =
     (case net i of (identity, reg, env) \<Rightarrow>
        (case perform_gossip_round lib clocks shuffle (net_transport pb lib now proto addr running) (\<lambda>_ _ _ w. w) svc
               (identity, reg, env, net) of
           (identity', reg', env', net') \<Rightarrow> net'(i := (identity', reg', env'))))"

section \<open>One exchange\<close>

lemma send_command_net:
  assumes "List.find (\<lambda>k. addr k = peer) running = Some k"
  shows "send_command (net_transport pb lib now proto addr running) peer command net =
     (case send_command (peer_transport pb lib now proto) peer command (net k) of (x, node) \<Rightarrow> (x, net(k := node)))"
  by (simp add: send_command_def net_transport_def assms case_prod_unfold split: exchange.split read_end.split)

lemma push_loop_net:
  assumes "List.find (\<lambda>k. addr k = peer) running = Some k"
  shows "push_loop (net_transport pb lib now proto addr running) peer es n net =
     (case push_loop (peer_transport pb lib now proto) peer es n (net k) of (x, node) \<Rightarrow> (x, net(k := node)))"
proof (induction es arbitrary: n net)
  case (Cons e es)
  obtain x node where "send_command (peer_transport pb lib now proto) peer (encode_merge_command e) (net k) = (x, node)"
    by (metis surj_pair)
  then show ?case
    by (cases x) (simp_all add: send_command_net [OF assms] Cons.IH fun_upd_same case_prod_unfold del: fun_upd_apply)
qed simp

lemma sync_with_peer_net:
  assumes "List.find (\<lambda>k. addr k = peer) running = Some k"
  shows "sync_with_peer lib clock (net_transport pb libB now proto addr running) client peer identity reg env net =
     (case sync_with_peer lib clock (peer_transport pb libB now proto) client peer identity reg env (net k) of
        (x, identity', reg', env', node) \<Rightarrow> (x, identity', reg', env', net(k := node)))"
  by (simp add: sync_with_peer_def push_entries_to_def send_command_net [OF assms] push_loop_net [OF assms]
      fun_upd_same case_prod_unfold Let_def split: sum.split del: fun_upd_apply)

lemma sync_with_peer_refused:
  assumes "List.find (\<lambda>k. addr k = peer) running = None"
  shows "snd (sync_with_peer lib clock (net_transport pb libB now proto addr running) client peer identity reg env net) =
     (identity, reg, env, net)"
  by (simp add: sync_with_peer_def send_command_def net_transport_def assms)

section \<open>A round of the service\<close>

definition address_of :: "GossipPeer \<Rightarrow> SyncPeer" where
  "address_of p = \<lparr>peer_host = gp_host p, peer_control_port = gp_control_port p\<rparr>"

definition service_client :: "GossipService \<Rightarrow> SyncClient" where
  "service_client svc = new_SyncClient (max_registry_items_per_round (gs_gossip_config svc))"

text \<open>The rounds of the network that the service makes with the peers of the given indices.\<close>

definition service_calls ::
  "(nat \<Rightarrow> SyncPeer) \<Rightarrow> nat list \<Rightarrow> (nat \<Rightarrow> nat \<Rightarrow> time_point) \<Rightarrow> time_point \<Rightarrow> GossipService \<Rightarrow> nat \<Rightarrow> nat list \<Rightarrow> net_round list" where
  "service_calls addr running clocks now svc i idxs =
     List.map_filter (\<lambda>idx. map_option (\<lambda>k. \<lparr>caller = i, callee = k, read_clock = clocks idx, serve_time = now\<rparr>)
       (List.find (\<lambda>k. addr k = address_of (peers svc ! idx)) running)) idxs"

lemma gossip_loop_net:
  assumes "\<forall>idx\<in>set idxs. List.find (\<lambda>k. addr k = address_of (peers svc ! idx)) running \<noteq> Some i"
  shows "(case gossip_loop lib clocks (net_transport pb lib now proto addr running) (\<lambda>_ _ _ w. w) svc (peers svc) idxs
            (identity, reg, env, net) of
       (identity', reg', env', net') \<Rightarrow> net'(i := (identity', reg', env'))) =
     run_net pb lib proto (service_client svc) addr (service_calls addr running clocks now svc i idxs)
       (net(i := (identity, reg, env)))"
  using assms
proof (induction idxs arbitrary: identity reg env net)
  case Nil
  then show ?case by (simp add: service_calls_def run_net_def List.map_filter_simps)
next
  case (Cons idx idxs)
  let ?net = "net_transport pb lib now proto addr running" and ?peer = "peers svc ! idx"
  let ?found = "List.find (\<lambda>k. addr k = address_of ?peer) running"
  have loop: "gossip_loop lib clocks ?net (\<lambda>_ _ _ w. w) svc (peers svc) (idx # idxs) (identity, reg, env, net) =
      gossip_loop lib clocks ?net (\<lambda>_ _ _ w. w) svc (peers svc) idxs
        (snd (sync_with_peer lib (clocks idx) ?net (service_client svc) (address_of ?peer) identity reg env net))"
    by (simp add: send_udp_heartbeat_def sync_with_peer_tcp_def service_client_def address_of_def Let_def)
  show ?case
  proof (cases ?found)
    case None
    then show ?thesis
      using Cons by (simp add: loop sync_with_peer_refused service_calls_def List.map_filter_simps del: gossip_loop.simps)
  next
    case (Some k)
    then have k: "k \<noteq> i" "addr k = address_of ?peer"
      using Cons.prems by (auto simp: find_Some_iff)
    obtain x i1 r1 e1 node where
      run: "sync_with_peer lib (clocks idx) (peer_transport pb lib now proto) (service_client svc) (address_of ?peer)
        identity reg env (net k) = (x, i1, r1, e1, node)"
      by (metis prod_cases5)
    have step: "net_step pb lib proto (service_client svc) addr
        \<lparr>caller = i, callee = k, read_clock = clocks idx, serve_time = now\<rparr> (net(i := (identity, reg, env))) =
        (net(k := node))(i := (i1, r1, e1))"
      using k by (simp add: net_step_def run fun_upd_twist)
    have "service_calls addr running clocks now svc i (idx # idxs) =
        \<lparr>caller = i, callee = k, read_clock = clocks idx, serve_time = now\<rparr> # service_calls addr running clocks now svc i idxs"
      by (simp add: service_calls_def List.map_filter_simps Some)
    then show ?thesis
      using Cons.IH [of i1 r1 e1 "net(k := node)"] Cons.prems
      by (simp add: loop sync_with_peer_net [OF Some] run run_net_def step del: gossip_loop.simps fun_upd_apply)
  qed
qed

lemma service_round_net:
  assumes "\<forall>p\<in>set (peers svc). List.find (\<lambda>k. addr k = address_of p) running \<noteq> Some i" and "shuffles shuffle"
  shows "service_round pb lib proto addr running clocks shuffle now svc i net =
     run_net pb lib proto (service_client svc) addr
       (service_calls addr running clocks now svc i (pick_random_indices shuffle (length (peers svc)) GOSSIP_FANOUT)) net"
proof -
  obtain identity reg env where st: "net i = (identity, reg, env)" by (metis prod_cases3)
  then have same: "net(i := (identity, reg, env)) = net" by (metis fun_upd_triv)
  have idx: "\<forall>idx\<in>set (pick_random_indices shuffle (length (peers svc)) GOSSIP_FANOUT).
      List.find (\<lambda>k. addr k = address_of (peers svc ! idx)) running \<noteq> Some i"
    using assms(1) picked_indices(2) [OF assms(2)] by fastforce
  show ?thesis
  proof (cases "peers svc = []")
    case True
    then show ?thesis
      by (simp add: service_round_def st perform_gossip_round_def pick_random_indices_def service_calls_def
          List.map_filter_simps run_net_def same)
  next
    case False
    then show ?thesis
      using gossip_loop_net [OF idx, of lib clocks pb now proto identity reg env net]
      by (simp add: service_round_def st perform_gossip_round_def same Let_def)
  qed
qed

section \<open>Sequences of service rounds\<close>

record service_event =
  actor :: nat
  ev_clocks :: "nat \<Rightarrow> nat \<Rightarrow> time_point"
  ev_shuffle :: "nat list \<Rightarrow> nat list"
  ev_time :: time_point

definition run_services ::
  "protobuf option \<Rightarrow> sodium option \<Rightarrow> ControlProtocol \<Rightarrow> (nat \<Rightarrow> SyncPeer) \<Rightarrow> nat list \<Rightarrow> (nat \<Rightarrow> GossipService) \<Rightarrow>
   service_event list \<Rightarrow> (nat \<Rightarrow> 'e node) \<Rightarrow> nat \<Rightarrow> 'e node" where
  "run_services pb lib proto addr running svcs =
     fold (\<lambda>ev. service_round pb lib proto addr running (ev_clocks ev) (ev_shuffle ev) (ev_time ev) (svcs (actor ev)) (actor ev))"

definition event_calls ::
  "(nat \<Rightarrow> SyncPeer) \<Rightarrow> nat list \<Rightarrow> (nat \<Rightarrow> GossipService) \<Rightarrow> service_event \<Rightarrow> net_round list" where
  "event_calls addr running svcs ev =
     service_calls addr running (ev_clocks ev) (ev_time ev) (svcs (actor ev)) (actor ev)
       (pick_random_indices (ev_shuffle ev) (length (peers (svcs (actor ev)))) GOSSIP_FANOUT)"

text \<open>No service has its own node among its peers.\<close>

definition no_self_peer :: "(nat \<Rightarrow> SyncPeer) \<Rightarrow> nat list \<Rightarrow> GossipService \<Rightarrow> nat \<Rightarrow> bool" where
  "no_self_peer addr running svc i \<longleftrightarrow>
     list_all (\<lambda>p. List.find (\<lambda>k. addr k = address_of p) running \<noteq> Some i) (peers svc)"

lemma run_services_net:
  assumes "\<forall>ev\<in>set evs. shuffles (ev_shuffle ev) \<and> no_self_peer addr running (svcs (actor ev)) (actor ev) \<and>
      service_client (svcs (actor ev)) = client"
  shows "run_services pb lib proto addr running svcs evs net =
     run_net pb lib proto client addr (concat (map (event_calls addr running svcs) evs)) net"
  using assms
proof (induction evs arbitrary: net)
  case (Cons ev evs)
  have "service_round pb lib proto addr running (ev_clocks ev) (ev_shuffle ev) (ev_time ev) (svcs (actor ev)) (actor ev) net =
      run_net pb lib proto client addr (event_calls addr running svcs ev) net"
    unfolding event_calls_def
    using Cons.prems by (subst service_round_net) (simp_all add: no_self_peer_def list_all_iff)
  then show ?case using Cons by (simp add: run_services_def run_net_def)
qed (simp add: run_services_def run_net_def)

lemma in_service_calls:
  "ev \<in> set (service_calls addr running clocks now svc i idxs) \<longleftrightarrow>
     (\<exists>idx\<in>set idxs. \<exists>k. List.find (\<lambda>k. addr k = address_of (peers svc ! idx)) running = Some k \<and>
        ev = \<lparr>caller = i, callee = k, read_clock = clocks idx, serve_time = now\<rparr>)"
  by (force simp: service_calls_def List.map_filter_def split: option.splits)

lemma event_calls_apart:
  assumes "shuffles (ev_shuffle e)" and "no_self_peer addr running (svcs (actor e)) (actor e)"
    and "ev \<in> set (event_calls addr running svcs e)"
  shows "caller ev \<noteq> callee ev"
  using assms picked_indices(2) [OF assms(1), of "length (peers (svcs (actor e)))" GOSSIP_FANOUT]
  by (fastforce simp: event_calls_def in_service_calls no_self_peer_def list_all_iff)

text \<open>A service with at most three peers calls all of them in every round.\<close>

lemma event_calls_peer:
  assumes "shuffles (ev_shuffle e)" and "length (peers (svcs (actor e))) \<le> GOSSIP_FANOUT"
    and "p \<in> set (peers (svcs (actor e)))" and "List.find (\<lambda>k. addr k = address_of p) running = Some hub"
  shows "\<exists>ev\<in>set (event_calls addr running svcs e). caller ev = actor e \<and> callee ev = hub"
proof -
  let ?ps = "peers (svcs (actor e))"
  let ?idxs = "pick_random_indices (ev_shuffle e) (length ?ps) GOSSIP_FANOUT"
  note pick = picked_indices [OF assms(1), of "length ?ps" GOSSIP_FANOUT]
  have "card (set ?idxs) = card {..<length ?ps}" using pick(1,3) assms(2) by (simp add: distinct_card min_def)
  then have all: "set ?idxs = {..<length ?ps}" using pick(2) by (simp add: card_subset_eq)
  obtain idx where "idx < length ?ps" "?ps ! idx = p" using assms(3) by (auto simp: in_set_conv_nth)
  with all assms(4) have "\<lparr>caller = actor e, callee = hub, read_clock = ev_clocks e idx, serve_time = ev_time e\<rparr>
      \<in> set (event_calls addr running svcs e)"
    unfolding event_calls_def in_service_calls by (intro bexI [of _ idx] exI [of _ hub]) simp_all
  then show ?thesis by (intro bexI) simp_all
qed

section \<open>Property\<close>

text \<open>
  Property C22: convergence of the gossip services.  Every service knows at most three peers, one of them the
  seed node and none of them itself, and some peers may be down.  First every service makes a round, at least one, and then every service makes
  a round again, each of these two passes in any order and with any shuffle of the peers.  Then a record that
  leads the registries (\<^const>\<open>leads\<close>: its agent has no other record, other agents are at lower revisions, and
  all fields can be sent in a line), has a positive revision, passes the checks of the nodes
  and was on one of them is on all of them, provided that the agents of the network are no more than the limit of records per
  round, or that there is no limit.
\<close>

theorem gossip_services_converge:
  fixes net :: "nat \<Rightarrow> 'e node"
  assumes "\<forall>k. leads r ids (records (registry_of (net k))) \<and> trusts lib r (fst (net k))"
    and "0 < revision r" and "memcmp_ok lib"
    and "signature_rejection (proto_trust proto) (verify_agent_signature lib r) = None"
    and "\<forall>k\<in>K. no_self_peer addr running (svcs k) k \<and> length (peers (svcs k)) \<le> 3 \<and>
      max_registry_items_per_round (gs_gossip_config (svcs k)) = lim \<and>
      (\<exists>p\<in>set (peers (svcs k)). List.find (\<lambda>j. addr j = address_of p) running = Some hub)"
    and "lim = 0 \<or> length ids \<le> unat lim"
    and "\<forall>ev\<in>set (pass1 @ pass2). shuffles (ev_shuffle ev)"
    and "actor ` set pass1 = K" and "actor ` set pass2 = K"
    and "\<exists>k\<in>insert hub K. find_record (agent_id r) (registry_of (net k)) \<noteq> None"
  shows "\<forall>k\<in>insert hub K.
     find_record (agent_id r) (registry_of (run_services pb lib proto addr running svcs (pass1 @ pass2) net k)) \<noteq> None"
proof -
  let ?calls = "\<lambda>evs. concat (map (event_calls addr running svcs) evs)"
  let ?client = "\<lparr>max_entries_per_round = lim\<rparr>"
  have ev: "shuffles (ev_shuffle e) \<and> no_self_peer addr running (svcs (actor e)) (actor e) \<and> service_client (svcs (actor e)) = ?client"
    if "e \<in> set (pass1 @ pass2)" for e
  proof -
    have "actor e \<in> K" using that assms(8,9) by auto
    with that assms(5,7) show ?thesis by (simp add: service_client_def)
  qed
  have hub: "calls_hub K hub (?calls evs)" if evs: "actor ` set evs = K" "set evs \<subseteq> set (pass1 @ pass2)" for evs
    unfolding calls_hub_def
  proof
    fix k
    assume "k \<in> K"
    then obtain e where e: "e \<in> set evs" "actor e = k" using evs(1) by blast
    obtain p where "p \<in> set (peers (svcs k))" "List.find (\<lambda>j. addr j = address_of p) running = Some hub"
      "length (peers (svcs k)) \<le> 3"
      using assms(5) \<open>k \<in> K\<close> by blast
    with e ev [of e] evs(2) show "\<exists>ev\<in>set (?calls evs). caller ev = k \<and> callee ev = hub"
      using event_calls_peer [of e svcs p addr running hub] by (auto simp: GOSSIP_FANOUT_def)
  qed
  have "\<exists>k\<in>insert hub K. k \<in> holders (agent_id r) net" using assms(10) by (simp add: holders_def)
  note infected = two_passes_infect [OF hub [of pass1] hub [of pass2] this]
  have "\<forall>ev\<in>set (?calls (pass1 @ pass2)). caller ev \<noteq> callee ev"
  proof
    fix c
    assume "c \<in> set (?calls (pass1 @ pass2))"
    then obtain e where "e \<in> set (pass1 @ pass2)" "c \<in> set (event_calls addr running svcs e)" by auto
    then show "caller c \<noteq> callee c" using ev [of e] event_calls_apart [of e addr running svcs c] by blast
  qed
  note spread = run_net_infects [OF assms(1-4) _ this, of ?client pb addr]
  have "run_services pb lib proto addr running svcs (pass1 @ pass2) net =
      run_net pb lib proto ?client addr (?calls (pass1 @ pass2)) net"
    using ev by (intro run_services_net) blast
  then have "insert hub K \<subseteq> holders (agent_id r) (run_services pb lib proto addr running svcs (pass1 @ pass2) net)"
    using infected spread assms(6,8,9) by simp
  then show ?thesis unfolding holders_def by blast
qed

text \<open>The network of three again, where nodes 1 and 2 have the seed node and a node that is down as peers.\<close>

definition seed_address :: "nat \<Rightarrow> SyncPeer" where
  "seed_address k = \<lparr>peer_host = ''10.0.0.1'', peer_control_port = word_of_nat (43171 + k)\<rparr>"

definition seed_service :: GossipService where
  "seed_service = fold add_peer
     [\<lparr>gp_node_id = [], gp_host = ''10.0.0.9'', gp_listen_port = 43170, gp_control_port = 43171\<rparr>,
      \<lparr>gp_node_id = [], gp_host = ''10.0.0.1'', gp_listen_port = 43170, gp_control_port = 43171\<rparr>]
     (new_GossipService default_NodeConfig default_GossipConfig)"

definition turn :: "nat \<Rightarrow> service_event" where
  "turn k = \<lparr>actor = k, ev_clocks = (\<lambda>_ _. 0), ev_shuffle = rev, ev_time = 0\<rparr>"

lemma seed_service_peers:
  "no_self_peer seed_address [0, 1, 2] seed_service 1" "no_self_peer seed_address [0, 1, 2] seed_service 2"
  "length (peers seed_service) \<le> 3" "max_registry_items_per_round (gs_gossip_config seed_service) = 256"
  "\<exists>p\<in>set (peers seed_service). List.find (\<lambda>j. seed_address j = address_of p) [0, 1, 2] = Some 0"
  by (simp_all add: seed_service_def add_peer_def new_GossipService_def peers_def no_self_peer_def seed_address_def
      address_of_def default_GossipConfig_def)

theorem gossip_services_converge_witness:
  "{0, 1, 2} \<subseteq> holders ''a'' (run_services None (Some sample_sodium) strict_proto seed_address [0, 1, 2] (\<lambda>_. seed_service)
     ([turn 2, turn 1] @ [turn 2, turn 1]) sample_net)"
proof -
  have K: "\<forall>k\<in>{1, 2}. no_self_peer seed_address [0, 1, 2] seed_service k \<and> length (peers seed_service) \<le> 3 \<and>
      max_registry_items_per_round (gs_gossip_config seed_service) = 256 \<and>
      (\<exists>p\<in>set (peers seed_service). List.find (\<lambda>j. seed_address j = address_of p) [0, 1, 2] = Some 0)"
    using seed_service_peers by simp
  have turns: "\<forall>ev\<in>set ([turn 2, turn 1] @ [turn 2, turn 1]). shuffles (ev_shuffle ev)"
    "actor ` set [turn 2, turn 1] = {1, 2}"
    by (auto simp: turn_def shuffles_def)
  have held: "\<exists>k\<in>insert 0 {1, 2}. find_record (agent_id signed_agent) (registry_of (sample_net k)) \<noteq> None"
    by (simp add: sample_net_def find_record_lookup)
  show ?thesis
    using gossip_services_converge [OF sample_net_leads signed_agent_simps(1) memcmp_ok_sample sample_net_policy K _
        turns(1) turns(2) turns(2) held]
    by (simp add: signed_agent_simps holders_def)
qed

end
