(* ===== verification/Spec2Isabelle.thy ===== *)
theory Spec2Isabelle
  imports Prelude Cpp_Text String_Map Cpp_Sort Byte_Codec Beacon_Types Secure_Buffer Secure_Heap Crypto
    Identity_Service Identity_Store Agent_Registry Framing Peer_Handshake Reputation Gossip_Scheduler
    Control_Protocol Registry_Sync Sync_Client Control_Protobuf Control_Server Udp_Handshake
    Gossip_Service Service_Lifecycle Node_Sync Secure_Path Persistence_Service Engine_Main
    Concurrent_Upserts Engine_Run Thread_Programs Node_Threads Stdio_Faults Key_Files Trust_Store_Heap
    Key_Heap Gossip_Threads Recovery_Report Node_Life Leases Catch_Up Leading_Record
    Ghost_Agents Epidemic Gossip_Network
begin

text \<open>
  A verification development of BeaconNode, an agent discovery daemon in C++ (sources under
  \<^verbatim>\<open>src/src/beacon\<close>, \<^verbatim>\<open>src/src/beacon_net\<close> and \<^verbatim>\<open>src/src/beacon_engine\<close>).

  \<^bold>\<open>The program.\<close>  A node keeps a registry of agents.  Agents register and send heartbeats over a TCP
  control port, as text lines or as protobuf messages in binary frames; nodes exchange registries over
  the same port in gossip rounds and greet each other over UDP.  Records may be signed; a trust store
  pins the first key seen for an agent.  Accepted records are appended to a log from which the
  registry is recovered at the next start.  Three threads (control server, datagram responder, gossip
  service) share the registry with the main loop, which purges expired records.

  \<^bold>\<open>Foundations.\<close>
  \<^item> \<^verbatim>\<open>Prelude\<close>, \<^verbatim>\<open>Cpp_Text\<close>, \<^verbatim>\<open>String_Map\<close>, \<^verbatim>\<open>Cpp_Sort\<close>, \<^verbatim>\<open>Byte_Codec\<close>: machine integers, octets and
    characters, the parts of the C++ library that the sources use (stream extraction, \<^verbatim>\<open>getline\<close>,
    \<^verbatim>\<open>from_chars\<close>, \<^verbatim>\<open>stoi\<close>, \<^verbatim>\<open>to_string\<close>, \<^verbatim>\<open>std::map\<close>, \<^verbatim>\<open>std::sort\<close>), and their laws.  \<^verbatim>\<open>std::map\<close> and the sorting
    routine are locales (\<^verbatim>\<open>keyed_store\<close> and the sorting interface) interpreted on the model's own functions.
  \<^item> \<^verbatim>\<open>Beacon_Types\<close>: \<^verbatim>\<open>types.hpp\<close>, \<^verbatim>\<open>config.hpp\<close>, \<^verbatim>\<open>config.cpp\<close>.

  \<^bold>\<open>Components\<close> (theory: sources; what its lemmas show).
  \<^item> \<^verbatim>\<open>Secure_Buffer\<close>, \<^verbatim>\<open>Secure_Heap\<close>: \<^verbatim>\<open>secure_buffer.hpp\<close>; the comparison on values, and the buffers with their
    pointers on an explicit heap.  Programs over buffers are a step relation; no undefined access but through a lost block, every
    freed block zeroed, no leak while no \<^verbatim>\<open>resize\<close> throws, and what a failed \<^verbatim>\<open>resize\<close> leaves behind.
  \<^item> \<^verbatim>\<open>Trust_Store_Heap\<close>: \<^verbatim>\<open>identity_service.cpp\<close> with the buffers of its keys on that heap; it implements the
    trust store of values, and gives back every block, wiped.
  \<^item> \<^verbatim>\<open>Key_Heap\<close>: key pairs, signatures and \<^verbatim>\<open>load_or_create\<close> with their buffers; on every path, exceptions
    included, the secret key is wiped from memory, and fresh keys sign and verify.
  \<^item> \<^verbatim>\<open>Crypto\<close>, \<^verbatim>\<open>Identity_Service\<close>, \<^verbatim>\<open>Identity_Store\<close>: \<^verbatim>\<open>crypto.cpp\<close>, \<^verbatim>\<open>identity_service.cpp\<close>, \<^verbatim>\<open>identity_store.cpp\<close>;
    the hexadecimal codec, injectivity of the signed text, key pinning (locale \<^verbatim>\<open>key_pinning\<close>), and the
    identity of a node over restarts.
  \<^item> \<^verbatim>\<open>Key_Files\<close>: the file operations of a first start one by one, for crashes between them, short writes
    and permissions; the Windows branch of \<^verbatim>\<open>restrict_file_permissions\<close> over its system calls.
  \<^item> \<^verbatim>\<open>Agent_Registry\<close>: \<^verbatim>\<open>agent_registry.cpp\<close>; every operation.  The revision and key rule is a locale
    that the model's \<^verbatim>\<open>upsert\<close> interprets; well-formedness and monotone revisions over all histories,
    merge as a maximum, purge, selection and recovery.
  \<^item> \<^verbatim>\<open>Framing\<close>, \<^verbatim>\<open>Peer_Handshake\<close>, \<^verbatim>\<open>Reputation\<close>, \<^verbatim>\<open>Gossip_Scheduler\<close>: the files of the same names; round
    trips, canonical decoding, acceptance of peers, selection of entries.
  \<^item> \<^verbatim>\<open>Control_Protocol\<close>, \<^verbatim>\<open>Registry_Sync\<close>, \<^verbatim>\<open>Control_Protobuf\<close>, \<^verbatim>\<open>Control_Server\<close>: the control port from octets
    to the registry.  Readers of agent fields share the locale \<^verbatim>\<open>record_reader\<close>; outcomes on every
    branch, errors without effect, agreement of the two encodings, and the invariant of a node over
    any sequence of sessions.
  \<^item> \<^verbatim>\<open>Sync_Client\<close>, \<^verbatim>\<open>Gossip_Service\<close>, \<^verbatim>\<open>Node_Sync\<close>: \<^verbatim>\<open>sync_client.cpp\<close>, \<^verbatim>\<open>gossip_service.cpp\<close>; safety against
    arbitrary peers, and the exact effect of a round with a peer that runs the modelled server.
  \<^item> \<^verbatim>\<open>Leases\<close>: a node that handles lines and purges implements a table of leases (\<^verbatim>\<open>agent\<close> to end of lease);
    from this, which agents are listed is read off the transcript of replies.
  \<^item> \<^verbatim>\<open>Catch_Up\<close>, \<^verbatim>\<open>Leading_Record\<close>, \<^verbatim>\<open>Ghost_Agents\<close>, \<^verbatim>\<open>Epidemic\<close>, \<^verbatim>\<open>Gossip_Network\<close>: rounds between nodes that run the modelled code.
    A node that is behind catches up in as many rounds as the limit requires (what it lacks is
    \<^const>\<open>missing\<close>); a record that leads the registries (\<^const>\<open>leads\<close>) and passes the checks of the nodes is on
    both nodes after a round when it was on one; so it outlives every lease on two nodes that purge and
    synchronise in turn, and in a network of nodes it spreads exactly by contact.  The rounds of the gossip
    services are rounds of the network, one for each peer they picked and reached; through a seed node the
    record reaches all nodes.
  \<^item> \<^verbatim>\<open>Udp_Handshake\<close>, \<^verbatim>\<open>Service_Lifecycle\<close>: \<^verbatim>\<open>udp_handshake_responder.cpp\<close> and \<^verbatim>\<open>start\<close>, \<^verbatim>\<open>stop\<close>, \<^verbatim>\<open>run\<close> and the
    destructors of the three services as interleaved steps of owner, worker and network.  The locale \<^verbatim>\<open>stops_or_waits\<close>
    derives that in every fair run a stop completes or the threads wait for their surroundings for ever, with
    progress measured in any well-founded order; the control server interprets it, where a worker can wait for
    a client that does not send or does not read, and for a connection when the wake-up of \<^verbatim>\<open>stop\<close> failed.  Where no
    state waits it is \<^verbatim>\<open>eventually_stops\<close>, and \<^verbatim>\<open>stoppable_service\<close> is the case of a numeric measure, interpreted
    for the datagram responder and the gossip service.
  \<^item> \<^verbatim>\<open>Gossip_Threads\<close>: the gossip worker section by section, with peers that may stay silent; the order of
    \<^verbatim>\<open>eventually_stops\<close> there is that of the remaining program.
  \<^item> \<^verbatim>\<open>Secure_Path\<close>, \<^verbatim>\<open>Persistence_Service\<close>: \<^verbatim>\<open>persistence_service.cpp\<close>; the path guard, the log and the
    snapshot as octets on a disk, crashes that cut the log anywhere, damaged octets and CRC-32.
  \<^item> \<^verbatim>\<open>Stdio_Faults\<close>: the same file with its handles on a file system where writes can be short, \<^verbatim>\<open>fsync\<close> can
    fail and a power loss keeps the durable part and any selection of the rest.  The constructor and any calls
    refine \<^verbatim>\<open>Persistence_Service\<close> when no write is short; flushed entries survive later appends, however they
    fail, but not later snapshots.
  \<^item> \<^verbatim>\<open>Recovery_Report\<close>: the counters and messages of a recovery.
  \<^item> \<^verbatim>\<open>Engine_Main\<close>, \<^verbatim>\<open>Concurrent_Upserts\<close>, \<^verbatim>\<open>Engine_Run\<close>: \<^verbatim>\<open>main.cpp\<close>; arguments, recovery, the log callback, the
    tick, upserts from several threads, and \<^verbatim>\<open>main\<close> as a whole.
  \<^item> \<^verbatim>\<open>Thread_Programs\<close>, \<^verbatim>\<open>Node_Threads\<close>: the handlers of all components as programs of locked sections, equal
    to the sequential handlers when run alone, and the step relation that interleaves the four threads of
    \<^verbatim>\<open>main\<close>.  An assertion logic over programs (\<^const>\<open>upholds\<close>) gives that what a client was told is in
    the log, from which the durability of acknowledged registrations follows.
  \<^item> \<^verbatim>\<open>Node_Life\<close>: start, threads, crash and restart of the whole program on one file system.

  \<^bold>\<open>How code becomes definitions.\<close>  Classes are records, methods are functions from the old to the new
  state, exceptions and early returns are values of \<^verbatim>\<open>+\<close> or \<^verbatim>\<open>option\<close>, and C++ references are the state
  components that are returned.  Operations that read the clock take the instants they read.  A registry
  carries its callback and the callback's environment \<^verbatim>\<open>'e\<close>; in the engine that is the disk.  Integers keep
  their width where the code can wrap.  Lists of records keep the order of the vectors.

  \<^bold>\<open>Code outside the repository\<close> is an argument: libsodium (\<^typ>\<open>sodium\<close>, absent in builds without it),
  the protobuf codecs (\<^typ>\<open>protobuf\<close>, \<^typ>\<open>entry_codec\<close>), the file system (\<^typ>\<open>filesystem\<close>), the allocator
  (\<^typ>\<open>memory\<close>), sockets (transport functions, queues of datagrams and connections), the random shuffle.
  What is relied on is a named hypothesis (\<^const>\<open>memcmp_ok\<close>, \<^const>\<open>storable\<close>, \<^const>\<open>allocator_ok\<close>,
  \<^const>\<open>shuffles\<close>), and the theorems that use one come with an instance.

  \<^bold>\<open>Loops and fuel.\<close>  All loops are structural or have a termination proof; no fuel is used.  The
  maintenance loop, which may run for ever, is a partial function whose result is \<^const>\<open>None\<close> then,
  and it is proved when it returns.  The receive capacity of a socket is any positive number.

  \<^bold>\<open>Behaviour that the theorems expose\<close> and that the code may not intend: agents that were updated lose
  their lease at a restart while purged ones come back, older revisions are never pulled, nor records that the
  limit of a round separates from others of the same revision, agents that nobody renews live on between two nodes
  that renew each other's copies, heartbeats invalidate signatures, binary
  frames never pin keys, unsigned records pass a merge, one client that is silent or does not read its reply
  holds up the control server and one silent peer the gossip service, \<^verbatim>\<open>stop\<close> hangs when its wake-up connection fails, a
  failed rename loses the log, a snapshot on a full disk or before a power loss loses entries, an oversized
  entry is replayed as other entries, registrations at revision 0 do not survive a restart, a crash in
  the first start can leave a node without a name, a failed \<^verbatim>\<open>resize\<close> leaks a secret and leaves a buffer whose elements must not be touched, and metadata can be
  merged under a signature.

  \<^bold>\<open>Not modelled.\<close>  Messages on standard error except those of the arguments and of the recovery; memory exhaustion
  outside \<^verbatim>\<open>SecureBuffer\<close>; memory orders weaker than interleaving (all shared data is accessed under a
  mutex or is atomic); the length of the gossip timer and of the pause of the main loop (steps are taken at any
  time); accessors that only return a member; the Python SDK, the tools, the tests and the build.
\<close>

end
